(* ===== verification/Prelude.thy ===== *)
theory Prelude
  imports Main "HOL-Library.Word" "HOL-Library.Signed_Division"
begin

section \<open>Prelude: Go values, errors, panics and slices\<close>

text \<open>
  What the components share: the machine types of the Go sources, the error values they
  return, panics as the left side of a sum, Go's slice expression and \<open>copy\<close>, and the list
  lemmas the component proofs use.
  \<^item> An \<open>error\<close> result is a \<open>goerr option\<close>: \<open>None\<close> is Go's \<open>nil\<close>.
  \<^item> An operation that can panic has type \<open>'a go\<close>: \<open>Inl\<close> is the panic.
  \<^item> An operation that may not return has type \<open>'a go option\<close>: \<open>None\<close> is the loop that
    never ends.
\<close>

type_synonym byte = "8 word"

datatype go_panic =
    FillFullBuffer      \<comment> \<open>bufio: tried to fill full buffer\<close>
  | NegativeRead        \<comment> \<open>bufio: reader returned negative count from Read\<close>
  | NegativeWrite       \<comment> \<open>bufio: writer returned negative count from Write\<close>
  | RewindPastStart     \<comment> \<open>bufio: tried to rewind past start of buffer\<close>
  | SliceBounds         \<comment> \<open>slice bounds out of range\<close>
  | IndexRange          \<comment> \<open>index out of range\<close>
  | MsgRefCount         \<comment> \<open>Msg reference counter went negative\<close>
  | MsgInitSize         \<comment> \<open>Msg.Init size above its capacity\<close>
  | WaitGroupNegative   \<comment> \<open>sync: negative WaitGroup counter\<close>
  | NilDeref            \<comment> \<open>nil pointer dereference\<close>
  | ReflectPanic        \<comment> \<open>reflect: a method called on a value of another kind\<close>
  | MakeSliceCap        \<comment> \<open>makeslice: cap out of range\<close>
  | ChanClosed          \<comment> \<open>send on closed channel\<close>

type_synonym 'a go = "go_panic + 'a"

datatype goerr =
    EOF                 \<comment> \<open>io.EOF\<close>
  | ErrNoProgress       \<comment> \<open>io.ErrNoProgress\<close>
  | ErrShortWrite       \<comment> \<open>io.ErrShortWrite\<close>
  | ErrBufferFull
  | ErrNegativeCount
  | ErrInvalidUnreadByte
  | ErrInvalidUnreadRune
  | EPIPE               \<comment> \<open>syscall.EPIPE\<close>
  | ECONNRESET          \<comment> \<open>syscall.ECONNRESET\<close>
  | NetErr bool goerr   \<comment> \<open>a net.Error: its Timeout() and the error it wraps\<close>
  | TextErr string      \<comment> \<open>any other error, with its message\<close>

named_theorems go_defs \<open>definitions of the Go primitives\<close>
named_theorems wf_facts \<open>well-formedness facts of the components\<close>

lemma byte_bounds: "0 \<le> uint (x :: byte)" "uint (x :: byte) < 256" "- 1 \<le> uint (x :: byte)"
  using uint_bounded[of x] uint_ge_0[of x] by (simp_all add: order_trans[of "- 1" 0])

text \<open>
  \<open>go_returns m P\<close>: the operation returns, without a panic, a value with \<open>P\<close>. \<open>go_ends m P\<close>
  says the same of an operation that might not return.
\<close>

definition go_returns :: "'a go \<Rightarrow> ('a \<Rightarrow> bool) \<Rightarrow> bool" where
  "go_returns m P \<longleftrightarrow> (case m of Inl p \<Rightarrow> False | Inr x \<Rightarrow> P x)"

definition go_ends :: "'a go option \<Rightarrow> ('a \<Rightarrow> bool) \<Rightarrow> bool" where
  "go_ends m P \<longleftrightarrow> (case m of None \<Rightarrow> False | Some r \<Rightarrow> go_returns r P)"

lemma go_returns_simps [simp]:
  "go_returns (Inl p) P = False" "go_returns (Inr x) P = P x"
  by (simp_all add: go_returns_def)

lemma go_ends_simps [simp]:
  "go_ends None P = False" "go_ends (Some r) P = go_returns r P"
  by (simp_all add: go_ends_def)

lemma go_returnsE:
  assumes "go_returns m P" obtains x where "m = Inr x" "P x"
  using assms by (auto simp: go_returns_def split: sum.splits)

lemma go_endsE:
  assumes "go_ends m P" obtains x where "m = Some (Inr x)" "P x"
  using assms by (auto simp: go_ends_def go_returns_def split: sum.splits option.splits)

lemma go_returns_mono: "go_returns m P \<Longrightarrow> (\<And>x. m = Inr x \<Longrightarrow> P x \<Longrightarrow> Q x) \<Longrightarrow> go_returns m Q"
  by (auto simp: go_returns_def split: sum.splits)

lemma go_ends_mono: "go_ends m P \<Longrightarrow> (\<And>x. m = Some (Inr x) \<Longrightarrow> P x \<Longrightarrow> Q x) \<Longrightarrow> go_ends m Q"
  by (auto simp: go_ends_def go_returns_def split: sum.splits option.splits)

subsection \<open>Slices\<close>

text \<open>The slice expression \<open>xs[lo:hi]\<close>; it panics unless \<open>0 <= lo <= hi <= cap\<close>.\<close>

definition gslice :: "'a list \<Rightarrow> int \<Rightarrow> int \<Rightarrow> 'a list go" where
  "gslice xs lo hi =
     (if 0 \<le> lo \<and> lo \<le> hi \<and> hi \<le> int (length xs)
      then Inr (take (nat (hi - lo)) (drop (nat lo) xs)) else Inl SliceBounds)"

text \<open>\<open>copy(dst[i:], src)\<close>: as many elements as fit; the rest of \<open>dst\<close> is kept.\<close>

definition overwrite :: "'a list \<Rightarrow> nat \<Rightarrow> 'a list \<Rightarrow> 'a list" where
  "overwrite dst i src = take i dst @ take (length dst - i) src @ drop (i + length src) dst"

lemma length_overwrite [simp]: "length (overwrite dst i src) = length dst"
  by (simp add: overwrite_def)

lemma overwrite_eq_Nil [simp]: "overwrite dst i src = [] \<longleftrightarrow> dst = []"
  by (simp flip: length_0_conv)

lemma overwrite_Nil [simp]: "overwrite dst i [] = dst"
  by (simp add: overwrite_def)

lemma take_overwrite_prefix: "k \<le> i \<Longrightarrow> i \<le> length dst \<Longrightarrow> take k (overwrite dst i src) = take k dst"
  by (simp add: overwrite_def min_def)

lemma take_overwrite:
  "i + length src \<le> length dst \<Longrightarrow> take (i + length src) (overwrite dst i src) = take i dst @ src"
  by (simp add: overwrite_def)

lemma drop_take_overwrite:
  assumes "r \<le> i" and "i + length src \<le> length dst"
  shows "take (i + length src - r) (drop r (overwrite dst i src)) = take (i - r) (drop r dst) @ src"
proof -
  have "take (i + length src - r) (drop r (overwrite dst i src))
      = drop r (take (i + length src) (overwrite dst i src))"
    using assms by (simp add: drop_take)
  also have "\<dots> = drop r (take i dst @ src)"
    using assms by (simp add: take_overwrite)
  also have "\<dots> = take (i - r) (drop r dst) @ src"
    using assms by (simp add: drop_take)
  finally show ?thesis .
qed

lemma gslice_Inr:
  "gslice xs lo hi = Inr ys \<longleftrightarrow>
     0 \<le> lo \<and> lo \<le> hi \<and> hi \<le> int (length xs) \<and> ys = take (nat (hi - lo)) (drop (nat lo) xs)"
  by (auto simp: gslice_def)

lemma gslice_nat:
  "lo \<le> hi \<Longrightarrow> hi \<le> length xs \<Longrightarrow>
     gslice xs (int lo) (int hi) = Inr (take (hi - lo) (drop lo xs))"
  by (simp add: gslice_def nat_diff_distrib)

lemma last_take: "0 < n \<Longrightarrow> n \<le> length xs \<Longrightarrow> last (take n xs) = xs ! (n - 1)"
  by (subst last_conv_nth) (auto simp: min_def)

subsection \<open>bytes.IndexByte\<close>

text \<open>The least index of \<open>c\<close>; \<open>None\<close> stands for the result -1.\<close>

fun indexByte :: "byte list \<Rightarrow> byte \<Rightarrow> nat option" where
  "indexByte [] c = None"
| "indexByte (x # xs) c = (if x = c then Some 0 else map_option Suc (indexByte xs c))"

lemma indexByte_None: "indexByte xs c = None \<longleftrightarrow> c \<notin> set xs"
  by (induction xs) auto

lemma indexByte_Some:
  "indexByte xs c = Some i \<Longrightarrow>
     i < length xs \<and> xs ! i = c \<and> c \<notin> set (take i xs)"
  by (induction xs arbitrary: i) (auto split: if_splits)

end
