(* ===== verification/Io.thy ===== *)
theory Io
  imports Prelude
begin

section \<open>The io interfaces\<close>

text \<open>
  \<open>io.Reader\<close> and \<open>io.Writer\<close> as the repository uses them. An implementation is a function on a
  state. A read gets the length of the slice to fill and answers with the next state, the bytes
  it stored at the front of the slice, the count it claims and its error; a write gets the bytes
  and answers with the next state, the count and the error.

  The locales state the documented contracts: \<open>io_reader\<close> and \<open>io_writer\<close> what every
  implementation promises, \<open>io_reader_eof\<close> in addition what a source of finitely many bytes
  promises. \<open>pending\<close> is what the source still has to deliver, \<open>sink\<close> what the writer has
  accepted; \<open>ok\<close> is the implementation's invariant.
\<close>

type_synonym 's rd_fun = "'s \<Rightarrow> nat \<Rightarrow> 's \<times> byte list \<times> int \<times> goerr option"
type_synonym 'w wr_fun = "'w \<Rightarrow> byte list \<Rightarrow> 'w \<times> int \<times> goerr option"

locale io_reader =
  fixes rdf :: "'s rd_fun"
    and ok :: "'s \<Rightarrow> bool"
    and pending :: "'s \<Rightarrow> byte list"
  assumes rd_contract: "ok s \<Longrightarrow> rdf s k = (s', d, n, e) \<Longrightarrow>
      ok s' \<and> n = int (length d) \<and> length d \<le> k \<and> pending s = d @ pending s'"

text \<open>
  A source that ends: into a slice that is not empty it stores a byte or reports an error, and
  its only error is \<open>io.EOF\<close>, reported when nothing is left.
\<close>

locale io_reader_eof = io_reader +
  assumes rd_progress: "ok s \<Longrightarrow> 0 < k \<Longrightarrow> rdf s k = (s', d, n, e) \<Longrightarrow> d \<noteq> [] \<or> e \<noteq> None"
    and rd_eof: "ok s \<Longrightarrow> rdf s k = (s', d, n, Some x) \<Longrightarrow> x = EOF \<and> pending s' = []"

locale io_writer =
  fixes wrf :: "'w wr_fun"
    and ok :: "'w \<Rightarrow> bool"
    and sink :: "'w \<Rightarrow> byte list"
  assumes wr_contract: "ok s \<Longrightarrow> wrf s p = (s', n, e) \<Longrightarrow>
      ok s' \<and> 0 \<le> n \<and> n \<le> int (length p) \<and> sink s' = sink s @ take (nat n) p \<and>
      (n < int (length p) \<longrightarrow> e \<noteq> None)"

text \<open>A source that ends together with a writer: what an operation that copies relies on.\<close>

locale io_copy =
  io_reader_eof rdf ok pending + wr: io_writer wrf wok sink
  for rdf :: "'s rd_fun" and ok :: "'s \<Rightarrow> bool" and pending :: "'s \<Rightarrow> byte list"
    and wrf :: "'w wr_fun" and wok :: "'w \<Rightarrow> bool" and sink :: "'w \<Rightarrow> byte list"

subsection \<open>A source of segments\<close>

text \<open>
  A stream that arrives in pieces, as a TCP connection delivers it: a read returns bytes of the
  first segment only, an empty slice reads nothing, and the end of the stream is \<open>io.EOF\<close>.
  \<open>segs_write\<close> is its counterpart: a sink that accepts at most \<open>quota\<close> bytes in all and reports
  a short write with \<open>EPIPE\<close>.
\<close>

fun segs_read :: "byte list list rd_fun" where
  "segs_read [] k = ([], [], 0, if k = 0 then None else Some EOF)"
| "segs_read (x # xs) k =
     (if k = 0 then (x # xs, [], 0, None)
      else if x = [] then segs_read xs k
      else if length x \<le> k then (xs, x, int (length x), None)
      else (drop k x # xs, take k x, int k, None))"

definition quota_write :: "(byte list \<times> nat) wr_fun" where
  "quota_write s p =
     (case s of (out, q) \<Rightarrow>
        let n = min q (length p)
        in ((out @ take n p, q - n), int n, if n < length p then Some EPIPE else None))"

lemma segs_read_facts:
  "segs_read s k = (s', d, n, e) \<Longrightarrow>
     n = int (length d) \<and> length d \<le> k \<and> concat s = d @ concat s' \<and>
     (0 < k \<longrightarrow> d \<noteq> [] \<or> e \<noteq> None) \<and> (e \<noteq> None \<longrightarrow> e = Some EOF \<and> concat s' = [])"
  by (induction s k rule: segs_read.induct) (auto split: if_splits)

interpretation segs: io_reader_eof segs_read "\<lambda>_. True" concat
  by unfold_locales (auto dest: segs_read_facts)

interpretation quota: io_writer quota_write "\<lambda>_. True" fst
  by unfold_locales (auto simp: quota_write_def Let_def min_def split: if_splits)

interpretation segs_quota: io_copy segs_read "\<lambda>_. True" concat quota_write "\<lambda>_. True" fst
  by unfold_locales

end
