(* ===== verification/Bufio_Reader.thy ===== *)
theory Bufio_Reader
  imports Io
begin

section \<open>bufiox.Reader: state and operations\<close>

text \<open>
  The buffered reader of \<open>rivetxcore/bufiox/bufio.go\<close>. The client's \<open>io.Reader\<close> is the parameter
  \<open>rdf\<close>. Nothing is assumed of it here: a negative count panics as in the code, a count that is
  too large runs into the slice checks.
  The positions \<open>r\<close> and \<open>w\<close> never go below 0; differences of them are \<open>int\<close>, as in Go.
\<close>

definition defaultBufSize :: int where "defaultBufSize = 4096"
definition minReadBufferSize :: int where "minReadBufferSize = 16"
definition maxConsecutiveEmptyReads :: nat where "maxConsecutiveEmptyReads = 100"

record 's Reader =
  r_buf :: "byte list"
  r_rd :: 's
  r_r :: nat
  r_w :: nat
  r_err :: "goerr option"
  r_lastByte :: int
  r_lastRuneSize :: int

subsection \<open>Construction\<close>

text \<open>The private \<open>reset\<close>: every field but \<open>buf\<close> and \<open>rd\<close> gets its initial value.\<close>

definition Reader_reset_with :: "byte list \<Rightarrow> 's \<Rightarrow> 's Reader" where
  "Reader_reset_with buf rd =
     \<lparr>r_buf = buf, r_rd = rd, r_r = 0, r_w = 0, r_err = None,
      r_lastByte = -1, r_lastRuneSize = -1\<rparr>"

text \<open>\<open>NewReaderSize\<close> on a source that is not a \<open>*Reader\<close>.\<close>

definition NewReaderSize :: "'s \<Rightarrow> int \<Rightarrow> 's Reader" where
  "NewReaderSize rd sz =
     Reader_reset_with (replicate (nat (max sz minReadBufferSize)) 0) rd"

text \<open>
  \<open>NewReaderSize\<close> on a source that is itself a \<open>*Reader\<close>: returned as it is when its buffer is
  large enough (\<open>Inl\<close>), wrapped in a new one otherwise (\<open>Inr\<close>).
\<close>

definition NewReaderSize_of_Reader :: "'s Reader \<Rightarrow> int \<Rightarrow> 's Reader + 's Reader Reader" where
  "NewReaderSize_of_Reader b sz =
     (if sz \<le> int (length (r_buf b)) then Inl b else Inr (NewReaderSize b sz))"

definition NewReader :: "'s \<Rightarrow> 's Reader" where
  "NewReader rd = NewReaderSize rd defaultBufSize"

text \<open>
  The argument of \<open>Reset\<close> is the reader itself or another source. Only the zero value has a nil
  buffer, and only a nil buffer is empty.
\<close>

datatype 's reset_arg = ResetSelf | ResetTo 's

fun Reader_Reset :: "'s Reader \<Rightarrow> 's reset_arg \<Rightarrow> 's Reader" where
  "Reader_Reset b ResetSelf = b"
| "Reader_Reset b (ResetTo rd) =
     Reader_reset_with
       (if r_buf b = [] then replicate (nat defaultBufSize) 0 else r_buf b) rd"

definition Reader_Size :: "'s Reader \<Rightarrow> int" where
  "Reader_Size b = int (length (r_buf b))"

definition Reader_Buffered :: "'s Reader \<Rightarrow> int" where
  "Reader_Buffered b = int (r_w b) - int (r_r b)"

subsection \<open>readErr and fill\<close>

definition Reader_readErr :: "'s Reader \<Rightarrow> goerr option \<times> 's Reader" where
  "Reader_readErr b = (r_err b, b\<lparr>r_err := None\<rparr>)"

definition Reader_ResetErr :: "'s Reader \<Rightarrow> goerr option \<times> 's Reader" where
  "Reader_ResetErr b = Reader_readErr b"

text \<open>The first part of \<open>fill\<close>: slide the unread bytes to the beginning.\<close>

definition Reader_slide :: "'s Reader \<Rightarrow> 's Reader go" where
  "Reader_slide b =
     (if 0 < r_r b then
        (case gslice (r_buf b) (int (r_r b)) (int (r_w b)) of
           Inl p \<Rightarrow> Inl p
         | Inr xs \<Rightarrow> Inr (b\<lparr>r_buf := overwrite (r_buf b) 0 xs, r_w := r_w b - r_r b, r_r := 0\<rparr>))
      else Inr b)"

text \<open>The second part: at most \<open>maxConsecutiveEmptyReads\<close> calls of the source.\<close>

fun Reader_fill_loop :: "'s rd_fun \<Rightarrow> nat \<Rightarrow> 's Reader \<Rightarrow> 's Reader go" where
  "Reader_fill_loop rdf 0 b = Inr (b\<lparr>r_err := Some ErrNoProgress\<rparr>)"
| "Reader_fill_loop rdf (Suc i) b =
     (case rdf (r_rd b) (length (r_buf b) - r_w b) of (s, d, n, e) \<Rightarrow>
        if n < 0 then Inl NegativeRead
        else
          let b1 = b\<lparr>r_rd := s, r_buf := overwrite (r_buf b) (r_w b) d, r_w := r_w b + nat n\<rparr>
          in (case e of
                Some x \<Rightarrow> Inr (b1\<lparr>r_err := Some x\<rparr>)
              | None \<Rightarrow> if 0 < n then Inr b1 else Reader_fill_loop rdf i b1))"

definition Reader_fill :: "'s rd_fun \<Rightarrow> 's Reader \<Rightarrow> 's Reader go" where
  "Reader_fill rdf b =
     (case Reader_slide b of
        Inl p \<Rightarrow> Inl p
      | Inr b1 \<Rightarrow>
          if length (r_buf b1) \<le> r_w b1 then Inl FillFullBuffer
          else Reader_fill_loop rdf maxConsecutiveEmptyReads b1)"

text \<open>
  What a call of \<open>fill\<close> achieves, for any source: the buffer keeps its length, no byte is
  dropped, and unless an error was recorded at least one byte arrived. The loops below end
  because of it: \<open>fill_measure\<close> is the free room plus one for the missing error.
\<close>

definition fill_measure :: "'s Reader \<Rightarrow> nat" where
  "fill_measure b =
     nat (int (length (r_buf b)) - Reader_Buffered b) + (if r_err b = None then 1 else 0)"

lemma Reader_slide_frame:
  "Reader_slide b = Inr b' \<Longrightarrow>
     length (r_buf b') = length (r_buf b) \<and> Reader_Buffered b' = Reader_Buffered b \<and>
     r_err b' = r_err b \<and> r_rd b' = r_rd b \<and> r_r b' = 0 \<and>
     r_lastByte b' = r_lastByte b \<and> r_lastRuneSize b' = r_lastRuneSize b"
  by (auto simp: Reader_slide_def gslice_Inr Reader_Buffered_def split: if_splits sum.splits)

lemma Reader_fill_loop_frame:
  "Reader_fill_loop rdf i b = Inr b' \<Longrightarrow>
     length (r_buf b') = length (r_buf b) \<and> Reader_Buffered b \<le> Reader_Buffered b' \<and>
     r_r b' = r_r b \<and> (r_err b' = None \<longrightarrow> Reader_Buffered b < Reader_Buffered b') \<and>
     r_lastByte b' = r_lastByte b \<and> r_lastRuneSize b' = r_lastRuneSize b"
proof (induction i arbitrary: b)
  case (Suc i)
  obtain s d n e where rd: "rdf (r_rd b) (length (r_buf b) - r_w b) = (s, d, n, e)"
    by (metis prod_cases4)
  show ?case
    using Suc.prems Suc.IH
    by (fastforce simp: rd Reader_Buffered_def Let_def split: if_splits option.splits)
qed (auto simp: Reader_Buffered_def)

lemma Reader_fill_frame:
  assumes "Reader_fill rdf b = Inr b'"
  shows "length (r_buf b') = length (r_buf b) \<and> Reader_Buffered b \<le> Reader_Buffered b' \<and>
     r_r b' = 0 \<and> (r_err b' = None \<longrightarrow> Reader_Buffered b < Reader_Buffered b') \<and>
     r_lastByte b' = r_lastByte b \<and> r_lastRuneSize b' = r_lastRuneSize b"
proof -
  from assms obtain b1 where "Reader_slide b = Inr b1"
    and "Reader_fill_loop rdf maxConsecutiveEmptyReads b1 = Inr b'"
    by (auto simp: Reader_fill_def split: sum.splits if_splits)
  then show ?thesis
    using Reader_slide_frame[of b b1] Reader_fill_loop_frame[of rdf maxConsecutiveEmptyReads b1 b']
    by auto
qed

lemma Reader_fill_room:
  assumes "Reader_fill rdf b = Inr b'"
  shows "Reader_Buffered b < int (length (r_buf b))"
  using assms Reader_slide_frame[of b]
  by (auto simp: Reader_fill_def Reader_Buffered_def split: sum.splits if_splits)

lemma fill_measure_less:
  "Reader_fill rdf b = Inr b' \<Longrightarrow> r_err b = None \<Longrightarrow> fill_measure b' < fill_measure b"
  using Reader_fill_frame[of rdf b b'] Reader_fill_room[of rdf b b']
  by (auto simp: fill_measure_def)

subsection \<open>Peek and Discard\<close>

text \<open>
  The slices the Go methods return alias the buffer and are valid until the next read; the model
  returns the bytes they hold at the return.
\<close>

function Reader_peek_loop :: "'s rd_fun \<Rightarrow> int \<Rightarrow> 's Reader \<Rightarrow> 's Reader go" where
  "Reader_peek_loop rdf n b =
     (if Reader_Buffered b < n \<and> Reader_Buffered b < int (length (r_buf b)) \<and> r_err b = None
      then (case Reader_fill rdf b of Inl p \<Rightarrow> Inl p | Inr b' \<Rightarrow> Reader_peek_loop rdf n b')
      else Inr b)"
  by pat_completeness auto
termination
  by (relation "measure (\<lambda>(rdf, n, b). fill_measure b)") (auto intro: fill_measure_less)

definition Reader_Peek ::
  "'s rd_fun \<Rightarrow> int \<Rightarrow> 's Reader \<Rightarrow> (byte list \<times> goerr option \<times> 's Reader) go" where
  "Reader_Peek rdf n b =
     (if n < 0 then Inr ([], Some ErrNegativeCount, b)
      else
        (case Reader_peek_loop rdf n (b\<lparr>r_lastByte := -1, r_lastRuneSize := -1\<rparr>) of
           Inl p \<Rightarrow> Inl p
         | Inr b1 \<Rightarrow>
             if int (length (r_buf b1)) < n then
               (case gslice (r_buf b1) (int (r_r b1)) (int (r_w b1)) of
                  Inl p \<Rightarrow> Inl p
                | Inr xs \<Rightarrow> Inr (xs, Some ErrBufferFull, b1))
             else
               let avail = Reader_Buffered b1;
                   (n', err, b2) =
                     (if avail < n then
                        (case Reader_readErr b1 of (e, b2) \<Rightarrow>
                           (avail, (if e = None then Some ErrBufferFull else e), b2))
                      else (n, None, b1))
               in (case gslice (r_buf b2) (int (r_r b2)) (int (r_r b2) + n') of
                     Inl p \<Rightarrow> Inl p
                   | Inr xs \<Rightarrow> Inr (xs, err, b2))))"

text \<open>
  The loop of \<open>Discard\<close>; it returns the bytes still to skip, the error and the reader. A negative
  \<open>Buffered()\<close> (left behind by a writer that claims too much in \<open>WriteTo\<close>) is corrected by the
  first round, which is what the first component of the measure counts.
\<close>

function Reader_discard_loop ::
  "'s rd_fun \<Rightarrow> int \<Rightarrow> 's Reader \<Rightarrow> (int \<times> goerr option \<times> 's Reader) go" where
  "Reader_discard_loop rdf remain b =
     (case (if Reader_Buffered b = 0 then Reader_fill rdf b else Inr b) of
        Inl p \<Rightarrow> Inl p
      | Inr b1 \<Rightarrow>
          let skip = min (Reader_Buffered b1) remain;
              b2 = b1\<lparr>r_r := nat (int (r_r b1) + skip)\<rparr>;
              remain' = remain - skip
          in if remain' = 0 then Inr (0, None, b2)
             else if r_err b2 \<noteq> None then
               (case Reader_readErr b2 of (e, b3) \<Rightarrow> Inr (remain', e, b3))
             else Reader_discard_loop rdf remain' b2)"
  by pat_completeness auto
termination
proof (relation "measures [\<lambda>(rdf, n, b). if r_w b < r_r b then 1 else 0, \<lambda>(rdf, n, b). nat n]")
  fix rdf :: "'s rd_fun" and remain :: int and b b1 b2 :: "'s Reader" and skip remain' :: int
  assume step: "(if Reader_Buffered b = 0 then Reader_fill rdf b else Inr b) = Inr b1"
    and skip: "skip = min (Reader_Buffered b1) remain"
    and b2: "b2 = b1\<lparr>r_r := nat (int (r_r b1) + skip)\<rparr>"
    and rem: "remain' = remain - skip" "remain' \<noteq> 0" and err: "\<not> r_err b2 \<noteq> None"
  have "skip \<noteq> 0"
    using step err b2 skip rem Reader_fill_frame[of rdf b b1]
    by (auto split: if_splits)
  moreover have "r_w b < r_r b \<longleftrightarrow> r_w b1 < r_r b1"
    using step Reader_fill_frame[of rdf b b1] by (auto simp: Reader_Buffered_def split: if_splits)
  ultimately show "((rdf, remain', b2), rdf, remain, b)
      \<in> measures [\<lambda>(rdf, n, b). if r_w b < r_r b then 1 else 0, \<lambda>(rdf, n, b). nat n]"
    using b2 skip rem by (auto simp: Reader_Buffered_def)
qed auto

definition Reader_Discard ::
  "'s rd_fun \<Rightarrow> int \<Rightarrow> 's Reader \<Rightarrow> (int \<times> goerr option \<times> 's Reader) go" where
  "Reader_Discard rdf n b =
     (if n < 0 then Inr (0, Some ErrNegativeCount, b)
      else if n = 0 then Inr (0, None, b)
      else
        (case Reader_discard_loop rdf n (b\<lparr>r_lastByte := -1, r_lastRuneSize := -1\<rparr>) of
           Inl p \<Rightarrow> Inl p
         | Inr (remain, e, b1) \<Rightarrow> Inr (n - remain, e, b1)))"

subsection \<open>Read, ReadByte, UnreadByte\<close>

text \<open>
  \<open>Read\<close> stores into the caller's slice \<open>p\<close>: the first component of the result is \<open>p\<close> after the
  call, the second the count. Indexing outside of a slice panics.
\<close>

definition gindex :: "'a list \<Rightarrow> int \<Rightarrow> 'a go" where
  "gindex xs i = (if 0 \<le> i \<and> i < int (length xs) then Inr (xs ! nat i) else Inl IndexRange)"

definition Reader_copy_out ::
  "byte list \<Rightarrow> 's Reader \<Rightarrow> (byte list \<times> int \<times> goerr option \<times> 's Reader) go" where
  "Reader_copy_out p b =
     (case gslice (r_buf b) (int (r_r b)) (int (r_w b)) of
        Inl x \<Rightarrow> Inl x
      | Inr src \<Rightarrow>
          let n = min (length p) (length src); b1 = b\<lparr>r_r := r_r b + n\<rparr>
          in (case gindex (r_buf b1) (int (r_r b1) - 1) of
                Inl x \<Rightarrow> Inl x
              | Inr c \<Rightarrow>
                  Inr (overwrite p 0 src, int n, None,
                       b1\<lparr>r_lastByte := uint c, r_lastRuneSize := -1\<rparr>)))"

definition Reader_Read ::
  "'s rd_fun \<Rightarrow> byte list \<Rightarrow> 's Reader \<Rightarrow> (byte list \<times> int \<times> goerr option \<times> 's Reader) go" where
  "Reader_Read rdf p b =
     (if p = [] then
        (if 0 < Reader_Buffered b then Inr (p, 0, None, b)
         else (case Reader_readErr b of (e, b1) \<Rightarrow> Inr (p, 0, e, b1)))
      else if r_r b = r_w b then
        (if r_err b \<noteq> None then (case Reader_readErr b of (e, b1) \<Rightarrow> Inr (p, 0, e, b1))
         else if length (r_buf b) \<le> length p then
           \<comment> \<open>large read, empty buffer: read directly into p\<close>
           (case rdf (r_rd b) (length p) of (s, d, n, e) \<Rightarrow>
              let b1 = b\<lparr>r_rd := s, r_err := e\<rparr>; p1 = overwrite p 0 d
              in if n < 0 then Inl NegativeRead
                 else if 0 < n then
                   (case gindex p1 (n - 1) of
                      Inl x \<Rightarrow> Inl x
                    | Inr c \<Rightarrow>
                        (case Reader_readErr (b1\<lparr>r_lastByte := uint c, r_lastRuneSize := -1\<rparr>) of
                           (e1, b2) \<Rightarrow> Inr (p1, n, e1, b2)))
                 else (case Reader_readErr b1 of (e1, b2) \<Rightarrow> Inr (p1, n, e1, b2)))
         else
           \<comment> \<open>one read into the buffer\<close>
           (case rdf (r_rd b) (length (r_buf b)) of (s, d, n, e) \<Rightarrow>
              let b1 = b\<lparr>r_r := 0, r_w := 0, r_rd := s, r_buf := overwrite (r_buf b) 0 d, r_err := e\<rparr>
              in if n < 0 then Inl NegativeRead
                 else if n = 0 then (case Reader_readErr b1 of (e1, b2) \<Rightarrow> Inr (p, 0, e1, b2))
                 else Reader_copy_out p (b1\<lparr>r_w := nat n\<rparr>)))
      else Reader_copy_out p b)"

function Reader_readByte_loop ::
  "'s rd_fun \<Rightarrow> 's Reader \<Rightarrow> (byte \<times> goerr option \<times> 's Reader) go" where
  "Reader_readByte_loop rdf b =
     (if r_r b = r_w b then
        (if r_err b \<noteq> None then (case Reader_readErr b of (e, b1) \<Rightarrow> Inr (0, e, b1))
         else (case Reader_fill rdf b of Inl p \<Rightarrow> Inl p | Inr b1 \<Rightarrow> Reader_readByte_loop rdf b1))
      else
        (case gindex (r_buf b) (int (r_r b)) of
           Inl p \<Rightarrow> Inl p
         | Inr c \<Rightarrow> Inr (c, None, b\<lparr>r_r := r_r b + 1, r_lastByte := uint c\<rparr>)))"
  by pat_completeness auto
termination
  by (relation "measure (\<lambda>(rdf, b). fill_measure b)") (auto intro: fill_measure_less)

definition Reader_ReadByte ::
  "'s rd_fun \<Rightarrow> 's Reader \<Rightarrow> (byte \<times> goerr option \<times> 's Reader) go" where
  "Reader_ReadByte rdf b = Reader_readByte_loop rdf (b\<lparr>r_lastRuneSize := -1\<rparr>)"

definition Reader_UnreadByte :: "'s Reader \<Rightarrow> (goerr option \<times> 's Reader) go" where
  "Reader_UnreadByte b =
     (if r_lastByte b < 0 \<or> r_r b = 0 \<and> 0 < r_w b then Inr (Some ErrInvalidUnreadByte, b)
      else
        let b1 = (if 0 < r_r b then b\<lparr>r_r := r_r b - 1\<rparr> else b\<lparr>r_w := 1\<rparr>)
        in if r_r b1 < length (r_buf b1) then
             Inr (None, b1\<lparr>r_buf := (r_buf b1)[r_r b1 := word_of_int (r_lastByte b1)],
                           r_lastByte := -1, r_lastRuneSize := -1\<rparr>)
           else Inl IndexRange)"

declare Reader_peek_loop.simps [simp del] Reader_discard_loop.simps [simp del]
  Reader_readByte_loop.simps [simp del]

end
