(* ===== verification/Utf8.thy ===== *)
theory Utf8
  imports Prelude
begin

section \<open>unicode/utf8\<close>

text \<open>
  The part of Go's standard library the buffered reader and writer use: \<open>FullRune\<close>,
  \<open>DecodeRune\<close> and \<open>EncodeRune\<close>. A rune is a code point as a \<open>nat\<close>; the shifts and masks of
  the library are written as division and remainder.
\<close>

definition RuneError :: nat where "RuneError = 65533"
definition RuneSelf :: nat where "RuneSelf = 128"
definition MaxRune :: nat where "MaxRune = 1114111"
definition UTFMax :: nat where "UTFMax = 4"

definition is_surrogate :: "nat \<Rightarrow> bool" where
  "is_surrogate c \<longleftrightarrow> 55296 \<le> c \<and> c \<le> 57343"

text \<open>The code points that have an encoding.\<close>

definition valid_rune :: "nat \<Rightarrow> bool" where
  "valid_rune c \<longleftrightarrow> c \<le> MaxRune \<and> \<not> is_surrogate c"

text \<open>
  The table \<open>first\<close>: the length of the sequence a byte starts (1 for ASCII and for a byte that
  starts none) and the range its second byte must be in.
\<close>

definition first_size :: "nat \<Rightarrow> nat" where
  "first_size x =
     (if x < 194 then 1 else if x < 224 then 2 else if x < 240 then 3 else if x < 245 then 4 else 1)"

definition accept_range :: "nat \<Rightarrow> nat \<Rightarrow> bool" where
  "accept_range x y \<longleftrightarrow>
     (if x = 224 then 160 \<le> y \<and> y \<le> 191
      else if x = 237 then 128 \<le> y \<and> y \<le> 159
      else if x = 240 then 144 \<le> y \<and> y \<le> 191
      else if x = 244 then 128 \<le> y \<and> y \<le> 143
      else 128 \<le> y \<and> y \<le> 191)"

definition cont_byte :: "nat \<Rightarrow> bool" where
  "cont_byte y \<longleftrightarrow> 128 \<le> y \<and> y \<le> 191"

definition FullRune :: "byte list \<Rightarrow> bool" where
  "FullRune p =
     (case map unat p of
        [] \<Rightarrow> False
      | x # ys \<Rightarrow>
          if first_size x \<le> length p then True
          else (case ys of
                  [] \<Rightarrow> False
                | y # zs \<Rightarrow> \<not> accept_range x y \<or> (case zs of [] \<Rightarrow> False | z # _ \<Rightarrow> \<not> cont_byte z)))"

definition decode_units :: "nat list \<Rightarrow> nat \<times> nat" where
  "decode_units p =
     (case p of
        [] \<Rightarrow> (RuneError, 0)
      | x # ys \<Rightarrow>
          if x < RuneSelf then (x, 1)
          else if first_size x = 1 \<or> length p < first_size x then (RuneError, 1)
          else if \<not> accept_range x (ys ! 0) then (RuneError, 1)
          else if first_size x = 2 then ((x mod 32) * 64 + ys ! 0 mod 64, 2)
          else if \<not> cont_byte (ys ! 1) then (RuneError, 1)
          else if first_size x = 3 then
            ((x mod 16) * 4096 + (ys ! 0 mod 64) * 64 + ys ! 1 mod 64, 3)
          else if \<not> cont_byte (ys ! 2) then (RuneError, 1)
          else
            ((x mod 8) * 262144 + (ys ! 0 mod 64) * 4096 + (ys ! 1 mod 64) * 64 + ys ! 2 mod 64, 4))"

definition DecodeRune :: "byte list \<Rightarrow> nat \<times> nat" where
  "DecodeRune p = decode_units (map unat p)"

text \<open>
  The bytes \<open>EncodeRune\<close> stores for the value \<open>uint32(r)\<close>; a surrogate or a value above
  \<open>MaxRune\<close> (a negative rune is one, as \<open>uint32\<close>) is stored as \<open>RuneError\<close>.
\<close>

definition encode_units :: "nat \<Rightarrow> nat list" where
  "encode_units i =
     (if i \<le> 127 then [i]
      else if i \<le> 2047 then [192 + i div 64, 128 + i mod 64]
      else
        let c = (if MaxRune < i \<or> is_surrogate i then RuneError else i)
        in if c \<le> 65535 then [224 + c div 4096, 128 + (c div 64) mod 64, 128 + c mod 64]
           else [240 + c div 262144, 128 + (c div 4096) mod 64, 128 + (c div 64) mod 64,
                 128 + c mod 64])"

definition EncodeRune :: "nat \<Rightarrow> byte list" where
  "EncodeRune i = map of_nat (encode_units i)"

subsection \<open>Bounds and the round trip\<close>

lemma first_size_values: "first_size x \<in> {1, 2, 3, 4}"
  by (simp add: first_size_def)

lemma decode_units_size:
  "p \<noteq> [] \<Longrightarrow> decode_units p = (c, n) \<Longrightarrow> 1 \<le> n \<and> n \<le> length p \<and> n \<le> UTFMax"
  using first_size_values[of "hd p"]
  by (cases p) (auto simp: decode_units_def UTFMax_def Suc_le_eq split: if_splits)

lemma DecodeRune_size:
  "p \<noteq> [] \<Longrightarrow> DecodeRune p = (c, n) \<Longrightarrow> 1 \<le> n \<and> n \<le> length p \<and> n \<le> UTFMax"
  using decode_units_size[of "map unat p" c n] by (simp add: DecodeRune_def)

lemma encode_units_bytes: "x \<in> set (encode_units i) \<Longrightarrow> x < 256"
  by (auto simp: encode_units_def Let_def is_surrogate_def MaxRune_def RuneError_def split: if_splits)

lemma unat_EncodeRune: "map unat (EncodeRune i) = encode_units i"
proof -
  have "unat (of_nat x :: byte) = x" if "x \<in> set (encode_units i)" for x
    using encode_units_bytes[OF that] by (simp add: unat_of_nat)
  then show ?thesis by (simp add: EncodeRune_def map_idI)
qed

lemma length_EncodeRune: "1 \<le> length (EncodeRune i) \<and> length (EncodeRune i) \<le> UTFMax"
  by (auto simp: EncodeRune_def encode_units_def Let_def UTFMax_def)

text \<open>The sequences of two, three and four bytes, each as an equation of quotients and remainders.\<close>

lemma lead_mod:
  fixes q :: nat
  shows "q < m \<Longrightarrow> (k * m + q) mod m = q"
  by simp

lemma cont_mod:
  fixes y :: nat
  shows "(128 + y mod 64) mod 64 = y mod 64"
  using lead_mod[of "y mod 64" 64 2] by simp

lemma split_units:
  fixes c :: nat
  shows "c div 4096 * 4096 + c div 64 mod 64 * 64 + c mod 64 = c"
    and "c div 262144 * 262144 + c div 4096 mod 64 * 4096 + c div 64 mod 64 * 64 + c mod 64 = c"
proof -
  have d: "c div 64 div 64 = c div 4096" "c div 4096 div 64 = c div 262144"
    by (simp_all flip: div_mult2_eq)
  have "c = c div 64 * 64 + c mod 64"
    and "c div 64 = c div 64 div 64 * 64 + c div 64 mod 64"
    and q: "c div 4096 = c div 4096 div 64 * 64 + c div 4096 mod 64"
    by (simp_all only: div_mult_mod_eq)
  then show e: "c div 4096 * 4096 + c div 64 mod 64 * 64 + c mod 64 = c"
    unfolding d by linarith
  show "c div 262144 * 262144 + c div 4096 mod 64 * 4096 + c div 64 mod 64 * 64 + c mod 64 = c"
    using e q unfolding d by linarith
qed

lemma decode_encode_2:
  assumes "128 \<le> c" and "c < 2048"
  shows "decode_units ([192 + c div 64, 128 + c mod 64] @ rest) = (c, 2)"
proof -
  have q: "2 \<le> c div 64" "c div 64 < 32" using assms by auto
  then have "(192 + c div 64) mod 32 = c div 64" using lead_mod[of "c div 64" 32 6] by simp
  moreover have "accept_range (192 + c div 64) (128 + c mod 64)"
    using q by (auto simp: accept_range_def)
  ultimately show ?thesis using q by (simp add: decode_units_def RuneSelf_def first_size_def cont_mod)
qed

lemma decode_encode_3:
  assumes "2048 \<le> c" and "c < 65536" and "\<not> is_surrogate c"
  shows "decode_units ([224 + c div 4096, 128 + (c div 64) mod 64, 128 + c mod 64] @ rest) = (c, 3)"
proof -
  have q: "c div 4096 < 16" using assms by auto
  then have m: "(224 + c div 4096) mod 16 = c div 4096"
    using lead_mod[of "c div 4096" 16 14] by simp
  have "32 \<le> c div 64 mod 64" if "c div 4096 = 0"
    using split_units(1)[of c] assms(1) that mod_less_divisor[of 64 c] by linarith
  moreover have "c div 64 mod 64 < 32" if "c div 4096 = 13"
    using split_units(1)[of c] assms(3) that mod_less_divisor[of 64 c] mod_less_divisor[of 64 "c div 64"]
    unfolding is_surrogate_def by linarith
  ultimately have acc: "accept_range (224 + c div 4096) (128 + (c div 64) mod 64)"
    using q mod_less_divisor[of 64 "c div 64"] unfolding accept_range_def by auto
  have "cont_byte (128 + c mod 64)" by (simp add: cont_byte_def)
  then show ?thesis
    using q acc by (simp add: decode_units_def RuneSelf_def first_size_def cont_mod m split_units)
qed

lemma decode_encode_4:
  assumes "65536 \<le> c" and "c \<le> MaxRune"
  shows "decode_units ([240 + c div 262144, 128 + (c div 4096) mod 64, 128 + (c div 64) mod 64,
           128 + c mod 64] @ rest) = (c, 4)"
proof -
  have q: "c div 262144 < 5" using assms by (auto simp: MaxRune_def)
  then have m: "(240 + c div 262144) mod 8 = c div 262144"
    using lead_mod[of "c div 262144" 8 30] by simp
  note lt = mod_less_divisor[of 64 c] mod_less_divisor[of 64 "c div 64"] mod_less_divisor[of 64 "c div 4096"]
  have "16 \<le> c div 4096 mod 64" if "c div 262144 = 0"
    using split_units(2)[of c] assms(1) that lt by linarith
  moreover have "c div 4096 mod 64 < 16" if "c div 262144 = 4"
    using split_units(2)[of c] assms(2) that lt unfolding MaxRune_def by linarith
  ultimately have acc: "accept_range (240 + c div 262144) (128 + (c div 4096) mod 64)"
    using q lt unfolding accept_range_def by auto
  have "cont_byte (128 + c mod 64)" "cont_byte (128 + (c div 64) mod 64)"
    by (simp_all add: cont_byte_def)
  then show ?thesis
    using q acc by (simp add: decode_units_def RuneSelf_def first_size_def cont_mod m split_units)
qed

lemma DecodeRune_EncodeRune:
  assumes "valid_rune c"
  shows "DecodeRune (EncodeRune c @ rest) = (c, length (EncodeRune c))"
proof -
  have m: "DecodeRune (EncodeRune c @ rest) = decode_units (encode_units c @ map unat rest)"
    by (simp add: DecodeRune_def unat_EncodeRune)
  have l: "length (EncodeRune c) = length (encode_units c)"
    by (simp add: EncodeRune_def)
  have v: "c \<le> MaxRune" "\<not> is_surrogate c" using assms by (auto simp: valid_rune_def)
  consider "c < 128" | "128 \<le> c" "c < 2048" | "2048 \<le> c" "c < 65536" | "65536 \<le> c" by linarith
  then show ?thesis
  proof cases
    case 1
    then have "encode_units c = [c]" by (simp add: encode_units_def)
    with 1 show ?thesis unfolding m l by (simp add: decode_units_def RuneSelf_def)
  next
    case 2
    then have e: "encode_units c = [192 + c div 64, 128 + c mod 64]" by (simp add: encode_units_def)
    show ?thesis unfolding m l e decode_encode_2[OF 2] by simp
  next
    case 3
    then have e: "encode_units c = [224 + c div 4096, 128 + (c div 64) mod 64, 128 + c mod 64]"
      using v by (simp add: encode_units_def)
    show ?thesis unfolding m l e decode_encode_3[OF 3 v(2)] by simp
  next
    case 4
    then have e: "encode_units c = [240 + c div 262144, 128 + (c div 4096) mod 64,
        128 + (c div 64) mod 64, 128 + c mod 64]"
      using v by (simp add: encode_units_def)
    show ?thesis unfolding m l e decode_encode_4[OF 4 v(1)] by simp
  qed
qed

end
