(* ===== verification/Bufio_Text.thy ===== *)
theory Bufio_Text
  imports Bufio_Reader Utf8
begin

section \<open>bufiox.Reader: runes, lines and WriteTo\<close>

text \<open>
  The operations of \<open>bufio.go\<close> that interpret the bytes: \<open>ReadRune\<close>, \<open>UnreadRune\<close>,
  \<open>ReadSlice\<close>, \<open>ReadLine\<close>, \<open>ReadBytes\<close>, \<open>ReadString\<close> and \<open>WriteTo\<close>. \<open>collectFragments\<close> and
  \<open>WriteTo\<close> run as long as their source delivers, so they are \<open>partial_function\<close>s: \<open>None\<close> is
  the call that never returns.
\<close>

subsection \<open>Runes\<close>

text \<open>The loop condition evaluates \<open>utf8.FullRune(b.buf[b.r:b.w])\<close> only when fewer than
  \<open>UTFMax\<close> bytes are buffered.\<close>

function Reader_rune_loop :: "'s rd_fun \<Rightarrow> 's Reader \<Rightarrow> 's Reader go" where
  "Reader_rune_loop rdf b =
     (if r_w b < r_r b + UTFMax then
        (case gslice (r_buf b) (int (r_r b)) (int (r_w b)) of
           Inl p \<Rightarrow> Inl p
         | Inr xs \<Rightarrow>
             if \<not> FullRune xs \<and> r_err b = None \<and> Reader_Buffered b < int (length (r_buf b))
             then (case Reader_fill rdf b of Inl p \<Rightarrow> Inl p | Inr b' \<Rightarrow> Reader_rune_loop rdf b')
             else Inr b)
      else Inr b)"
  by pat_completeness auto
termination
  by (relation "measure (\<lambda>(rdf, b). fill_measure b)") (auto intro: fill_measure_less)

definition Reader_ReadRune ::
  "'s rd_fun \<Rightarrow> 's Reader \<Rightarrow> (nat \<times> nat \<times> goerr option \<times> 's Reader) go" where
  "Reader_ReadRune rdf b =
     (case Reader_rune_loop rdf b of
        Inl p \<Rightarrow> Inl p
      | Inr b0 \<Rightarrow>
          let b1 = b0\<lparr>r_lastRuneSize := -1\<rparr>
          in if r_r b1 = r_w b1 then (case Reader_readErr b1 of (e, b2) \<Rightarrow> Inr (0, 0, e, b2))
             else
               (case gindex (r_buf b1) (int (r_r b1)) of
                  Inl p \<Rightarrow> Inl p
                | Inr c \<Rightarrow>
                    (case (if RuneSelf \<le> unat c then
                             (case gslice (r_buf b1) (int (r_r b1)) (int (r_w b1)) of
                                Inl p \<Rightarrow> Inl p
                              | Inr xs \<Rightarrow> Inr (DecodeRune xs))
                           else Inr (unat c, 1)) of
                       Inl p \<Rightarrow> Inl p
                     | Inr (r, sz) \<Rightarrow>
                         let b2 = b1\<lparr>r_r := r_r b1 + sz\<rparr>
                         in (case gindex (r_buf b2) (int (r_r b2) - 1) of
                               Inl p \<Rightarrow> Inl p
                             | Inr l \<Rightarrow>
                                 Inr (r, sz, None,
                                      b2\<lparr>r_lastByte := uint l, r_lastRuneSize := int sz\<rparr>)))))"

definition Reader_UnreadRune :: "'s Reader \<Rightarrow> goerr option \<times> 's Reader" where
  "Reader_UnreadRune b =
     (if r_lastRuneSize b < 0 \<or> int (r_r b) < r_lastRuneSize b then (Some ErrInvalidUnreadRune, b)
      else (None, b\<lparr>r_r := nat (int (r_r b) - r_lastRuneSize b),
                     r_lastByte := -1, r_lastRuneSize := -1\<rparr>))"

subsection \<open>ReadSlice and ReadLine\<close>

text \<open>\<open>s\<close> is the search start: the bytes before it have been scanned.\<close>

function Reader_readSlice_loop ::
  "'s rd_fun \<Rightarrow> byte \<Rightarrow> nat \<Rightarrow> 's Reader \<Rightarrow> (byte list \<times> goerr option \<times> 's Reader) go" where
  "Reader_readSlice_loop rdf delim s b =
     (case gslice (r_buf b) (int (r_r b + s)) (int (r_w b)) of
        Inl p \<Rightarrow> Inl p
      | Inr xs \<Rightarrow>
          (case indexByte xs delim of
             Some i0 \<Rightarrow>
               let i = i0 + s
               in (case gslice (r_buf b) (int (r_r b)) (int (r_r b + i + 1)) of
                     Inl p \<Rightarrow> Inl p
                   | Inr line \<Rightarrow> Inr (line, None, b\<lparr>r_r := r_r b + i + 1\<rparr>))
           | None \<Rightarrow>
               if r_err b \<noteq> None then
                 (case gslice (r_buf b) (int (r_r b)) (int (r_w b)) of
                    Inl p \<Rightarrow> Inl p
                  | Inr line \<Rightarrow>
                      (case Reader_readErr (b\<lparr>r_r := r_w b\<rparr>) of (e, b1) \<Rightarrow> Inr (line, e, b1)))
               else if int (length (r_buf b)) \<le> Reader_Buffered b then
                 Inr (r_buf b, Some ErrBufferFull, b\<lparr>r_r := r_w b\<rparr>)
               else
                 (case Reader_fill rdf b of
                    Inl p \<Rightarrow> Inl p
                  | Inr b' \<Rightarrow> Reader_readSlice_loop rdf delim (nat (Reader_Buffered b)) b')))"
  by pat_completeness auto
termination
  by (relation "measure (\<lambda>(rdf, delim, s, b). fill_measure b)") (auto intro: fill_measure_less)

definition Reader_ReadSlice ::
  "'s rd_fun \<Rightarrow> byte \<Rightarrow> 's Reader \<Rightarrow> (byte list \<times> goerr option \<times> 's Reader) go" where
  "Reader_ReadSlice rdf delim b =
     (case Reader_readSlice_loop rdf delim 0 b of
        Inl p \<Rightarrow> Inl p
      | Inr (line, e, b1) \<Rightarrow>
          Inr (line, e,
               if line = [] then b1
               else b1\<lparr>r_lastByte := uint (last line), r_lastRuneSize := -1\<rparr>))"

definition LF :: byte where "LF = 10"
definition CR :: byte where "CR = 13"

text \<open>A nil line is the empty list.\<close>

definition Reader_ReadLine ::
  "'s rd_fun \<Rightarrow> 's Reader \<Rightarrow> (byte list \<times> bool \<times> goerr option \<times> 's Reader) go" where
  "Reader_ReadLine rdf b =
     (case Reader_ReadSlice rdf LF b of
        Inl p \<Rightarrow> Inl p
      | Inr (line, err, b1) \<Rightarrow>
          if err = Some ErrBufferFull then
            (if line \<noteq> [] \<and> last line = CR then
               (if r_r b1 = 0 then Inl RewindPastStart
                else Inr (butlast line, True, None, b1\<lparr>r_r := r_r b1 - 1\<rparr>))
             else Inr (line, True, None, b1))
          else if line = [] then Inr ([], False, err, b1)
          else if last line = LF then
            (let dropn = (if 1 < length line \<and> line ! (length line - 2) = CR then 2 else 1)
             in Inr (take (length line - dropn) line, False, None, b1))
          else Inr (line, False, None, b1))"

subsection \<open>ReadBytes and ReadString\<close>

partial_function (option) Reader_collectFragments_loop ::
  "'s rd_fun \<Rightarrow> byte \<Rightarrow> byte list list \<Rightarrow> nat \<Rightarrow> 's Reader \<Rightarrow>
     (byte list list \<times> byte list \<times> nat \<times> goerr option \<times> 's Reader) go option" where
  "Reader_collectFragments_loop rdf delim full tot b =
     (case Reader_ReadSlice rdf delim b of
        Inl p \<Rightarrow> Some (Inl p)
      | Inr (frag, e, b1) \<Rightarrow>
          if e = None then Some (Inr (full, frag, tot + length frag, None, b1))
          else if e \<noteq> Some ErrBufferFull then Some (Inr (full, frag, tot + length frag, e, b1))
          else Reader_collectFragments_loop rdf delim (full @ [frag]) (tot + length frag) b1)"

definition Reader_collectFragments ::
  "'s rd_fun \<Rightarrow> byte \<Rightarrow> 's Reader \<Rightarrow>
     (byte list list \<times> byte list \<times> nat \<times> goerr option \<times> 's Reader) go option" where
  "Reader_collectFragments rdf delim b = Reader_collectFragments_loop rdf delim [] 0 b"

text \<open>\<open>for i := range full { n += copy(buf[n:], full[i]) }\<close>\<close>

fun copy_fulls :: "byte list \<Rightarrow> nat \<Rightarrow> byte list list \<Rightarrow> byte list \<times> nat" where
  "copy_fulls buf n [] = (buf, n)"
| "copy_fulls buf n (x # xs) =
     copy_fulls (overwrite buf n x) (n + min (length buf - n) (length x)) xs"

definition Reader_ReadBytes ::
  "'s rd_fun \<Rightarrow> byte \<Rightarrow> 's Reader \<Rightarrow> (byte list \<times> goerr option \<times> 's Reader) go option" where
  "Reader_ReadBytes rdf delim b =
     map_option
       (\<lambda>r. case r of
              Inl p \<Rightarrow> Inl p
            | Inr (full, frag, n, err, b1) \<Rightarrow>
                (case copy_fulls (replicate n 0) 0 full of
                   (buf, m) \<Rightarrow> Inr (overwrite buf m frag, err, b1)))
       (Reader_collectFragments rdf delim b)"

definition Reader_ReadString ::
  "'s rd_fun \<Rightarrow> byte \<Rightarrow> 's Reader \<Rightarrow> (byte list \<times> goerr option \<times> 's Reader) go option" where
  "Reader_ReadString rdf delim b =
     map_option
       (\<lambda>r. case r of
              Inl p \<Rightarrow> Inl p
            | Inr (full, frag, n, err, b1) \<Rightarrow> Inr (foldl (@) [] full @ frag, err, b1))
       (Reader_collectFragments rdf delim b)"

subsection \<open>WriteTo\<close>

definition Reader_writeBuf ::
  "'w wr_fun \<Rightarrow> 's Reader \<Rightarrow> 'w \<Rightarrow> (int \<times> goerr option \<times> 's Reader \<times> 'w) go" where
  "Reader_writeBuf wrf b w =
     (case gslice (r_buf b) (int (r_r b)) (int (r_w b)) of
        Inl p \<Rightarrow> Inl p
      | Inr xs \<Rightarrow>
          (case wrf w xs of (w', n, e) \<Rightarrow>
             if n < 0 then Inl NegativeWrite
             else Inr (n, e, b\<lparr>r_r := r_r b + nat n\<rparr>, w')))"

partial_function (option) Reader_writeTo_loop ::
  "'s rd_fun \<Rightarrow> 'w wr_fun \<Rightarrow> int \<Rightarrow> 's Reader \<Rightarrow> 'w \<Rightarrow>
     (int \<times> goerr option \<times> 's Reader \<times> 'w) go option" where
  "Reader_writeTo_loop rdf wrf n b w =
     (if r_r b < r_w b then
        (case Reader_writeBuf wrf b w of
           Inl p \<Rightarrow> Some (Inl p)
         | Inr (m, e, b1, w1) \<Rightarrow>
             if e \<noteq> None then Some (Inr (n + m, e, b1, w1))
             else (case Reader_fill rdf b1 of
                     Inl p \<Rightarrow> Some (Inl p)
                   | Inr b2 \<Rightarrow> Reader_writeTo_loop rdf wrf (n + m) b2 w1))
      else
        (case Reader_readErr (if r_err b = Some EOF then b\<lparr>r_err := None\<rparr> else b) of
           (e, b1) \<Rightarrow> Some (Inr (n, e, b1, w))))"

text \<open>
  \<open>rd_wt\<close> is the source's \<open>io.WriterTo\<close> and \<open>w_rf\<close> the writer's \<open>io.ReaderFrom\<close>, where they
  have one.
\<close>

definition Reader_WriteTo ::
  "'s rd_fun \<Rightarrow> 'w wr_fun \<Rightarrow> ('s \<Rightarrow> 'w \<Rightarrow> 's \<times> 'w \<times> int \<times> goerr option) option \<Rightarrow>
     ('w \<Rightarrow> 's \<Rightarrow> 's \<times> 'w \<times> int \<times> goerr option) option \<Rightarrow> 's Reader \<Rightarrow> 'w \<Rightarrow>
     (int \<times> goerr option \<times> 's Reader \<times> 'w) go option" where
  "Reader_WriteTo rdf wrf rd_wt w_rf b w =
     (case Reader_writeBuf wrf (b\<lparr>r_lastByte := -1, r_lastRuneSize := -1\<rparr>) w of
        Inl p \<Rightarrow> Some (Inl p)
      | Inr (n, e, b1, w1) \<Rightarrow>
          if e \<noteq> None then Some (Inr (n, e, b1, w1))
          else
            (case rd_wt of
               Some f \<Rightarrow>
                 (case f (r_rd b1) w1 of
                    (s, w2, m, e2) \<Rightarrow> Some (Inr (n + m, e2, b1\<lparr>r_rd := s\<rparr>, w2)))
             | None \<Rightarrow>
                 (case w_rf of
                    Some f \<Rightarrow>
                      (case f w1 (r_rd b1) of
                         (s, w2, m, e2) \<Rightarrow> Some (Inr (n + m, e2, b1\<lparr>r_rd := s\<rparr>, w2)))
                  | None \<Rightarrow>
                      if Reader_Buffered b1 < int (length (r_buf b1)) then
                        (case Reader_fill rdf b1 of
                           Inl p \<Rightarrow> Some (Inl p)
                         | Inr b2 \<Rightarrow> Reader_writeTo_loop rdf wrf n b2 w1)
                      else Reader_writeTo_loop rdf wrf n b1 w1)))"

declare Reader_rune_loop.simps [simp del] Reader_readSlice_loop.simps [simp del]

end
