(* ===== verification/Bufio_Reader_Spec.thy ===== *)
theory Bufio_Reader_Spec
  imports Bufio_Text
begin

section \<open>What the buffered reader promises\<close>

text \<open>
  The abstract view of a reader is the byte stream it still has to deliver: the unread part of
  the buffer followed by what is pending in the source (\<open>Reader_contents\<close>). Every operation
  removes a prefix of that stream, puts a byte back or leaves it alone, whatever the buffer
  size and however the source cuts the stream into pieces. The lemmas are proved once in the
  locales of \<open>Io\<close>, for any source that keeps the contract of \<open>io.Reader\<close>.
\<close>

definition Reader_wf :: "'s Reader \<Rightarrow> bool" where
  "Reader_wf b \<longleftrightarrow>
     r_r b \<le> r_w b \<and> r_w b \<le> length (r_buf b) \<and> r_buf b \<noteq> [] \<and>
     -1 \<le> r_lastByte b \<and> r_lastByte b < 256 \<and> -1 \<le> r_lastRuneSize b"

definition Reader_inv :: "('s \<Rightarrow> bool) \<Rightarrow> 's Reader \<Rightarrow> bool" where
  "Reader_inv ok b \<longleftrightarrow> Reader_wf b \<and> ok (r_rd b)"

definition Reader_unread :: "'s Reader \<Rightarrow> byte list" where
  "Reader_unread b = take (r_w b - r_r b) (drop (r_r b) (r_buf b))"

definition Reader_contents :: "('s \<Rightarrow> byte list) \<Rightarrow> 's Reader \<Rightarrow> byte list" where
  "Reader_contents pending b = Reader_unread b @ pending (r_rd b)"

text \<open>The extra invariant over a source that ends: a recorded error is the end of the stream, or
  the give-up of \<open>fill\<close>, which such a source never causes.\<close>

definition Reader_inv_eof :: "('s \<Rightarrow> bool) \<Rightarrow> ('s \<Rightarrow> byte list) \<Rightarrow> 's Reader \<Rightarrow> bool" where
  "Reader_inv_eof ok pending b \<longleftrightarrow>
     Reader_inv ok b \<and> (r_err b \<noteq> None \<longrightarrow> r_err b = Some EOF \<and> pending (r_rd b) = [])"

lemma Reader_inv_wf: "Reader_inv ok b \<Longrightarrow> Reader_wf b"
  by (simp add: Reader_inv_def)

lemma Reader_inv_eof_inv: "Reader_inv_eof ok pending b \<Longrightarrow> Reader_inv ok b"
  by (simp add: Reader_inv_eof_def)

lemma length_Reader_unread:
  "Reader_wf b \<Longrightarrow> length (Reader_unread b) = r_w b - r_r b"
  by (auto simp: Reader_wf_def Reader_unread_def min_def)

lemma Reader_unread_empty: "Reader_wf b \<Longrightarrow> Reader_unread b = [] \<longleftrightarrow> r_r b = r_w b"
  using length_Reader_unread[of b] by (auto simp: Reader_wf_def)

lemma Reader_unread_Cons:
  assumes "r_r b < r_w b" and "r_w b \<le> length (r_buf b)"
  shows "Reader_unread b =
    r_buf b ! r_r b # take (r_w b - Suc (r_r b)) (drop (Suc (r_r b)) (r_buf b))"
  using assms Cons_nth_drop_Suc[of "r_r b" "r_buf b", symmetric]
  by (simp add: Reader_unread_def take_Cons' Suc_le_eq)

lemma Reader_unread_le: "Reader_wf b \<Longrightarrow> length (Reader_unread b) \<le> length (r_buf b)"
  by (simp add: Reader_unread_def)

lemma Reader_Buffered_unread:
  "Reader_wf b \<Longrightarrow> Reader_Buffered b = int (length (Reader_unread b))"
  by (auto simp: Reader_wf_def Reader_Buffered_def Reader_unread_def min_def)

lemma Reader_unread_gslice [simp]:
  "Reader_wf b \<Longrightarrow> gslice (r_buf b) (int (r_r b)) (int (r_w b)) = Inr (Reader_unread b)"
  by (simp add: Reader_wf_def Reader_unread_def gslice_nat)

lemma take_unread:
  "Reader_wf b \<Longrightarrow> n \<le> r_w b - r_r b \<Longrightarrow>
     take n (drop (r_r b) (r_buf b)) = take n (Reader_unread b)"
  by (simp add: Reader_unread_def)

lemma gslice_unread:
  assumes "Reader_wf b" and "0 \<le> n" and "n \<le> Reader_Buffered b"
  shows "gslice (r_buf b) (int (r_r b)) (int (r_r b) + n) = Inr (take (nat n) (Reader_unread b))"
  using assms by (auto simp: gslice_def Reader_wf_def Reader_Buffered_def Reader_unread_def)

text \<open>Advancing \<open>r\<close> drops a prefix of the unread bytes; the read positions and marks do not
  matter to what is unread.\<close>

lemma Reader_unread_advance:
  "Reader_unread (b\<lparr>r_r := r_r b + n\<rparr>) = drop n (Reader_unread b)"
  by (simp add: Reader_unread_def drop_take add.commute)

lemma Reader_contents_advance:
  "n \<le> length (Reader_unread b) \<Longrightarrow>
     Reader_contents pending b =
       take n (Reader_unread b) @ Reader_contents pending (b\<lparr>r_r := r_r b + n\<rparr>)"
  by (simp add: Reader_contents_def Reader_unread_advance)

lemma Reader_contents_drop:
  assumes "n \<le> length (Reader_unread b)"
  shows "Reader_contents pending (b\<lparr>r_r := r_r b + n\<rparr>) = drop n (Reader_contents pending b)"
    and "n \<le> length (Reader_contents pending b)"
  using assms by (simp_all add: Reader_contents_def Reader_unread_advance)

lemma Reader_unread_marks [simp]:
  "Reader_unread (b\<lparr>r_lastByte := x\<rparr>) = Reader_unread b"
  "Reader_unread (b\<lparr>r_lastRuneSize := y\<rparr>) = Reader_unread b"
  "Reader_unread (b\<lparr>r_err := e\<rparr>) = Reader_unread b"
  "Reader_unread (b\<lparr>r_rd := s\<rparr>) = Reader_unread b"
  by (simp_all add: Reader_unread_def)

lemma Reader_contents_marks [simp]:
  "Reader_contents pending (b\<lparr>r_lastByte := x\<rparr>) = Reader_contents pending b"
  "Reader_contents pending (b\<lparr>r_lastRuneSize := y\<rparr>) = Reader_contents pending b"
  "Reader_contents pending (b\<lparr>r_err := e\<rparr>) = Reader_contents pending b"
  by (simp_all add: Reader_contents_def)

lemma Reader_slide_wf:
  assumes "Reader_wf b"
  obtains b' where "Reader_slide b = Inr b'" "Reader_wf b'" "Reader_unread b' = Reader_unread b"
    "r_rd b' = r_rd b" "r_err b' = r_err b" "r_r b' = 0"
proof -
  have "Reader_slide b = Inr (if 0 < r_r b
      then b\<lparr>r_buf := overwrite (r_buf b) 0 (Reader_unread b), r_w := r_w b - r_r b, r_r := 0\<rparr>
      else b)" (is "_ = Inr ?b")
    using assms by (simp add: Reader_slide_def)
  moreover have "Reader_wf ?b"
    using assms by (auto simp: Reader_wf_def simp flip: length_greater_0_conv)
  moreover have "Reader_unread ?b = Reader_unread b"
  proof (cases "0 < r_r b")
    case True
    have "length (Reader_unread b) \<le> length (r_buf b)"
      using assms by (simp add: Reader_wf_def Reader_unread_def)
    then show ?thesis
      using True assms take_overwrite[of 0 "Reader_unread b" "r_buf b"] length_Reader_unread[of b]
      by (simp add: Reader_unread_def[of "_\<lparr>r_buf := _, r_w := _, r_r := _\<rparr>"])
  qed simp
  ultimately show ?thesis using that[of ?b] assms by (auto simp: Reader_slide_def)
qed

subsection \<open>fill under the contract of the source\<close>

lemma Reader_unread_append:
  assumes "r_r b \<le> r_w b" and "r_w b + length d \<le> length (r_buf b)"
  shows "Reader_unread (b\<lparr>r_rd := s, r_buf := overwrite (r_buf b) (r_w b) d, r_w := r_w b + length d\<rparr>)
    = Reader_unread b @ d"
  using assms drop_take_overwrite[of "r_r b" "r_w b" d "r_buf b"] by (simp add: Reader_unread_def)

context io_reader
begin

lemma fill_loop_ok:
  assumes "Reader_inv ok b" and "r_w b < length (r_buf b)"
  shows "\<exists>b'. Reader_fill_loop rdf i b = Inr b' \<and> Reader_inv ok b' \<and>
    Reader_contents pending b' = Reader_contents pending b"
  using assms
proof (induction i arbitrary: b)
  case 0
  then show ?case by (simp add: Reader_inv_def Reader_wf_def)
next
  case (Suc i)
  obtain s d n e where rd: "rdf (r_rd b) (length (r_buf b) - r_w b) = (s, d, n, e)"
    by (metis prod_cases4)
  let ?b1 = "b\<lparr>r_rd := s, r_buf := overwrite (r_buf b) (r_w b) d, r_w := r_w b + length d\<rparr>"
  have c: "ok s" "n = int (length d)" "length d \<le> length (r_buf b) - r_w b"
    "pending (r_rd b) = d @ pending s"
    using rd_contract[OF _ rd] Suc.prems(1) by (auto simp: Reader_inv_def)
  have inv1: "Reader_inv ok ?b1"
    using Suc.prems c by (auto simp: Reader_inv_def Reader_wf_def simp flip: length_greater_0_conv)
  have cont1: "Reader_contents pending ?b1 = Reader_contents pending b"
    using Suc.prems c Reader_unread_append[of b d s]
    by (simp add: Reader_contents_def Reader_inv_def Reader_wf_def)
  have err: "Reader_inv ok (?b1\<lparr>r_err := e\<rparr>)"
    "Reader_contents pending (?b1\<lparr>r_err := e\<rparr>) = Reader_contents pending b" for e
    using inv1 cont1 by (auto simp: Reader_inv_def Reader_wf_def)
  show ?case
  proof (cases e)
    case None
    show ?thesis
    proof (cases "n = 0")
      case True
      then have "r_w ?b1 < length (r_buf ?b1)" using Suc.prems c by simp
      from Suc.IH[OF inv1 this] show ?thesis
        using rd None True c cont1 by (simp add: Let_def)
    next
      case False
      then show ?thesis using rd None c inv1 cont1 by (simp add: Let_def)
    qed
  next
    case (Some x)
    then show ?thesis using rd c err[of "Some x"] by (simp add: Let_def)
  qed
qed

lemma fill_ok:
  assumes "Reader_inv ok b" and "Reader_Buffered b < int (length (r_buf b))"
  obtains b' where "Reader_fill rdf b = Inr b'" "Reader_inv ok b'"
    "Reader_contents pending b' = Reader_contents pending b"
proof -
  obtain b1 where b1: "Reader_slide b = Inr b1" "Reader_wf b1" "Reader_unread b1 = Reader_unread b"
      "r_rd b1 = r_rd b" "r_err b1 = r_err b" "r_r b1 = 0"
    using Reader_slide_wf[of b] assms(1) by (auto simp: Reader_inv_def)
  have room: "r_w b1 < length (r_buf b1)"
    using b1(1,6) assms(2) Reader_slide_frame[of b b1] by (auto simp: Reader_Buffered_def)
  have inv1: "Reader_inv ok b1" using assms(1) b1 by (simp add: Reader_inv_def)
  from fill_loop_ok[OF inv1 room, of maxConsecutiveEmptyReads] b1 room
  show ?thesis using that by (auto simp: Reader_fill_def Reader_contents_def)
qed

end

context io_reader_eof
begin

lemma fill_loop_eof:
  assumes "Reader_inv_eof ok pending b" and "r_w b < length (r_buf b)"
    and "Reader_fill_loop rdf (Suc i) b = Inr b'"
  shows "Reader_inv_eof ok pending b'"
proof -
  obtain s d n e where rd: "rdf (r_rd b) (length (r_buf b) - r_w b) = (s, d, n, e)"
    by (metis prod_cases4)
  have ok: "ok (r_rd b)" using assms(1) by (auto simp: Reader_inv_eof_def Reader_inv_def)
  have c: "n = int (length d)" "d \<noteq> [] \<or> e \<noteq> None" "pending (r_rd b) = d @ pending s"
    "e \<noteq> None \<longrightarrow> e = Some EOF \<and> pending s = []"
    using rd_contract[OF ok rd] rd_progress[OF ok _ rd] rd_eof[OF ok] rd assms(2) by (auto; blast)+
  have inv: "Reader_inv ok b'"
    using fill_loop_ok[of b "Suc i"] assms by (auto simp: Reader_inv_eof_def)
  have "r_err b' \<noteq> None \<longrightarrow> r_err b' = Some EOF \<and> pending (r_rd b') = []"
    using assms(1,3) rd c by (auto simp: Reader_inv_eof_def Let_def split: option.splits if_splits)
  with inv show ?thesis by (simp add: Reader_inv_eof_def)
qed

lemma fill_eof:
  assumes "Reader_inv_eof ok pending b" and "Reader_fill rdf b = Inr b'"
  shows "Reader_inv_eof ok pending b'"
proof -
  obtain b1 where b1: "Reader_slide b = Inr b1" "Reader_wf b1" "Reader_unread b1 = Reader_unread b"
      "r_rd b1 = r_rd b" "r_err b1 = r_err b" "r_r b1 = 0"
    using Reader_slide_wf[of b] assms(1) by (auto simp: Reader_inv_def Reader_inv_eof_def)
  have "Reader_inv_eof ok pending b1"
    using assms(1) b1 by (simp add: Reader_inv_def Reader_inv_eof_def)
  then show ?thesis
    using fill_loop_eof[of b1 99 b'] assms(2) b1(1)
    by (auto simp: Reader_fill_def maxConsecutiveEmptyReads_def split: if_splits)
qed

end

lemma inv_advance:
  assumes "Reader_inv ok b" and "n \<le> length (Reader_unread b)"
  shows "Reader_inv ok (b\<lparr>r_r := r_r b + n\<rparr>)"
  using assms length_Reader_unread[of b] by (auto simp: Reader_inv_def Reader_wf_def)

subsection \<open>Peek and Discard\<close>

context io_reader
begin

lemma peek_loop_ok:
  assumes "Reader_inv ok b"
  shows "\<exists>b'. Reader_peek_loop rdf n b = Inr b' \<and> Reader_inv ok b' \<and>
    Reader_contents pending b' = Reader_contents pending b \<and>
    length (r_buf b') = length (r_buf b) \<and>
    r_lastByte b' = r_lastByte b \<and> r_lastRuneSize b' = r_lastRuneSize b \<and>
    (Reader_Buffered b' < n \<longrightarrow> Reader_Buffered b' < int (length (r_buf b')) \<longrightarrow> r_err b' \<noteq> None)"
  using assms
proof (induction b rule: measure_induct_rule[of fill_measure])
  case (less b)
  show ?case
  proof (cases "Reader_Buffered b < n \<and> Reader_Buffered b < int (length (r_buf b)) \<and> r_err b = None")
    case True
    then obtain b1 where b1: "Reader_fill rdf b = Inr b1" "Reader_inv ok b1"
        "Reader_contents pending b1 = Reader_contents pending b"
      using fill_ok[OF less.prems] by blast
    show ?thesis
      using less.IH[OF fill_measure_less[OF b1(1)] b1(2)] b1 True Reader_fill_frame[OF b1(1)]
      by (simp add: Reader_peek_loop.simps[of rdf n b])
  next
    case False
    with less.prems show ?thesis by (auto simp: Reader_peek_loop.simps[of rdf n b])
  qed
qed

lemma peek_ok:
  assumes "Reader_inv ok b" and "0 \<le> n"
  shows "\<exists>xs e b'. Reader_Peek rdf n b = Inr (xs, e, b') \<and> Reader_inv ok b' \<and>
    Reader_contents pending b' = Reader_contents pending b \<and>
    xs = take (length xs) (Reader_contents pending b) \<and>
    (e = None \<longrightarrow> int (length xs) = n) \<and> (e \<noteq> None \<longrightarrow> int (length xs) < n) \<and>
    (Reader_Size b < n \<longrightarrow> e = Some ErrBufferFull) \<and>
    r_lastByte b' = -1 \<and> r_lastRuneSize b' = -1"
proof -
  let ?b0 = "b\<lparr>r_lastByte := -1, r_lastRuneSize := -1\<rparr>"
  have "Reader_inv ok ?b0" using assms(1) by (simp add: Reader_inv_def Reader_wf_def)
  then obtain b1 where b1: "Reader_peek_loop rdf n ?b0 = Inr b1" "Reader_inv ok b1"
      "Reader_contents pending b1 = Reader_contents pending b"
      "length (r_buf b1) = length (r_buf b)" "r_lastByte b1 = -1" "r_lastRuneSize b1 = -1"
      "Reader_Buffered b1 < n \<longrightarrow> Reader_Buffered b1 < int (length (r_buf b1)) \<longrightarrow> r_err b1 \<noteq> None"
    using peek_loop_ok[of ?b0 n] by auto
  have wf1: "Reader_wf b1" using b1(2) by (simp add: Reader_inv_def)
  have pre: "take k (Reader_contents pending b) = take k (Reader_unread b1)"
    if "k \<le> length (Reader_unread b1)" for k
    using that unfolding b1(3)[symmetric] by (simp add: Reader_contents_def)
  note len = Reader_Buffered_unread[OF wf1] Reader_unread_le[OF wf1]
  consider (big) "int (length (r_buf b1)) < n"
    | (short) "n \<le> int (length (r_buf b1))" "Reader_Buffered b1 < n"
    | (full) "n \<le> int (length (r_buf b1))" "n \<le> Reader_Buffered b1" by linarith
  then show ?thesis
  proof cases
    case big
    then show ?thesis
      using assms(2) b1 wf1 len pre[of "length (Reader_unread b1)"]
      by (auto simp: Reader_Peek_def Reader_Size_def)
  next
    case short
    have "Reader_inv ok (b1\<lparr>r_err := None\<rparr>)" using b1(2) by (simp add: Reader_inv_def Reader_wf_def)
    then show ?thesis
      using short assms(2) b1 len pre[of "length (Reader_unread b1)"]
        gslice_unread[OF wf1, of "Reader_Buffered b1"]
      by (auto simp: Reader_Peek_def Reader_readErr_def Reader_Size_def)
  next
    case full
    then show ?thesis
      using assms(2) b1 len pre[of "nat n"] gslice_unread[OF wf1 assms(2) full(2)]
      by (auto simp: Reader_Peek_def Reader_Size_def)
  qed
qed

lemma discard_loop_ok:
  assumes "Reader_inv ok b" and "0 < remain"
  shows "\<exists>remain' e b'. Reader_discard_loop rdf remain b = Inr (remain', e, b') \<and>
    Reader_inv ok b' \<and> 0 \<le> remain' \<and> remain' \<le> remain \<and> (e = None \<longleftrightarrow> remain' = 0) \<and>
    nat (remain - remain') \<le> length (Reader_contents pending b) \<and>
    Reader_contents pending b' = drop (nat (remain - remain')) (Reader_contents pending b)"
  using assms
proof (induction "nat remain" arbitrary: remain b rule: less_induct)
  case less
  obtain b1 where b1: "(if Reader_Buffered b = 0 then Reader_fill rdf b else Inr b) = Inr b1"
      "Reader_inv ok b1" "Reader_contents pending b1 = Reader_contents pending b"
      "r_err b1 = None \<longrightarrow> 0 < Reader_Buffered b1"
  proof (cases "Reader_Buffered b = 0")
    case True
    have "Reader_Buffered b < int (length (r_buf b))"
      using True less.prems(1) by (auto simp: Reader_inv_def Reader_wf_def)
    from fill_ok[OF less.prems(1) this] show ?thesis
      using that True Reader_fill_frame[of rdf b] by (metis less_le_not_le)
  next
    case False
    then show ?thesis
      using that[of b] less.prems(1) by (auto simp: Reader_inv_def Reader_wf_def Reader_Buffered_def)
  qed
  have wf1: "Reader_wf b1" using b1(2) by (simp add: Reader_inv_def)
  define k where "k = min (length (Reader_unread b1)) (nat remain)"
  define b2 where "b2 = b1\<lparr>r_r := r_r b1 + k\<rparr>"
  have skip: "min (Reader_Buffered b1) remain = int k"
    using less.prems(2) wf1 by (auto simp: k_def Reader_Buffered_unread min_def)
  have inv2: "Reader_inv ok b2" 
    unfolding b2_def k_def by (rule inv_advance[OF b1(2)]) simp
  have cont2: "Reader_contents pending b2 = drop k (Reader_contents pending b)"
    and klen: "k \<le> length (Reader_contents pending b)"
    using Reader_contents_drop[of k b1 pending] b1(3) by (simp_all add: b2_def k_def)
  have step: "Reader_discard_loop rdf remain b =
      (if remain - int k = 0 then Inr (0, None, b2)
       else if r_err b2 \<noteq> None then Inr (remain - int k, r_err b2, b2\<lparr>r_err := None\<rparr>)
       else Reader_discard_loop rdf (remain - int k) b2)"
    unfolding Reader_discard_loop.simps[of rdf remain b] b1(1)
    by (simp add: Let_def skip b2_def Reader_readErr_def nat_add_distrib)
  have kle: "int k \<le> remain" using less.prems(2) by (simp add: k_def)
  consider (all) "remain = int k" | (err) "remain \<noteq> int k" "r_err b2 \<noteq> None"
    | (more) "remain \<noteq> int k" "r_err b2 = None" by blast
  then show ?case
  proof cases
    case all
    then show ?thesis using step inv2 cont2 klen by simp
  next
    case err
    have "Reader_inv ok (b2\<lparr>r_err := None\<rparr>)" using inv2 by (simp add: Reader_inv_def Reader_wf_def)
    then show ?thesis using step err inv2 cont2 klen kle by simp
  next
    case more
    have "0 < k" using more b1(4) less.prems(2) wf1 by (auto simp: k_def b2_def Reader_Buffered_unread)
    with kle more less.prems(2) have "nat (remain - int k) < nat remain" "0 < remain - int k" by auto
    from less.hyps[OF this(1) inv2 this(2)] obtain rem' e b'
      where l: "Reader_discard_loop rdf (remain - int k) b2 = Inr (rem', e, b')"
        and inv': "Reader_inv ok b'" and rem': "0 \<le> rem'" "rem' \<le> remain - int k" "e = None \<longleftrightarrow> rem' = 0"
        and len': "nat (remain - int k - rem') \<le> length (Reader_contents pending b2)"
        and cont': "Reader_contents pending b' = drop (nat (remain - int k - rem')) (Reader_contents pending b2)"
      by blast
    have "nat (remain - rem') = nat (remain - int k - rem') + k" using rem' by linarith
    then show ?thesis
      using step more l inv' rem' len' cont' cont2 klen by (simp add: le_diff_conv2)
  qed
qed

lemma discard_ok:
  assumes "Reader_inv ok b" and "0 \<le> n"
  shows "\<exists>d e b'. Reader_Discard rdf n b = Inr (int d, e, b') \<and> Reader_inv ok b' \<and>
    int d \<le> n \<and> (e = None \<longleftrightarrow> int d = n) \<and> d \<le> length (Reader_contents pending b) \<and>
    Reader_contents pending b' = drop d (Reader_contents pending b)"
proof (cases "n = 0")
  case True
  then show ?thesis using assms(1) by (auto simp: Reader_Discard_def intro!: exI[of _ "0::nat"])
next
  case False
  let ?b0 = "b\<lparr>r_lastByte := -1, r_lastRuneSize := -1\<rparr>"
  have inv0: "Reader_inv ok ?b0" using assms(1) by (simp add: Reader_inv_def Reader_wf_def)
  from False assms(2) have "0 < n" by simp
  from discard_loop_ok[OF inv0 this] obtain remain e b'
    where l: "Reader_discard_loop rdf n ?b0 = Inr (remain, e, b')" "Reader_inv ok b'"
      "0 \<le> remain" "remain \<le> n" "e = None \<longleftrightarrow> remain = 0"
      "nat (n - remain) \<le> length (Reader_contents pending b)"
      "Reader_contents pending b' = drop (nat (n - remain)) (Reader_contents pending b)"
    by auto
  then show ?thesis
    using \<open>0 < n\<close> by (auto simp: Reader_Discard_def intro!: exI[of _ "nat (n - remain)"])
qed

end

text \<open>A \<open>Discard\<close> of at most \<open>Buffered()\<close> bytes does not touch the source, whatever the source is.\<close>

lemma discard_buffered:
  assumes "Reader_wf b" and "0 \<le> n" and "n \<le> Reader_Buffered b"
  shows "\<exists>b'. Reader_Discard rdf n b = Inr (n, None, b') \<and> r_rd b' = r_rd b \<and> r_buf b' = r_buf b \<and>
    Reader_unread b' = drop (nat n) (Reader_unread b)"
proof (cases "n = 0")
  case True
  then show ?thesis by (simp add: Reader_Discard_def)
next
  case False
  let ?b0 = "b\<lparr>r_lastByte := -1, r_lastRuneSize := -1\<rparr>"
  have "Reader_discard_loop rdf n ?b0 = Inr (0, None, ?b0\<lparr>r_r := r_r b + nat n\<rparr>)"
    using assms False unfolding Reader_discard_loop.simps[of rdf n ?b0]
    by (auto simp: Let_def Reader_Buffered_def min_def nat_add_distrib)
  then show ?thesis
    using assms False Reader_unread_advance[of ?b0 "nat n"] by (auto simp: Reader_Discard_def)
qed

subsection \<open>Read, ReadByte, UnreadByte\<close>

lemma overwrite_front:
  "length d \<le> length p \<Longrightarrow>
     take (length d) (overwrite p 0 d) = d \<and> drop (length d) (overwrite p 0 d) = drop (length d) p"
  by (simp add: overwrite_def)

lemma nth_buf_before:
  "Reader_wf b \<Longrightarrow> 0 < r_r b \<Longrightarrow> gindex (r_buf b) (int (r_r b) - 1) = Inr (r_buf b ! (r_r b - 1))"
  by (auto simp: gindex_def Reader_wf_def nat_diff_distrib')

text \<open>The copying half of \<open>Read\<close>, with at least one byte to copy.\<close>

lemma copy_out_ok:
  assumes "Reader_wf b" and "Reader_unread b \<noteq> []" and "p \<noteq> []"
  defines "m \<equiv> min (length p) (length (Reader_unread b))"
  defines "b' \<equiv> b\<lparr>r_r := r_r b + m, r_lastByte := uint (Reader_unread b ! (m - 1)), r_lastRuneSize := -1\<rparr>"
  shows "Reader_copy_out p b = Inr (overwrite p 0 (Reader_unread b), int m, None, b')"
    and "Reader_wf b'" and "0 < m"
    and "take m (overwrite p 0 (Reader_unread b)) = take m (Reader_unread b)"
    and "drop m (overwrite p 0 (Reader_unread b)) = drop m p"
proof -
  show m: "0 < m" using assms(2,3) by (simp add: m_def)
  have le: "r_r b + m \<le> r_w b" "r_w b \<le> length (r_buf b)"
    using assms(1) length_Reader_unread[OF assms(1)] by (auto simp: m_def Reader_wf_def)
  have "Reader_unread b ! (m - 1) = r_buf b ! (r_r b + m - 1)"
    using m le by (simp add: Reader_unread_def add.commute)
  then show "Reader_copy_out p b = Inr (overwrite p 0 (Reader_unread b), int m, None, b')"
    using assms(1) m le
    by (simp add: Reader_copy_out_def Let_def m_def[symmetric] b'_def gindex_def nat_diff_distrib' nat_add_distrib)
  show "Reader_wf b'"
    using assms(1) le by (auto simp: b'_def Reader_wf_def byte_bounds)
  show "take m (overwrite p 0 (Reader_unread b)) = take m (Reader_unread b)"
    and "drop m (overwrite p 0 (Reader_unread b)) = drop m p"
    by (auto simp: overwrite_def m_def min_def)
qed

context io_reader
begin

lemma read_ok:
  assumes "Reader_inv ok b"
  shows "go_returns (Reader_Read rdf p b) (\<lambda>(p', n, e, b').
    Reader_inv ok b' \<and> 0 \<le> n \<and> n \<le> int (length p) \<and> length p' = length p \<and>
    drop (nat n) p' = drop (nat n) p \<and>
    Reader_contents pending b = take (nat n) p' @ Reader_contents pending b')"
    (is "go_returns _ ?Q")
proof -
  have wf: "Reader_wf b" using assms by (simp add: Reader_inv_def)
  have clear: "Reader_inv ok (b\<lparr>r_err := None\<rparr>)" using assms by (simp add: Reader_inv_def Reader_wf_def)
  have copy: "go_returns (Reader_Read rdf p b) ?Q"
    if "Reader_Read rdf p b = Reader_copy_out p b2" "Reader_inv ok b2"
      "Reader_unread b2 \<noteq> []" "p \<noteq> []" "Reader_contents pending b = Reader_contents pending b2" for b2
  proof -
    have wf2: "Reader_wf b2" using that(2) by (simp add: Reader_inv_def)
    let ?m = "min (length p) (length (Reader_unread b2))"
    note c = copy_out_ok[OF wf2 that(3,4)]
    show ?thesis
      using that(1,2,5) c Reader_contents_advance[of ?m b2 pending]
      by (simp add: Reader_inv_def Reader_contents_def)
  qed
  consider (empty) "p = []" | (avail) "p \<noteq> []" "r_r b \<noteq> r_w b"
    | (err) "p \<noteq> []" "r_r b = r_w b" "r_err b \<noteq> None"
    | (direct) "p \<noteq> []" "r_r b = r_w b" "r_err b = None" "length (r_buf b) \<le> length p"
    | (one) "p \<noteq> []" "r_r b = r_w b" "r_err b = None" "length p < length (r_buf b)" by force
  then show ?thesis
  proof cases
    case empty
    then show ?thesis using assms clear by (simp add: Reader_Read_def Reader_readErr_def)
  next
    case avail
    then have "Reader_unread b \<noteq> []"
      using wf by (simp add: Reader_unread_empty)
    with avail show ?thesis using copy[of b] assms by (simp add: Reader_Read_def)
  next
    case err
    then show ?thesis using clear by (simp add: Reader_Read_def Reader_readErr_def)
  next
    case direct
    obtain s d n e where rd: "rdf (r_rd b) (length p) = (s, d, n, e)" by (metis prod_cases4)
    have c: "ok s" "n = int (length d)" "length d \<le> length p" "pending (r_rd b) = d @ pending s"
      using rd_contract[OF _ rd] assms by (auto simp: Reader_inv_def)
    have un: "Reader_unread b = []" using direct(2) by (simp add: Reader_unread_def)
    let ?b1 = "b\<lparr>r_rd := s, r_err := None\<rparr>"
    have inv1: "Reader_inv ok ?b1" using assms c by (simp add: Reader_inv_def Reader_wf_def)
    have cont: "Reader_contents pending b = d @ Reader_contents pending ?b1"
      using un c by (simp add: Reader_contents_def)
    have byte: "Reader_inv ok (b\<lparr>r_rd := s, r_lastByte := uint (x::byte), r_lastRuneSize := -1, r_err := None\<rparr>)" for x
      using inv1 by (auto simp: Reader_inv_def Reader_wf_def byte_bounds)
    have idx: "gindex (overwrite p 0 d) (int (length d) - 1) = Inr (overwrite p 0 d ! (length d - 1))"
      if "d \<noteq> []"
      using that c by (simp add: gindex_def nat_diff_distrib' Suc_le_eq)
    show ?thesis
      using direct rd c cont overwrite_front[OF c(3)] byte inv1 idx
      by (cases "d = []") (simp_all add: Reader_Read_def Reader_readErr_def Let_def)
  next
    case one
    obtain s d n e where rd: "rdf (r_rd b) (length (r_buf b)) = (s, d, n, e)" by (metis prod_cases4)
    have c: "ok s" "n = int (length d)" "length d \<le> length (r_buf b)" "pending (r_rd b) = d @ pending s"
      using rd_contract[OF _ rd] assms by (auto simp: Reader_inv_def)
    have un: "Reader_unread b = []" using one(2) by (simp add: Reader_unread_def)
    let ?b1 = "b\<lparr>r_r := 0, r_w := 0, r_rd := s, r_buf := overwrite (r_buf b) 0 d, r_err := e\<rparr>"
    let ?b2 = "?b1\<lparr>r_w := length d\<rparr>"
    have un2: "Reader_unread ?b2 = d" 
      using overwrite_front[OF c(3)] by (simp add: Reader_unread_def)
    have inv2: "Reader_inv ok ?b2" and inv1: "Reader_inv ok (?b1\<lparr>r_err := None\<rparr>)"
      using assms c by (auto simp: Reader_inv_def Reader_wf_def simp flip: length_greater_0_conv)
    have cont2: "Reader_contents pending b = Reader_contents pending ?b2"
      using un un2 c by (simp add: Reader_contents_def)
    show ?thesis
    proof (cases "d = []")
      case True
      then have "Reader_contents pending b = Reader_contents pending (?b1\<lparr>r_err := None\<rparr>)"
        using cont2 by (simp add: Reader_contents_def Reader_unread_def)
      with True show ?thesis
        using one rd c inv1 by (simp add: Reader_Read_def Reader_readErr_def Let_def)
    next
      case False
      then have "Reader_Read rdf p b = Reader_copy_out p ?b2"
        using one rd c by (simp add: Reader_Read_def Let_def)
      from copy[OF this inv2] un2 False one(1) cont2 show ?thesis by simp
    qed
  qed
qed

lemma readByte_loop_ok:
  assumes "Reader_inv ok b"
  shows "go_returns (Reader_readByte_loop rdf b) (\<lambda>(c, e, b').
    Reader_inv ok b' \<and> r_lastRuneSize b' = r_lastRuneSize b \<and>
    (if e = None
     then Reader_contents pending b = c # Reader_contents pending b' \<and>
       0 < r_r b' \<and> r_lastByte b' = uint c
     else Reader_contents pending b' = Reader_contents pending b \<and> Reader_unread b' = []))"
  using assms
proof (induction b rule: measure_induct_rule[of fill_measure])
  case (less b)
  have wf: "Reader_wf b" using less.prems by (simp add: Reader_inv_def)
  consider (err) "r_r b = r_w b" "r_err b \<noteq> None" | (fill) "r_r b = r_w b" "r_err b = None"
    | (byte) "r_r b \<noteq> r_w b" by blast
  then show ?case
  proof cases
    case err
    then show ?thesis using less.prems wf
      by (simp add: Reader_readByte_loop.simps[of rdf b] Reader_readErr_def Reader_inv_def
          Reader_wf_def Reader_unread_def)
  next
    case fill
    have "Reader_Buffered b < int (length (r_buf b))"
      using fill wf by (simp add: Reader_Buffered_def Reader_wf_def)
    then obtain b1 where b1: "Reader_fill rdf b = Inr b1" "Reader_inv ok b1"
        "Reader_contents pending b1 = Reader_contents pending b"
      using fill_ok[OF less.prems] by blast
    have step: "Reader_readByte_loop rdf b = Reader_readByte_loop rdf b1"
      using fill b1(1) by (simp add: Reader_readByte_loop.simps[of rdf b])
    show ?thesis
      unfolding step
      by (rule go_returns_mono[OF less.IH[OF fill_measure_less[OF b1(1) fill(2)] b1(2)]])
        (use b1(3) Reader_fill_frame[OF b1(1)] in auto)
  next
    case byte
    let ?c = "r_buf b ! r_r b"
    have g: "gindex (r_buf b) (int (r_r b)) = Inr ?c" "r_r b < r_w b"
      using byte wf by (auto simp: gindex_def Reader_wf_def)
    then have "Reader_contents pending b
        = ?c # Reader_contents pending (b\<lparr>r_r := r_r b + 1, r_lastByte := uint ?c\<rparr>)"
      using wf Reader_unread_Cons[of b]
      by (simp add: Reader_contents_def Reader_unread_def[of "b\<lparr>r_r := _\<rparr>"] Reader_wf_def)
    then show ?thesis using less.prems byte g
      by (auto simp: Reader_readByte_loop.simps[of rdf b] Reader_inv_def Reader_wf_def byte_bounds)
  qed
qed

end

text \<open>
  \<open>UnreadByte\<close> puts the last byte back where it succeeds: after it the stream starts with that
  byte again.
\<close>

lemma unreadByte_ok:
  assumes "Reader_wf b" and "0 \<le> r_lastByte b" and "0 < r_r b \<or> r_w b = 0"
  shows "go_returns (Reader_UnreadByte b) (\<lambda>(e, b'). e = None \<and> Reader_wf b' \<and> r_rd b' = r_rd b \<and>
    Reader_unread b' = word_of_int (r_lastByte b) # Reader_unread b)"
proof (cases "0 < r_r b")
  case True
  then obtain k where k: "r_r b = Suc k" by (cases "r_r b") auto
  let ?c = "word_of_int (r_lastByte b) :: byte"
  have kl: "k < length (r_buf b)" using assms(1) k by (simp add: Reader_wf_def)
  have "drop k ((r_buf b)[k := ?c]) = ?c # drop (Suc k) (r_buf b)"
    using kl Cons_nth_drop_Suc[of k "(r_buf b)[k := ?c]"] by simp
  then have "take (r_w b - k) (drop k ((r_buf b)[k := ?c]))
      = ?c # take (r_w b - Suc k) (drop (Suc k) (r_buf b))"
    using k assms(1) by (simp add: Reader_wf_def take_Cons' Suc_le_eq)
  then show ?thesis using True assms k kl
    by (simp add: Reader_UnreadByte_def Let_def Reader_wf_def Reader_unread_def)
next
  case False
  then show ?thesis using assms
    by (cases "r_buf b") (auto simp: Reader_UnreadByte_def Let_def Reader_wf_def Reader_unread_def)
qed

context io_reader
begin

lemma readByte_ok:
  assumes "Reader_inv ok b"
  shows "go_returns (Reader_ReadByte rdf b) (\<lambda>(c, e, b').
    Reader_inv ok b' \<and> r_lastRuneSize b' = -1 \<and>
    (if e = None
     then Reader_contents pending b = c # Reader_contents pending b' \<and>
       0 < r_r b' \<and> r_lastByte b' = uint c
     else Reader_contents pending b' = Reader_contents pending b \<and> Reader_unread b' = []))"
proof -
  let ?b = "b\<lparr>r_lastRuneSize := -1\<rparr>"
  have "Reader_inv ok ?b" using assms by (simp add: Reader_inv_def Reader_wf_def)
  from readByte_loop_ok[OF this] show ?thesis
    unfolding Reader_ReadByte_def
    by (rule go_returns_mono) (auto split: if_splits)
qed

lemma unreadByte_readByte:
  assumes "Reader_inv ok b" and "Reader_ReadByte rdf b = Inr (c, None, b1)"
  shows "go_returns (Reader_UnreadByte b1) (\<lambda>(e, b2). e = None \<and> Reader_inv ok b2 \<and>
    Reader_contents pending b2 = Reader_contents pending b)"
proof -
  have b1: "Reader_inv ok b1" "Reader_contents pending b = c # Reader_contents pending b1"
      "0 < r_r b1" "r_lastByte b1 = uint c"
    using readByte_ok[OF assms(1)] assms(2) by auto
  then have "go_returns (Reader_UnreadByte b1) (\<lambda>(e, b'). e = None \<and> Reader_wf b' \<and>
      r_rd b' = r_rd b1 \<and> Reader_unread b' = word_of_int (r_lastByte b1) # Reader_unread b1)"
    by (intro unreadByte_ok) (auto simp: Reader_inv_def)
  then show ?thesis
    by (rule go_returns_mono) (use b1 in \<open>auto simp: Reader_inv_def Reader_contents_def\<close>)
qed

end

subsection \<open>The buffered reader is itself an io.Reader\<close>

text \<open>
  \<open>*Reader\<close> implements \<open>io.Reader\<close> by \<open>Read\<close>: this is the source another reader, or the
  connection service, reads from. A panic, which the contract excludes, answers with the count
  -1 that makes the caller panic in turn.
\<close>

definition Reader_as_source :: "'s rd_fun \<Rightarrow> 's Reader rd_fun" where
  "Reader_as_source rdf b k =
     (case Reader_Read rdf (replicate k 0) b of
        Inl p \<Rightarrow> (b, [], -1, None)
      | Inr (p', n, e, b') \<Rightarrow> (b', take (nat n) p', n, e))"

context io_reader
begin

lemma as_source: "io_reader (Reader_as_source rdf) (Reader_inv ok) (Reader_contents pending)"
proof
  fix b k b' d n e
  assume inv: "Reader_inv ok b" and r: "Reader_as_source rdf b k = (b', d, n, e)"
  obtain p' where "Reader_Read rdf (replicate k 0) b = Inr (p', n, e, b')" "d = take (nat n) p'"
    using read_ok[OF inv, of "replicate k 0"] r
    by (auto simp: Reader_as_source_def elim!: go_returnsE)
  then show "Reader_inv ok b' \<and> n = int (length d) \<and> length d \<le> k \<and>
      Reader_contents pending b = d @ Reader_contents pending b'"
    using read_ok[OF inv, of "replicate k 0"] by auto
qed

end

context io_reader_eof
begin

lemma copy_out_eof:
  assumes "Reader_inv_eof ok pending b" and "Reader_unread b \<noteq> []" and "p \<noteq> []"
    and "Reader_copy_out p b = Inr (p', n, e, b')"
  shows "Reader_inv_eof ok pending b' \<and> 0 < n \<and> e = None"
proof -
  have wf: "Reader_wf b" using assms(1) by (simp add: Reader_inv_eof_def Reader_inv_def)
  show ?thesis
    using copy_out_ok(1,2,3)[OF wf assms(2,3)] assms(1,4)
    by (auto simp: Reader_inv_eof_def Reader_inv_def)
qed

lemma read_eof:
  assumes "Reader_inv_eof ok pending b" and "Reader_Read rdf p b = Inr (p', n, e, b')"
  shows "Reader_inv_eof ok pending b' \<and> (p \<noteq> [] \<longrightarrow> 0 < n \<or> e \<noteq> None) \<and>
    (e \<noteq> None \<longrightarrow> e = Some EOF \<and> Reader_contents pending b' = [])"
proof -
  have wf: "Reader_wf b" and ok: "ok (r_rd b)" and inv: "Reader_inv ok b"
    using assms(1) by (simp_all add: Reader_inv_eof_def Reader_inv_def)
  have inv': "Reader_inv ok b'" using read_ok[OF inv, of p] assms(2) by simp
  have src: "n = int (length d) \<and> (d \<noteq> [] \<or> e \<noteq> None) \<and> pending (r_rd b) = d @ pending s \<and>
      ok s \<and> length d \<le> k \<and> (e \<noteq> None \<longrightarrow> e = Some EOF \<and> pending s = [])"
    if "rdf (r_rd b) k = (s, d, n, e)" "0 < k" for k s d n e
    using rd_contract[OF ok that(1)] rd_progress[OF ok that(2,1)] rd_eof[OF ok, of k] that(1)
    by (cases e) auto
  consider (empty) "p = []" | (avail) "p \<noteq> []" "r_r b \<noteq> r_w b"
    | (err) "p \<noteq> []" "r_r b = r_w b" "r_err b \<noteq> None"
    | (direct) "p \<noteq> []" "r_r b = r_w b" "r_err b = None" "length (r_buf b) \<le> length p"
    | (one) "p \<noteq> []" "r_r b = r_w b" "r_err b = None" "length p < length (r_buf b)" by force
  then show ?thesis
  proof cases
    case empty
    then show ?thesis using assms inv'
      by (auto simp: Reader_Read_def Reader_readErr_def Reader_inv_eof_def Reader_contents_def
          Reader_Buffered_unread[OF wf] split: if_splits)
  next
    case avail
    then have "Reader_unread b \<noteq> []" using wf by (simp add: Reader_unread_empty)
    then show ?thesis using avail assms copy_out_eof[OF assms(1) _ avail(1)]
      by (auto simp: Reader_Read_def)
  next
    case err
    then show ?thesis using assms inv'
      by (auto simp: Reader_Read_def Reader_readErr_def Reader_inv_eof_def Reader_contents_def
          Reader_unread_def)
  next
    case direct
    obtain s d m e1 where rd: "rdf (r_rd b) (length p) = (s, d, m, e1)" by (metis prod_cases4)
    show ?thesis
      using direct assms(2) inv' rd src[OF rd]
      by (auto simp: Reader_Read_def Reader_readErr_def Let_def Reader_inv_eof_def
          Reader_contents_def Reader_unread_def split: if_splits sum.splits)
  next
    case one
    obtain s d m e1 where rd: "rdf (r_rd b) (length (r_buf b)) = (s, d, m, e1)" by (metis prod_cases4)
    have k: "0 < length (r_buf b)" using wf by (simp add: Reader_wf_def)
    note c = src[OF rd k]
    let ?b2 = "b\<lparr>r_r := 0, r_rd := s, r_buf := overwrite (r_buf b) 0 d, r_err := e1, r_w := length d\<rparr>"
    show ?thesis
    proof (cases "d = []")
      case True
      then show ?thesis using one assms(2) inv' rd c
        by (auto simp: Reader_Read_def Reader_readErr_def Let_def Reader_inv_eof_def
            Reader_contents_def Reader_unread_def)
    next
      case False
      have "Reader_inv_eof ok pending ?b2"
        using assms(1) c k by (auto simp: Reader_inv_eof_def Reader_inv_def Reader_wf_def simp flip: length_greater_0_conv)
      moreover have "Reader_unread ?b2 = d"
        using c overwrite_front[of d "r_buf b"] by (simp add: Reader_unread_def)
      moreover have "Reader_copy_out p ?b2 = Inr (p', n, e, b')"
        using one False assms(2) rd c by (simp add: Reader_Read_def Let_def)
      ultimately show ?thesis using copy_out_eof[of ?b2 p p' n e b'] one(1) False by simp
    qed
  qed
qed

lemma as_source_eof:
  "io_reader_eof (Reader_as_source rdf) (Reader_inv_eof ok pending) (Reader_contents pending)"
proof
  fix b k b' d n e
  assume inv: "Reader_inv_eof ok pending b" and r: "Reader_as_source rdf b k = (b', d, n, e)"
  obtain p' where p': "Reader_Read rdf (replicate k 0) b = Inr (p', n, e, b')" "d = take (nat n) p'"
    using read_ok[OF Reader_inv_eof_inv[OF inv], of "replicate k 0"] r
    by (auto simp: Reader_as_source_def elim!: go_returnsE)
  then show "Reader_inv_eof ok pending b' \<and> n = int (length d) \<and> length d \<le> k \<and>
      Reader_contents pending b = d @ Reader_contents pending b'"
    using read_ok[OF Reader_inv_eof_inv[OF inv], of "replicate k 0"] read_eof[OF inv p'(1)] by auto
next
  fix b k b' d n e
  assume inv: "Reader_inv_eof ok pending b" and k: "0 < k"
    and r: "Reader_as_source rdf b k = (b', d, n, e)"
  obtain p' where p': "Reader_Read rdf (replicate k 0) b = Inr (p', n, e, b')" "d = take (nat n) p'"
    using read_ok[OF Reader_inv_eof_inv[OF inv], of "replicate k 0"] r
    by (auto simp: Reader_as_source_def elim!: go_returnsE)
  have "replicate k (0 :: byte) \<noteq> []" using k by simp
  with read_eof[OF inv p'(1)] have "0 < n \<or> e \<noteq> None" by blast
  moreover have "length p' = k"
    using read_ok[OF Reader_inv_eof_inv[OF inv], of "replicate k 0"] p'(1) by simp
  then have "p' \<noteq> []" using k by auto
  ultimately show "d \<noteq> [] \<or> e \<noteq> None" using p'(2) by (cases e) auto
next
  fix b k b' d n x
  assume inv: "Reader_inv_eof ok pending b" and r: "Reader_as_source rdf b k = (b', d, n, Some x)"
  obtain p' where p': "Reader_Read rdf (replicate k 0) b = Inr (p', n, Some x, b')"
    using read_ok[OF Reader_inv_eof_inv[OF inv], of "replicate k 0"] r
    by (auto simp: Reader_as_source_def elim!: go_returnsE)
  then show "x = EOF \<and> Reader_contents pending b' = []" using read_eof[OF inv] by blast
qed

end

text \<open>The reader of the repository over a stream of segments, as an \<open>io.Reader\<close> of its own.\<close>

interpretation buffered_segs: io_reader_eof "Reader_as_source segs_read"
    "Reader_inv_eof (\<lambda>_. True) concat" "Reader_contents concat"
  by (rule segs.as_source_eof)

lemma NewReaderSize_inv:
  assumes "ok rd"
  shows "Reader_inv_eof ok pending (NewReaderSize rd sz)"
    and "Reader_contents pending (NewReaderSize rd sz) = pending rd"
    and "Reader_Size (NewReaderSize rd sz) = max sz 16"
  using assms
  by (auto simp: max_def NewReaderSize_def Reader_reset_with_def Reader_inv_eof_def Reader_inv_def
      Reader_wf_def minReadBufferSize_def Reader_contents_def Reader_unread_def Reader_Size_def)

end
