(* ===== verification/Bufio_Text_Spec.thy ===== *)
theory Bufio_Text_Spec
  imports Bufio_Reader_Spec
begin

section \<open>What the line and rune operations promise\<close>

text \<open>
  The operations that interpret the stream, over the contracts of \<open>Io\<close>: where \<open>ReadSlice\<close>
  stops, what \<open>ReadLine\<close> strips, that \<open>ReadBytes\<close> and \<open>ReadString\<close> return the stream up to the
  delimiter for every buffer size and every segmentation, that \<open>ReadRune\<close> decodes what
  \<open>EncodeRune\<close> wrote, and that \<open>WriteTo\<close> moves the whole stream.
\<close>

subsection \<open>ReadSlice\<close>

definition readSlice_post ::
  "('s \<Rightarrow> bool) \<Rightarrow> ('s \<Rightarrow> byte list) \<Rightarrow> byte \<Rightarrow> 's Reader \<Rightarrow> byte list \<Rightarrow> goerr option \<Rightarrow> 's Reader \<Rightarrow> bool"
where
  "readSlice_post ok pending delim b line e b' \<longleftrightarrow>
     Reader_inv ok b' \<and> Reader_contents pending b = line @ Reader_contents pending b' \<and>
     length (r_buf b') = length (r_buf b) \<and>
     (line \<noteq> [] \<longrightarrow> 0 < r_r b' \<and> r_buf b' ! (r_r b' - 1) = last line) \<and>
     (if e = None then line \<noteq> [] \<and> last line = delim \<and> delim \<notin> set (butlast line)
      else delim \<notin> set line \<and> Reader_unread b' = [] \<and>
        (e = Some ErrBufferFull \<and> length line = length (r_buf b) \<or> r_err b' = None))"

lemma unread_tail:
  assumes "Reader_wf b" and "s \<le> length (Reader_unread b)"
  shows "gslice (r_buf b) (int (r_r b + s)) (int (r_w b)) = Inr (drop s (Reader_unread b))"
  using assms length_Reader_unread[OF assms(1)]
  by (auto simp: gslice_nat Reader_wf_def Reader_unread_def drop_take add.commute simp del: of_nat_add)

lemma unread_head:
  assumes "Reader_wf b" and "n \<le> length (Reader_unread b)"
  shows "gslice (r_buf b) (int (r_r b)) (int (r_r b + n)) = Inr (take n (Reader_unread b))"
  using assms length_Reader_unread[OF assms(1)]
  by (auto simp: gslice_nat Reader_wf_def Reader_unread_def simp del: of_nat_add)

lemma nth_unread:
  "Reader_wf b \<Longrightarrow> i < length (Reader_unread b) \<Longrightarrow> Reader_unread b ! i = r_buf b ! (r_r b + i)"
  using length_Reader_unread[of b] by (auto simp: Reader_unread_def Reader_wf_def)

text \<open>Taking a non-empty prefix of the unread bytes: what the operations below do to the reader.\<close>

lemma take_line:
  assumes "Reader_inv ok b" and "n \<le> length (Reader_unread b)" and "b' = b\<lparr>r_r := r_r b + n, r_err := e\<rparr>"
  shows "Reader_inv ok b'"
    and "Reader_contents pending b = take n (Reader_unread b) @ Reader_contents pending b'"
    and "0 < n \<Longrightarrow> 0 < r_r b' \<and> r_buf b' ! (r_r b' - 1) = last (take n (Reader_unread b))"
    and "Reader_unread b' = drop n (Reader_unread b)"
proof -
  have wf: "Reader_wf b" using assms(1) by (simp add: Reader_inv_def)
  show "Reader_inv ok b'"
    using inv_advance[of ok b n] assms by (simp add: Reader_inv_def Reader_wf_def)
  show "Reader_contents pending b = take n (Reader_unread b) @ Reader_contents pending b'"
    using Reader_contents_advance[OF assms(2)] assms(3) by simp
  show "Reader_unread b' = drop n (Reader_unread b)"
    using assms(3) by (simp add: Reader_unread_advance)
  assume "0 < n"
  then have "last (take n (Reader_unread b)) = Reader_unread b ! (n - 1)"
    using assms(2) by (simp add: last_take)
  then show "0 < r_r b' \<and> r_buf b' ! (r_r b' - 1) = last (take n (Reader_unread b))"
    using \<open>0 < n\<close> assms(2,3) nth_unread[OF wf, of "n - 1"] by simp
qed

lemma advance_all: "Reader_wf b \<Longrightarrow> b\<lparr>r_r := r_w b\<rparr> = b\<lparr>r_r := r_r b + length (Reader_unread b)\<rparr>"
  by (simp add: length_Reader_unread Reader_wf_def)

context io_reader
begin

lemma readSlice_loop_ok:
  assumes "Reader_inv ok b" and "s \<le> length (Reader_unread b)"
    and "delim \<notin> set (take s (Reader_unread b))"
  shows "go_returns (Reader_readSlice_loop rdf delim s b)
    (\<lambda>(line, e, b'). readSlice_post ok pending delim b line e b')"
  using assms
proof (induction b arbitrary: s rule: measure_induct_rule[of fill_measure])
  case (less b)
  let ?u = "Reader_unread b"
  have wf: "Reader_wf b" using less.prems(1) by (simp add: Reader_inv_def)
  note tail = unread_tail[OF wf less.prems(2)]
  show ?case
  proof (cases "indexByte (drop s ?u) delim")
    case (Some i)
    then have i: "i < length ?u - s" "?u ! (s + i) = delim" "delim \<notin> set (take i (drop s ?u))"
      using indexByte_Some[OF Some] less.prems(2) by auto
    let ?n = "i + s + 1"
    have n: "?n \<le> length ?u" using i less.prems(2) by simp
    have "take (s + i) ?u = take s ?u @ take i (drop s ?u)"
      by (simp add: take_add)
    then have no: "delim \<notin> set (butlast (take ?n ?u))"
      using less.prems(3) i(3) n by (simp add: butlast_take add.commute)
    have "last (take ?n ?u) = delim"
      using i n by (simp add: last_take add.commute)
    moreover have "gslice (r_buf b) (int (r_r b)) (int (r_r b + (i + s) + 1)) = Inr (take ?n ?u)"
      using unread_head[OF wf n] by (simp add: algebra_simps)
    ultimately show ?thesis
      using Some tail no n take_line[OF less.prems(1) n, of "b\<lparr>r_r := r_r b + ?n\<rparr>" "r_err b"]
      by (auto simp: Reader_readSlice_loop.simps[of rdf delim s b] Let_def readSlice_post_def
          add.assoc)
  next
    case None
    then have no: "delim \<notin> set ?u"
      using less.prems(3) append_take_drop_id[of s ?u] by (metis Un_iff indexByte_None set_append)
    consider (err) "r_err b \<noteq> None"
      | (full) "r_err b = None" "int (length (r_buf b)) \<le> Reader_Buffered b"
      | (fill) "r_err b = None" "Reader_Buffered b < int (length (r_buf b))" by linarith
    then show ?thesis
    proof cases
      case err
      then show ?thesis
        using None tail no wf take_line[OF less.prems(1) order_refl, of "b\<lparr>r_r := r_w b, r_err := None\<rparr>" None]
        by (auto simp: Reader_readSlice_loop.simps[of rdf delim s b] readSlice_post_def
            Reader_readErr_def advance_all)
    next
      case full
      then have "length ?u = length (r_buf b)"
        using Reader_Buffered_unread[OF wf] Reader_unread_le[OF wf] by simp
      moreover from this have "r_r b = 0" "r_w b = length (r_buf b)"
        using wf length_Reader_unread[OF wf] by (auto simp: Reader_wf_def)
      then have "?u = r_buf b" by (simp add: Reader_unread_def)
      ultimately show ?thesis
        using None tail no full wf take_line[OF less.prems(1) order_refl, of "b\<lparr>r_r := r_w b\<rparr>" "r_err b"]
        by (auto simp: Reader_readSlice_loop.simps[of rdf delim s b] readSlice_post_def advance_all)
    next
      case fill
      obtain b1 where b1: "Reader_fill rdf b = Inr b1" "Reader_inv ok b1"
          "Reader_contents pending b1 = Reader_contents pending b"
        using fill_ok[OF less.prems(1) fill(2)] by blast
      have wf1: "Reader_wf b1" using b1(2) by (simp add: Reader_inv_def)
      have le: "length ?u \<le> length (Reader_unread b1)"
        using Reader_fill_frame[OF b1(1)] by (simp add: Reader_Buffered_unread[OF wf] Reader_Buffered_unread[OF wf1])
      then have "take (length ?u) (Reader_unread b1) = ?u"
        using b1(3) by (auto simp: Reader_contents_def append_eq_append_conv_if split: if_splits)
      moreover have "nat (Reader_Buffered b) = length ?u" by (simp add: Reader_Buffered_unread[OF wf])
      ultimately have "go_returns (Reader_readSlice_loop rdf delim (nat (Reader_Buffered b)) b1)
          (\<lambda>(line, e, b'). readSlice_post ok pending delim b1 line e b')"
        using less.IH[OF fill_measure_less[OF b1(1) fill(1)] b1(2), of "length ?u"] le no by simp
      moreover have "Reader_readSlice_loop rdf delim s b =
          Reader_readSlice_loop rdf delim (nat (Reader_Buffered b)) b1"
        using None tail fill b1(1) by (simp add: Reader_readSlice_loop.simps[of rdf delim s b])
      moreover have "readSlice_post ok pending delim b1 = readSlice_post ok pending delim b"
        using b1(3) Reader_fill_frame[OF b1(1)] by (intro ext) (simp add: readSlice_post_def)
      ultimately show ?thesis by simp
    qed
  qed
qed

lemma readSlice_ok:
  assumes "Reader_inv ok b"
  shows "go_returns (Reader_ReadSlice rdf delim b)
    (\<lambda>(line, e, b'). readSlice_post ok pending delim b line e b')"
proof -
  have "go_returns (Reader_readSlice_loop rdf delim 0 b)
      (\<lambda>(line, e, b'). readSlice_post ok pending delim b line e b')"
    by (rule readSlice_loop_ok[OF assms]) simp_all
  then obtain line e b' where l: "Reader_readSlice_loop rdf delim 0 b = Inr (line, e, b')"
      "readSlice_post ok pending delim b line e b'" by (auto elim: go_returnsE)
  then show ?thesis
    by (auto simp: Reader_ReadSlice_def readSlice_post_def Reader_inv_def Reader_wf_def byte_bounds
        split: if_splits)
qed

end

text \<open>
  \<open>ReadLine\<close> returns a line without its line end, or an error, never both; the bytes it took from
  the stream are the line and the line end it stripped. A prefix of a long line comes back with
  \<open>isPrefix\<close>, and a carriage return at its end stays in the stream.
\<close>

definition line_end :: "byte list \<Rightarrow> bool" where
  "line_end t \<longleftrightarrow> t = [] \<or> t = [LF] \<or> t = [CR, LF]"

lemma split_line_end:
  assumes "line \<noteq> []" and "last line = LF"
  defines "k \<equiv> if 1 < length line \<and> line ! (length line - 2) = CR then 2 else 1"
  shows "\<exists>t. t \<noteq> [] \<and> line_end t \<and> line = take (length line - k) line @ t"
proof -
  obtain l where l: "line = l @ [LF]" using assms(1,2) by (metis append_butlast_last_id)
  show ?thesis
  proof (cases l rule: rev_cases)
    case Nil
    then show ?thesis using l by (auto simp: k_def line_end_def)
  next
    case (snoc m c)
    then show ?thesis using l by (auto simp: k_def line_end_def nth_append)
  qed
qed

definition readLine_post ::
  "('s \<Rightarrow> bool) \<Rightarrow> ('s \<Rightarrow> byte list) \<Rightarrow> 's Reader \<Rightarrow> byte list \<Rightarrow> bool \<Rightarrow> goerr option \<Rightarrow> 's Reader \<Rightarrow> bool"
where
  "readLine_post ok pending b line pfx e b' \<longleftrightarrow>
     Reader_inv ok b' \<and> LF \<notin> set line \<and> (e \<noteq> None \<longrightarrow> line = [] \<and> \<not> pfx) \<and>
     (\<exists>t. line_end t \<and> (pfx \<or> e \<noteq> None \<longrightarrow> t = []) \<and> (e = None \<and> \<not> pfx \<longrightarrow> line @ t \<noteq> []) \<and>
       Reader_contents pending b = line @ t @ Reader_contents pending b')"

lemma unread_back:
  assumes "Reader_wf b" and "0 < r_r b"
  shows "Reader_unread (b\<lparr>r_r := r_r b - 1\<rparr>) = r_buf b ! (r_r b - 1) # Reader_unread b"
  using assms Reader_unread_Cons[of "b\<lparr>r_r := r_r b - 1\<rparr>"]
  by (cases "r_r b") (auto simp: Reader_wf_def Reader_unread_def)

lemma LF_not_CR [simp]: "LF \<noteq> CR" "CR \<noteq> LF"
  by (simp_all add: LF_def CR_def)

context io_reader
begin

lemma readLine_ok:
  assumes "Reader_inv ok b"
  shows "go_returns (Reader_ReadLine rdf b)
    (\<lambda>(line, pfx, e, b'). readLine_post ok pending b line pfx e b')"
proof -
  obtain line e b1 where rs: "Reader_ReadSlice rdf LF b = Inr (line, e, b1)"
      "readSlice_post ok pending LF b line e b1"
    using readSlice_ok[OF assms, of LF] by (auto elim: go_returnsE)
  have inv1: "Reader_inv ok b1" and cont: "Reader_contents pending b = line @ Reader_contents pending b1"
    and bk: "line \<noteq> [] \<Longrightarrow> 0 < r_r b1 \<and> r_buf b1 ! (r_r b1 - 1) = last line"
    using rs(2) by (auto simp: readSlice_post_def)
  consider (cr) "e = Some ErrBufferFull" "line \<noteq> []" "last line = CR"
    | (full) "e = Some ErrBufferFull" "\<not> (line \<noteq> [] \<and> last line = CR)"
    | (empty) "e \<noteq> Some ErrBufferFull" "line = []"
    | (eol) "e \<noteq> Some ErrBufferFull" "line \<noteq> []" "last line = LF"
    | (tail) "e \<noteq> Some ErrBufferFull" "line \<noteq> []" "last line \<noteq> LF" by blast
  then show ?thesis
  proof cases
    case cr
    let ?b2 = "b1\<lparr>r_r := r_r b1 - 1\<rparr>"
    have "Reader_inv ok ?b2" using inv1 by (auto simp: Reader_inv_def Reader_wf_def)
    moreover have "Reader_contents pending ?b2 = CR # Reader_contents pending b1"
      using unread_back[of b1] bk cr inv1 by (simp add: Reader_contents_def Reader_inv_def)
    moreover have "line = butlast line @ [CR]" using cr by (metis append_butlast_last_id)
    moreover have "LF \<notin> set (butlast line)"
      using rs(2) cr by (auto simp: readSlice_post_def dest: in_set_butlastD)
    ultimately show ?thesis using cr rs(1) cont bk
      by (auto simp: Reader_ReadLine_def readLine_post_def line_end_def)
  next
    case full
    then show ?thesis using rs inv1 cont
      by (auto simp: Reader_ReadLine_def readLine_post_def line_end_def readSlice_post_def)
  next
    case empty
    then have "e \<noteq> None" using rs(2) by (auto simp: readSlice_post_def split: if_splits)
    with empty show ?thesis using rs(1) inv1 cont
      by (auto simp: Reader_ReadLine_def readLine_post_def line_end_def)
  next
    case eol
    let ?k = "if 1 < length line \<and> line ! (length line - 2) = CR then 2 else 1 :: nat"
    obtain t where t: "t \<noteq> []" "line_end t" "line = take (length line - ?k) line @ t"
      using split_line_end[OF eol(2,3)] by blast
    have "set (take (length line - ?k) line) \<subseteq> set (butlast line)"
      unfolding butlast_conv_take by (rule set_take_subset_set_take) auto
    moreover have "LF \<notin> set (butlast line)"
      using rs(2) eol by (auto simp: readSlice_post_def dest: in_set_butlastD split: if_splits)
    ultimately have "LF \<notin> set (take (length line - ?k) line)" by blast
    moreover have "Reader_contents pending b
        = take (length line - ?k) line @ t @ Reader_contents pending b1"
      using cont t(3) by (metis append_assoc)
    ultimately show ?thesis
      unfolding Reader_ReadLine_def rs(1) readLine_post_def
      using eol inv1 t(1,2) by (auto simp: Let_def)
  next
    case tail
    then show ?thesis using rs inv1 cont
      by (auto simp: Reader_ReadLine_def readLine_post_def line_end_def readSlice_post_def
          split: if_splits)
  qed
qed

end

subsection \<open>ReadBytes and ReadString\<close>

text \<open>The stream up to and including the first \<open>delim\<close>, or all of it.\<close>

definition upto_delim :: "byte \<Rightarrow> byte list \<Rightarrow> byte list" where
  "upto_delim delim xs =
     (if delim \<in> set xs then takeWhile (\<lambda>x. x \<noteq> delim) xs @ [delim] else xs)"

lemma upto_delim_skip: "delim \<notin> set xs \<Longrightarrow> upto_delim delim (xs @ ys) = xs @ upto_delim delim ys"
  by (simp add: upto_delim_def takeWhile_append)

lemma upto_delim_found:
  assumes "xs \<noteq> []" and "last xs = delim" and "delim \<notin> set (butlast xs)"
  shows "upto_delim delim (xs @ ys) = xs"
proof -
  have "upto_delim delim (butlast xs @ (delim # ys)) = butlast xs @ upto_delim delim (delim # ys)"
    using assms(3) by (rule upto_delim_skip)
  moreover have "upto_delim delim (delim # ys) = [delim]" by (simp add: upto_delim_def)
  moreover have "butlast xs @ (delim # ys) = xs @ ys"
    using assms(1,2) append_butlast_last_id[of xs] by (metis append.assoc append_Cons append_Nil)
  ultimately show ?thesis using assms(1,2) append_butlast_last_id[of xs] by simp
qed

lemma copy_fulls_spec:
  "m + length (concat xs) \<le> length buf \<Longrightarrow>
     \<exists>buf'. copy_fulls buf m xs = (buf', m + length (concat xs)) \<and> length buf' = length buf \<and>
       take (m + length (concat xs)) buf' = take m buf @ concat xs"
proof (induction xs arbitrary: buf m)
  case Nil
  then show ?case by simp
next
  case (Cons x xs)
  have le: "m + length x \<le> length buf" using Cons.prems by simp
  have "m + length x + length (concat xs) \<le> length (overwrite buf m x)" using Cons.prems by simp
  moreover have "min (length buf - m) (length x) = length x" using le by simp
  ultimately show ?case
    using Cons.IH[of "m + length x" "overwrite buf m x"] take_overwrite[OF le] le
    by (simp add: add.assoc)
qed

lemma copy_fulls_all:
  assumes "n = length (concat full) + length frag"
  shows "(case copy_fulls (replicate n 0) 0 full of (buf, m) \<Rightarrow> overwrite buf m frag) = concat full @ frag"
proof -
  obtain buf where "copy_fulls (replicate n 0) 0 full = (buf, length (concat full))"
      "length buf = n" "take (length (concat full)) buf = concat full"
    using copy_fulls_spec[of 0 full "replicate n 0"] assms by auto
  then show ?thesis using assms by (simp add: overwrite_def)
qed

lemma foldl_append_concat: "foldl (@) ys xs = ys @ concat xs"
  by (induction xs arbitrary: ys) auto

context io_reader_eof
begin

text \<open>Over a source that ends, \<open>ReadSlice\<close> fails only because the buffer is full or at the end.\<close>

lemma readSlice_loop_eof:
  assumes "Reader_inv_eof ok pending b" and "s \<le> length (Reader_unread b)"
    and "Reader_readSlice_loop rdf delim s b = Inr (line, e, b')"
  shows "Reader_inv_eof ok pending b' \<and>
    (e = None \<or> e = Some ErrBufferFull \<and> line = r_buf b' \<or> e = Some EOF \<and> pending (r_rd b') = [])"
  using assms
proof (induction b arbitrary: s rule: measure_induct_rule[of fill_measure])
  case (less b)
  let ?u = "Reader_unread b"
  have wf: "Reader_wf b" using less.prems(1) by (simp add: Reader_inv_eof_def Reader_inv_def)
  note tail = unread_tail[OF wf less.prems(2)]
  have inv: "Reader_inv_eof ok pending (b\<lparr>r_r := r_r b + n, r_err := e\<rparr>)"
    if "n \<le> length ?u" "e = None \<or> e = r_err b" for n e
    using less.prems(1) that inv_advance[of ok b n]
    by (auto simp: Reader_inv_eof_def Reader_inv_def Reader_wf_def)
  show ?case
  proof (cases "indexByte (drop s ?u) delim")
    case (Some i)
    then have i: "i + s + 1 \<le> length ?u" using indexByte_Some[OF Some] by (simp; linarith)
    have "gslice (r_buf b) (int (r_r b)) (int (r_r b + (i + s) + 1)) = Inr (take (i + s + 1) ?u)"
      using unread_head[OF wf i] by (simp add: algebra_simps)
    then show ?thesis
      using Some tail less.prems(3) inv[OF i, of "r_err b"]
      by (auto simp: Reader_readSlice_loop.simps[of rdf delim s b] Let_def add.assoc)
  next
    case None
    consider (err) "r_err b \<noteq> None"
      | (full) "r_err b = None" "int (length (r_buf b)) \<le> Reader_Buffered b"
      | (fill) "r_err b = None" "Reader_Buffered b < int (length (r_buf b))" by linarith
    then show ?thesis
    proof cases
      case err
      have "Reader_inv_eof ok pending (b\<lparr>r_r := r_w b, r_err := None\<rparr>)"
        using inv[OF order_refl, of None] wf by (simp add: length_Reader_unread Reader_wf_def)
      then show ?thesis
        using None tail err wf less.prems(1,3)
        by (auto simp: Reader_readSlice_loop.simps[of rdf delim s b] Reader_readErr_def Reader_inv_eof_def)
    next
      case full
      have "Reader_inv_eof ok pending (b\<lparr>r_r := r_w b\<rparr>)"
        using inv[OF order_refl, of "r_err b"] wf by (simp add: length_Reader_unread Reader_wf_def)
      then show ?thesis
        using None tail full wf less.prems(3)
        by (auto simp: Reader_readSlice_loop.simps[of rdf delim s b])
    next
      case fill
      obtain b1 where b1: "Reader_fill rdf b = Inr b1" "Reader_inv ok b1"
        using fill_ok[OF Reader_inv_eof_inv[OF less.prems(1)] fill(2)] by blast
      have "nat (Reader_Buffered b) \<le> length (Reader_unread b1)"
        using Reader_fill_frame[OF b1(1)] Reader_Buffered_unread[of b1] b1(2)
        by (simp add: Reader_inv_def nat_le_iff)
      moreover have "Reader_readSlice_loop rdf delim (nat (Reader_Buffered b)) b1 = Inr (line, e, b')"
        using None tail fill b1(1) less.prems(3) by (simp add: Reader_readSlice_loop.simps[of rdf delim s b])
      ultimately show ?thesis
        using less.IH[OF fill_measure_less[OF b1(1) fill(1)] fill_eof[OF less.prems(1) b1(1)]] by blast
    qed
  qed
qed

lemma readSlice_eof:
  assumes "Reader_inv_eof ok pending b"
  shows "go_returns (Reader_ReadSlice rdf delim b) (\<lambda>(line, e, b').
    readSlice_post ok pending delim b line e b' \<and> Reader_inv_eof ok pending b' \<and>
    (e = None \<or> e = Some ErrBufferFull \<and> line \<noteq> [] \<or>
     e = Some EOF \<and> Reader_contents pending b' = []))"
proof -
  obtain line e b' where l: "Reader_ReadSlice rdf delim b = Inr (line, e, b')"
      "readSlice_post ok pending delim b line e b'"
    using readSlice_ok[OF Reader_inv_eof_inv[OF assms], of delim] by (auto elim: go_returnsE)
  from l(1) obtain b1 where b1: "Reader_readSlice_loop rdf delim 0 b = Inr (line, e, b1)"
      "b' = (if line = [] then b1 else b1\<lparr>r_lastByte := uint (last line), r_lastRuneSize := -1\<rparr>)"
    by (auto simp: Reader_ReadSlice_def split: sum.splits)
  have "Reader_inv_eof ok pending b1 \<and>
      (e = None \<or> e = Some ErrBufferFull \<and> line = r_buf b1 \<or> e = Some EOF \<and> pending (r_rd b1) = [])"
    by (rule readSlice_loop_eof[OF assms _ b1(1)]) simp
  then show ?thesis
    using l b1(2) assms
    by (auto simp: readSlice_post_def Reader_inv_eof_def Reader_inv_def Reader_wf_def
        Reader_contents_def split: if_splits)
qed

text \<open>
  \<open>collectFragments\<close> ends, because every full buffer it takes shortens the stream, and what it
  collected is the stream up to the delimiter.
\<close>

lemma collect_loop_eof:
  assumes "Reader_inv_eof ok pending b" and "tot = length (concat full)"
  shows "go_ends (Reader_collectFragments_loop rdf delim full tot b) (\<lambda>(full', frag, tot', e, b').
    Reader_inv_eof ok pending b' \<and> tot' = length (concat full') + length frag \<and>
    concat full' @ frag = concat full @ upto_delim delim (Reader_contents pending b) \<and>
    Reader_contents pending b = upto_delim delim (Reader_contents pending b) @ Reader_contents pending b' \<and>
    e = (if delim \<in> set (Reader_contents pending b) then None else Some EOF))"
  using assms
proof (induction "length (Reader_contents pending b)" arbitrary: b full tot rule: less_induct)
  case less
  obtain line e b1 where rs: "Reader_ReadSlice rdf delim b = Inr (line, e, b1)"
      "readSlice_post ok pending delim b line e b1" "Reader_inv_eof ok pending b1"
      "e = None \<or> e = Some ErrBufferFull \<and> line \<noteq> [] \<or> e = Some EOF \<and> Reader_contents pending b1 = []"
    using readSlice_eof[OF less.prems(1), of delim] by (auto elim: go_returnsE)
  have cont: "Reader_contents pending b = line @ Reader_contents pending b1"
    using rs(2) by (simp add: readSlice_post_def)
  consider (found) "e = None" | (eof) "e = Some EOF" | (full) "e = Some ErrBufferFull" using rs(4) by blast
  then show ?case
  proof cases
    case found
    then have "line \<noteq> []" "last line = delim" "delim \<notin> set (butlast line)"
      using rs(2) by (auto simp: readSlice_post_def)
    then show ?thesis
      using found rs(1,3) cont less.prems(2) upto_delim_found[of line delim "Reader_contents pending b1"]
        last_in_set[of line]
      by (subst Reader_collectFragments_loop.simps) simp
  next
    case eof
    then have "delim \<notin> set line" "Reader_contents pending b1 = []"
      using rs(2,4) by (auto simp: readSlice_post_def)
    then show ?thesis
      using eof rs(1,3) cont less.prems(2)
      by (subst Reader_collectFragments_loop.simps) (simp add: upto_delim_def)
  next
    case full
    then have no: "delim \<notin> set line" "line \<noteq> []" using rs(2,4) by (auto simp: readSlice_post_def)
    then have "length (Reader_contents pending b1) < length (Reader_contents pending b)"
      using cont by simp
    from less.hyps[OF this rs(3), of "tot + length line" "full @ [line]"] less.prems(2)
    have "go_ends (Reader_collectFragments_loop rdf delim (full @ [line]) (tot + length line) b1)
      (\<lambda>(full', frag, tot', e, b').
        Reader_inv_eof ok pending b' \<and> tot' = length (concat full') + length frag \<and>
        concat full' @ frag = concat (full @ [line]) @ upto_delim delim (Reader_contents pending b1) \<and>
        Reader_contents pending b1 = upto_delim delim (Reader_contents pending b1) @ Reader_contents pending b' \<and>
        e = (if delim \<in> set (Reader_contents pending b1) then None else Some EOF))" by simp
    then show ?thesis
      using full rs(1) cont no upto_delim_skip[OF no(1), of "Reader_contents pending b1"]
      by (subst Reader_collectFragments_loop.simps) simp
  qed
qed

lemma readBytes_eof:
  assumes "Reader_inv_eof ok pending b"
  shows "go_ends (Reader_ReadBytes rdf delim b) (\<lambda>(out, e, b').
    Reader_inv_eof ok pending b' \<and>
    out = upto_delim delim (Reader_contents pending b) \<and>
    Reader_contents pending b = out @ Reader_contents pending b' \<and>
    e = (if delim \<in> set (Reader_contents pending b) then None else Some EOF))"
proof -
  obtain full frag tot e b' where c: "Reader_collectFragments rdf delim b = Some (Inr (full, frag, tot, e, b'))"
      "Reader_inv_eof ok pending b'" "tot = length (concat full) + length frag"
      "concat full @ frag = upto_delim delim (Reader_contents pending b)"
      "Reader_contents pending b = upto_delim delim (Reader_contents pending b) @ Reader_contents pending b'"
      "e = (if delim \<in> set (Reader_contents pending b) then None else Some EOF)"
    using collect_loop_eof[OF assms, of 0 "[]" delim]
    by (auto simp: Reader_collectFragments_def elim!: go_endsE)
  then show ?thesis
    using copy_fulls_all[OF c(3)] by (simp add: Reader_ReadBytes_def case_prod_beta)
qed

lemma readString_eof:
  assumes "Reader_inv_eof ok pending b"
  shows "Reader_ReadString rdf delim b = Reader_ReadBytes rdf delim b"
proof -
  obtain full frag tot e b' where c: "Reader_collectFragments rdf delim b = Some (Inr (full, frag, tot, e, b'))"
      "tot = length (concat full) + length frag"
    using collect_loop_eof[OF assms, of 0 "[]" delim]
    by (auto simp: Reader_collectFragments_def elim!: go_endsE)
  then show ?thesis
    using copy_fulls_all[OF c(2)]
    by (simp add: Reader_ReadBytes_def Reader_ReadString_def foldl_append_concat case_prod_beta)
qed

end

subsection \<open>ReadRune and UnreadRune\<close>

text \<open>
  Decoding the buffered bytes is decoding the stream, once \<open>FullRune\<close> holds of them or they
  are as many as the longest encoding.
\<close>

lemma decode_units_prefix:
  assumes "first_size x \<le> length (x # ys) \<or>
    (ys \<noteq> [] \<and> (\<not> accept_range x (ys ! 0) \<or> (2 \<le> length ys \<and> \<not> cont_byte (ys ! 1))))"
  shows "decode_units ((x # ys) @ zs) = decode_units (x # ys)"
proof (cases "first_size x \<le> length (x # ys)")
  case True
  have nth: "(ys @ zs) ! i = ys ! i" if "i + 2 \<le> first_size x" for i
    using that True by (simp add: nth_append)
  consider "first_size x = 1" | "first_size x = 2" | "first_size x = 3" | "first_size x = 4"
    using first_size_values[of x] by blast
  then show ?thesis
    by cases (use True nth[of 0] nth[of 1] nth[of 2] in \<open>auto simp: decode_units_def Suc_le_eq\<close>)
next
  case False
  then have ys: "ys \<noteq> []" "first_size x \<noteq> 1"
    and bad: "\<not> accept_range x (ys ! 0) \<or> (2 \<le> length ys \<and> \<not> cont_byte (ys ! 1))"
    using assms by auto
  have "(ys @ zs) ! 0 = ys ! 0" using ys by (simp add: nth_append)
  moreover have "(ys @ zs) ! 1 = ys ! 1" if "2 \<le> length ys" using that by (simp add: nth_append)
  moreover have "first_size x \<noteq> 2" using False ys by (cases ys) auto
  ultimately show ?thesis using False ys bad by (auto simp: decode_units_def)
qed

lemma DecodeRune_prefix:
  assumes "FullRune u \<or> UTFMax \<le> length u"
  shows "DecodeRune (u @ v) = DecodeRune u"
proof (cases u)
  case Nil
  then show ?thesis using assms by (simp add: FullRune_def UTFMax_def)
next
  case (Cons x ys)
  let ?ys = "map unat ys"
  have "first_size (unat x) \<le> length (unat x # ?ys) \<or>
      (?ys \<noteq> [] \<and> (\<not> accept_range (unat x) (?ys ! 0) \<or> (2 \<le> length ?ys \<and> \<not> cont_byte (?ys ! 1))))"
    using assms first_size_values[of "unat x"]
    by (auto simp: Cons FullRune_def UTFMax_def split: list.splits if_splits)
  from decode_units_prefix[OF this, of "map unat v"] show ?thesis
    by (simp add: DecodeRune_def Cons)
qed

context io_reader_eof
begin

lemma rune_loop_eof:
  assumes "Reader_inv_eof ok pending b" and "int UTFMax \<le> Reader_Size b"
  shows "go_returns (Reader_rune_loop rdf b) (\<lambda>b'.
    Reader_inv_eof ok pending b' \<and> Reader_contents pending b' = Reader_contents pending b \<and>
    DecodeRune (Reader_unread b') = DecodeRune (Reader_contents pending b) \<and>
    (Reader_unread b' = [] \<longrightarrow> Reader_contents pending b = []) \<and>
    (Reader_unread b' = [] \<longrightarrow> r_err b' = Some EOF))"
  using assms
proof (induction b rule: measure_induct_rule[of fill_measure])
  case (less b)
  let ?u = "Reader_unread b"
  have inv: "Reader_inv ok b" and wf: "Reader_wf b"
    using less.prems(1) by (simp_all add: Reader_inv_eof_def Reader_inv_def)
  have len: "length ?u = r_w b - r_r b" "r_r b \<le> r_w b"
    using wf length_Reader_unread[OF wf] by (auto simp: Reader_wf_def)
  have stop: ?case if "Reader_rune_loop rdf b = Inr b"
      "UTFMax \<le> length ?u \<or> FullRune ?u \<or> r_err b \<noteq> None"
  proof -
    have "DecodeRune (Reader_contents pending b) = DecodeRune ?u" if "UTFMax \<le> length ?u \<or> FullRune ?u"
      using DecodeRune_prefix[of ?u "pending (r_rd b)"] that by (auto simp: Reader_contents_def)
    moreover have "Reader_contents pending b = ?u" if "r_err b \<noteq> None"
      using less.prems(1) that by (simp add: Reader_contents_def Reader_inv_eof_def)
    moreover have "?u \<noteq> []" if "UTFMax \<le> length ?u \<or> FullRune ?u"
      using that by (auto simp: FullRune_def UTFMax_def)
    ultimately show ?thesis
      using that less.prems(1) by (auto simp: Reader_inv_eof_def)
  qed
  consider (many) "\<not> r_w b < r_r b + UTFMax"
    | (full) "r_w b < r_r b + UTFMax" "FullRune ?u \<or> r_err b \<noteq> None"
    | (fill) "r_w b < r_r b + UTFMax" "\<not> FullRune ?u" "r_err b = None" by blast
  then show ?case
  proof cases
    case many
    then have "UTFMax \<le> length ?u" using len by simp
    then show ?thesis using many by (intro stop) (simp_all add: Reader_rune_loop.simps[of rdf b])
  next
    case full
    then show ?thesis using wf by (intro stop) (auto simp: Reader_rune_loop.simps[of rdf b])
  next
    case fill
    have room: "Reader_Buffered b < int (length (r_buf b))"
      using fill(1) less.prems(2) len by (simp add: Reader_Buffered_def Reader_Size_def)
    then obtain b1 where b1: "Reader_fill rdf b = Inr b1" "Reader_inv ok b1"
        "Reader_contents pending b1 = Reader_contents pending b"
      using fill_ok[OF inv] by blast
    have "Reader_rune_loop rdf b = Reader_rune_loop rdf b1"
      using fill wf room b1(1) by (simp add: Reader_rune_loop.simps[of rdf b])
    moreover have "int UTFMax \<le> Reader_Size b1"
      using less.prems(2) Reader_fill_frame[OF b1(1)] by (simp add: Reader_Size_def)
    ultimately show ?thesis
      using less.IH[OF fill_measure_less[OF b1(1) fill(3)] fill_eof[OF less.prems(1) b1(1)]] b1(3)
      by simp
  qed
qed

lemma readRune_eof:
  assumes "Reader_inv_eof ok pending b" and "int UTFMax \<le> Reader_Size b"
  shows "go_returns (Reader_ReadRune rdf b) (\<lambda>(r, sz, e, b').
    Reader_inv_eof ok pending b' \<and>
    (if Reader_contents pending b = [] then e = Some EOF
     else e = None \<and> (r, sz) = DecodeRune (Reader_contents pending b) \<and>
       Reader_contents pending b' = drop sz (Reader_contents pending b) \<and>
       (case Reader_UnreadRune b' of (e2, b2) \<Rightarrow>
          e2 = None \<and> Reader_inv_eof ok pending b2 \<and>
          Reader_contents pending b2 = Reader_contents pending b)))"
proof -
  obtain b0 where b0: "Reader_rune_loop rdf b = Inr b0" "Reader_inv_eof ok pending b0"
      "Reader_contents pending b0 = Reader_contents pending b"
      "DecodeRune (Reader_unread b0) = DecodeRune (Reader_contents pending b)"
      "Reader_unread b0 = [] \<longrightarrow> Reader_contents pending b = []"
      "Reader_unread b0 = [] \<longrightarrow> r_err b0 = Some EOF"
    using rune_loop_eof[OF assms] by (auto elim: go_returnsE)
  let ?u = "Reader_unread b0"
  let ?b1 = "b0\<lparr>r_lastRuneSize := -1\<rparr>"
  have wf: "Reader_wf b0" and inv: "Reader_inv ok b0"
    using b0(2) by (simp_all add: Reader_inv_eof_def Reader_inv_def)
  have wf1: "Reader_wf ?b1" using wf by (simp add: Reader_wf_def)
  show ?thesis
  proof (cases "?u = []")
    case True
    have "Reader_inv_eof ok pending (?b1\<lparr>r_err := None\<rparr>)"
      using b0(2) by (simp add: Reader_inv_eof_def Reader_inv_def Reader_wf_def)
    then show ?thesis
      using True b0 wf by (simp add: Reader_ReadRune_def Let_def Reader_unread_empty Reader_readErr_def)
  next
    case False
    obtain r sz where d: "DecodeRune ?u = (r, sz)" by (metis surj_pair)
    have sz: "1 \<le> sz" "sz \<le> length ?u" using DecodeRune_size[OF False d] by auto
    have ne: "r_r b0 \<noteq> r_w b0" using False wf by (simp add: Reader_unread_empty)
    have len: "length ?u = r_w b0 - r_r b0" "r_w b0 \<le> length (r_buf b0)"
      using wf length_Reader_unread[OF wf] by (auto simp: Reader_wf_def)
    have hd: "gindex (r_buf b0) (int (r_r b0)) = Inr (hd ?u)"
      using ne wf Reader_unread_Cons[of b0] by (auto simp: gindex_def Reader_wf_def)
    have "r = unat (hd ?u) \<and> sz = 1" if "unat (hd ?u) < RuneSelf"
      using d that False by (cases ?u) (auto simp: DecodeRune_def decode_units_def)
    note ascii = this
    have "r_r b0 + sz \<le> length (r_buf b0)" using sz len ne wf by (auto simp: Reader_wf_def)
    then obtain l where l: "gindex (r_buf b0) (int (r_r b0 + sz) - 1) = Inr l"
      using sz(1) by (auto simp: gindex_def simp del: of_nat_add)
    let ?b2 = "b0\<lparr>r_r := r_r b0 + sz, r_lastByte := uint l, r_lastRuneSize := int sz\<rparr>"
    have res: "Reader_ReadRune rdf b = Inr (r, sz, None, ?b2)"
    proof (cases "RuneSelf \<le> unat (hd ?u)")
      case True
      then show ?thesis using b0(1) ne hd d l wf by (simp add: Reader_ReadRune_def Let_def)
    next
      case False
      then show ?thesis using b0(1) ne hd ascii l by (simp add: Reader_ReadRune_def Let_def)
    qed
    have inv2: "Reader_inv_eof ok pending ?b2"
      using b0(2) sz len by (auto simp: Reader_inv_eof_def Reader_inv_def Reader_wf_def byte_bounds)
    have "Reader_contents pending ?b2 = drop sz (Reader_contents pending b)"
      using Reader_contents_drop(1)[of sz b0 pending] sz b0(3) by simp
    moreover have "Reader_contents pending b \<noteq> []"
      using False b0(3) by (auto simp: Reader_contents_def)
    moreover have "Reader_UnreadRune ?b2 = (None, b0\<lparr>r_lastByte := -1, r_lastRuneSize := -1\<rparr>)"
      by (simp add: Reader_UnreadRune_def)
    moreover have "Reader_inv_eof ok pending (b0\<lparr>r_lastByte := -1, r_lastRuneSize := -1\<rparr>)"
      using b0(2) by (simp add: Reader_inv_eof_def Reader_inv_def Reader_wf_def)
    ultimately show ?thesis
      using res inv2 b0(3,4) d by simp
  qed
qed

end

subsection \<open>WriteTo\<close>

context io_copy
begin

lemma writeBuf_ok:
  assumes "Reader_inv_eof ok pending b" and "wok w"
  obtains n e w1 where
    "Reader_writeBuf wrf b w = Inr (int n, e, b\<lparr>r_r := r_r b + n\<rparr>, w1)"
    "n \<le> length (Reader_unread b)" "wok w1" "sink w1 = sink w @ take n (Reader_unread b)"
    "Reader_inv_eof ok pending (b\<lparr>r_r := r_r b + n\<rparr>)"
    "n < length (Reader_unread b) \<Longrightarrow> e \<noteq> None"
proof -
  have wf: "Reader_wf b" and inv: "Reader_inv ok b"
    using assms(1) by (simp_all add: Reader_inv_eof_def Reader_inv_def)
  obtain w1 n e where wr: "wrf w (Reader_unread b) = (w1, n, e)" by (metis prod_cases3)
  have c: "wok w1" "0 \<le> n" "n \<le> int (length (Reader_unread b))"
      "sink w1 = sink w @ take (nat n) (Reader_unread b)"
      "n < int (length (Reader_unread b)) \<longrightarrow> e \<noteq> None"
    using wr.wr_contract[OF assms(2) wr] by auto
  have "nat n \<le> length (Reader_unread b)" using c(2,3) by linarith
  then show ?thesis
    using that[of "nat n" e w1] wr c wf assms(1) inv_advance[OF inv]
    by (auto simp: Reader_writeBuf_def Reader_inv_eof_def)
qed

lemma writeTo_loop_ok:
  assumes "Reader_inv_eof ok pending b" and "wok w" and "Reader_unread b = [] \<longrightarrow> r_err b \<noteq> None"
  shows "go_ends (Reader_writeTo_loop rdf wrf n b w) (\<lambda>(n', e, b', w'). \<exists>k.
    n' = n + int k \<and> Reader_inv_eof ok pending b' \<and> wok w' \<and> k \<le> length (Reader_contents pending b) \<and>
    sink w' = sink w @ take k (Reader_contents pending b) \<and>
    Reader_contents pending b' = drop k (Reader_contents pending b) \<and>
    (e = None \<longrightarrow> Reader_contents pending b' = []))"
  using assms
proof (induction "length (Reader_contents pending b)" arbitrary: n b w rule: less_induct)
  case less
  have wf: "Reader_wf b" using less.prems(1) by (simp add: Reader_inv_eof_def Reader_inv_def)
  show ?case
  proof (cases "Reader_unread b = []")
    case True
    then have "\<not> r_r b < r_w b" using wf by (simp add: Reader_unread_empty)
    moreover have "Reader_inv_eof ok pending (b\<lparr>r_err := None\<rparr>)"
      using less.prems(1) by (simp add: Reader_inv_eof_def Reader_inv_def Reader_wf_def)
    moreover have "r_err b = Some EOF" "Reader_contents pending b = []"
      using less.prems(1,3) True by (auto simp: Reader_inv_eof_def Reader_contents_def)
    ultimately show ?thesis using less.prems(2)
      by (subst Reader_writeTo_loop.simps) (simp add: Reader_readErr_def)
  next
    case False
    then have lt: "r_r b < r_w b" using wf by (auto simp: Reader_unread_empty Reader_wf_def)
    obtain m e w1 where wb: "Reader_writeBuf wrf b w = Inr (int m, e, b\<lparr>r_r := r_r b + m\<rparr>, w1)"
      "m \<le> length (Reader_unread b)" "wok w1" "sink w1 = sink w @ take m (Reader_unread b)"
      "Reader_inv_eof ok pending (b\<lparr>r_r := r_r b + m\<rparr>)"
      "m < length (Reader_unread b) \<Longrightarrow> e \<noteq> None"
      using writeBuf_ok[OF less.prems(1,2)] by blast
    let ?b1 = "b\<lparr>r_r := r_r b + m\<rparr>"
    note drop1 = Reader_contents_drop[OF wb(2), of pending]
    have tk: "take m (Reader_unread b) = take m (Reader_contents pending b)"
      using wb(2) by (simp add: Reader_contents_def)
    show ?thesis
    proof (cases e)
      case (Some x)
      then show ?thesis using lt wb drop1 tk
        by (subst Reader_writeTo_loop.simps) (auto intro!: exI[of _ m])
    next
      case None
      then have m: "m = length (Reader_unread b)" using wb(2,6) by force
      have wf1: "Reader_wf ?b1" using wb(5) by (simp add: Reader_inv_eof_def Reader_inv_def)
      have "Reader_unread ?b1 = []" using m by (simp add: Reader_unread_advance)
      then have "Reader_Buffered ?b1 < int (length (r_buf ?b1))"
        using wf1 by (simp add: Reader_Buffered_unread) (simp add: Reader_wf_def)
      then obtain b2 where b2: "Reader_fill rdf ?b1 = Inr b2"
          "Reader_contents pending b2 = Reader_contents pending ?b1"
        using fill_ok[OF Reader_inv_eof_inv[OF wb(5)]] by blast
      have inv2: "Reader_inv_eof ok pending b2" using fill_eof[OF wb(5) b2(1)] .
      have next2: "Reader_unread b2 = [] \<longrightarrow> r_err b2 \<noteq> None"
        using Reader_fill_frame[OF b2(1)] Reader_Buffered_unread[of b2] Reader_Buffered_unread[OF wf1] inv2
        by (auto simp: Reader_inv_eof_def Reader_inv_def)
      have cont2: "Reader_contents pending b2 = drop m (Reader_contents pending b)"
        using b2(2) drop1 by simp
      have "length (Reader_contents pending b2) < length (Reader_contents pending b)"
        using cont2 m False drop1(2) by (cases "Reader_unread b") auto
      from less.hyps[OF this inv2 wb(3) next2, of "n + int m"]
      obtain k e' b' w' where l: "Reader_writeTo_loop rdf wrf (n + int m) b2 w1
            = Some (Inr (n + int m + int k, e', b', w'))"
          "Reader_inv_eof ok pending b'" "wok w'" "k \<le> length (Reader_contents pending b2)"
          "sink w' = sink w1 @ take k (Reader_contents pending b2)"
          "Reader_contents pending b' = drop k (Reader_contents pending b2)"
          "e' = None \<longrightarrow> Reader_contents pending b' = []"
        by (auto elim!: go_endsE)
      have "Reader_writeTo_loop rdf wrf n b w = Some (Inr (n + int m + int k, e', b', w'))"
        using lt wb(1) None b2(1) l(1) by (subst Reader_writeTo_loop.simps) simp
      moreover have "sink w' = sink w @ take (m + k) (Reader_contents pending b)"
        using l(5) wb(4) tk cont2 by (simp add: take_add)
      moreover have "m + k \<le> length (Reader_contents pending b)" using l(4) cont2 drop1(2) by simp
      ultimately show ?thesis
        using l(2,3,6,7) cont2 by (auto intro!: exI[of _ "m + k"] simp: add.commute)
    qed
  qed
qed

lemma writeTo_ok:
  assumes "Reader_inv_eof ok pending b" and "wok w"
  shows "go_ends (Reader_WriteTo rdf wrf None None b w) (\<lambda>(n, e, b', w'). \<exists>k.
    n = int k \<and> Reader_inv_eof ok pending b' \<and> wok w' \<and> k \<le> length (Reader_contents pending b) \<and>
    sink w' = sink w @ take k (Reader_contents pending b) \<and>
    Reader_contents pending b' = drop k (Reader_contents pending b) \<and>
    (e = None \<longrightarrow> Reader_contents pending b' = []))"
proof -
  let ?b0 = "b\<lparr>r_lastByte := -1, r_lastRuneSize := -1\<rparr>"
  have inv0: "Reader_inv_eof ok pending ?b0"
    using assms(1) by (simp add: Reader_inv_eof_def Reader_inv_def Reader_wf_def)
  obtain m e w1 where wb: "Reader_writeBuf wrf ?b0 w = Inr (int m, e, ?b0\<lparr>r_r := r_r ?b0 + m\<rparr>, w1)"
    "m \<le> length (Reader_unread ?b0)" "wok w1" "sink w1 = sink w @ take m (Reader_unread ?b0)"
    "Reader_inv_eof ok pending (?b0\<lparr>r_r := r_r ?b0 + m\<rparr>)"
    "m < length (Reader_unread ?b0) \<Longrightarrow> e \<noteq> None"
    using writeBuf_ok[OF inv0 assms(2)] by blast
  let ?b1 = "?b0\<lparr>r_r := r_r ?b0 + m\<rparr>"
  have cont1: "Reader_contents pending ?b1 = drop m (Reader_contents pending b)"
      "m \<le> length (Reader_contents pending b)"
    using Reader_contents_drop[OF wb(2), of pending] by simp_all
  have sink1: "sink w1 = sink w @ take m (Reader_contents pending b)"
    using wb(2,4) by (simp add: Reader_contents_def)
  have wf1: "Reader_wf ?b1" using wb(5) by (simp add: Reader_inv_eof_def Reader_inv_def)
  show ?thesis
  proof (cases e)
    case (Some x)
    then show ?thesis using wb cont1 sink1 by (auto simp: Reader_WriteTo_def intro!: exI[of _ m])
  next
    case None
    obtain b2 where b2: "Reader_WriteTo rdf wrf None None b w = Reader_writeTo_loop rdf wrf (int m) b2 w1"
        "Reader_inv_eof ok pending b2" "Reader_contents pending b2 = Reader_contents pending ?b1"
        "Reader_unread b2 = [] \<longrightarrow> r_err b2 \<noteq> None"
    proof (cases "Reader_Buffered ?b1 < int (length (r_buf ?b1))")
      case True
      then obtain b2 where b2: "Reader_fill rdf ?b1 = Inr b2"
          "Reader_contents pending b2 = Reader_contents pending ?b1"
        using fill_ok[OF Reader_inv_eof_inv[OF wb(5)]] by blast
      have inv2: "Reader_inv_eof ok pending b2" using fill_eof[OF wb(5) b2(1)] .
      have "Reader_unread b2 = [] \<longrightarrow> r_err b2 \<noteq> None"
        using Reader_fill_frame[OF b2(1)] Reader_Buffered_unread[of b2] Reader_Buffered_unread[OF wf1] inv2
        by (auto simp: Reader_inv_eof_def Reader_inv_def)
      then show ?thesis using that[of b2] True wb(1) None b2 inv2
        by (simp add: Reader_WriteTo_def)
    next
      case False
      then have "Reader_unread ?b1 \<noteq> []"
        using wf1 by (auto simp: Reader_Buffered_unread) (auto simp: Reader_wf_def)
      then show ?thesis using that[of ?b1] False wb None by (simp add: Reader_WriteTo_def)
    qed
    obtain n' e' b' w' k where l: "Reader_writeTo_loop rdf wrf (int m) b2 w1 = Some (Inr (n', e', b', w'))"
        "n' = int m + int k" "Reader_inv_eof ok pending b'" "wok w'" "k \<le> length (Reader_contents pending b2)"
        "sink w' = sink w1 @ take k (Reader_contents pending b2)"
        "Reader_contents pending b' = drop k (Reader_contents pending b2)"
        "e' = None \<longrightarrow> Reader_contents pending b' = []"
      using writeTo_loop_ok[OF b2(2) wb(3) b2(4), of "int m"] by (auto elim!: go_endsE)
    have "sink w' = sink w @ take (m + k) (Reader_contents pending b)"
      using l(6) sink1 b2(3) cont1(1) by (simp add: take_add)
    then show ?thesis
      using l b2(1,3) cont1 by (auto intro!: exI[of _ "m + k"] simp: add.commute)
  qed
qed

end

end
