(* ===== verification/Bufio_Writer.thy ===== *)
theory Bufio_Writer
  imports Io Utf8
begin

section \<open>bufiox.Writer: state and operations\<close>

text \<open>
  The buffered writer of \<open>rivetxcore/bufiox/bufio.go\<close>. The client's \<open>io.Writer\<close> is the parameter
  \<open>wrf\<close>; nothing is assumed of it in the definitions, so \<open>n\<close> is an \<open>int\<close> that a writer with a
  wrong count can drive out of the buffer, and slicing with it panics as in the code. The loops of
  \<open>Write\<close>, \<open>WriteString\<close> and \<open>ReadFrom\<close> end only if the writer keeps its contract:
  they are \<open>partial_function\<close>s, and \<open>None\<close> is the call that never returns.
\<close>

record 'w Writer =
  w_err :: "goerr option"
  w_buf :: "byte list"
  w_n :: int
  w_wr :: 'w

definition w_defaultBufSize :: int where "w_defaultBufSize = 4096"

text \<open>\<open>NewWriterSize\<close> on a writer that is not a \<open>*Writer\<close>, and on one that is.\<close>

definition NewWriterSize :: "'w \<Rightarrow> int \<Rightarrow> 'w Writer" where
  "NewWriterSize w sz =
     (let sz' = (if sz \<le> 0 then w_defaultBufSize else sz)
      in \<lparr>w_err = None, w_buf = replicate (nat sz') 0, w_n = 0, w_wr = w\<rparr>)"

definition NewWriterSize_of_Writer :: "'w Writer \<Rightarrow> int \<Rightarrow> 'w Writer + 'w Writer Writer" where
  "NewWriterSize_of_Writer b sz =
     (if sz \<le> int (length (w_buf b)) then Inl b else Inr (NewWriterSize b sz))"

definition NewWriter :: "'w \<Rightarrow> 'w Writer" where
  "NewWriter w = NewWriterSize w w_defaultBufSize"

definition Writer_Size :: "'w Writer \<Rightarrow> int" where
  "Writer_Size b = int (length (w_buf b))"

definition Writer_readErr :: "'w Writer \<Rightarrow> goerr option \<times> 'w Writer" where
  "Writer_readErr b = (w_err b, b\<lparr>w_err := None\<rparr>)"

definition Writer_ResetErr :: "'w Writer \<Rightarrow> goerr option \<times> 'w Writer" where
  "Writer_ResetErr b = Writer_readErr b"

text \<open>The argument of \<open>Reset\<close> is the writer itself (\<open>None\<close>) or another writer.\<close>

definition Writer_Reset :: "'w Writer \<Rightarrow> 'w option \<Rightarrow> 'w Writer" where
  "Writer_Reset b w =
     (case w of
        None \<Rightarrow> b
      | Some x \<Rightarrow>
          b\<lparr>w_buf := (if w_buf b = [] then replicate (nat w_defaultBufSize) 0 else w_buf b),
            w_err := None, w_n := 0, w_wr := x\<rparr>)"

definition Writer_Available :: "'w Writer \<Rightarrow> int" where
  "Writer_Available b = int (length (w_buf b)) - w_n b"

definition Writer_Buffered :: "'w Writer \<Rightarrow> int" where
  "Writer_Buffered b = w_n b"

text \<open>\<open>AvailableBuffer\<close>: an empty slice with the capacity of the free room; the model returns
  the capacity.\<close>

definition Writer_AvailableBuffer :: "'w Writer \<Rightarrow> int go" where
  "Writer_AvailableBuffer b =
     (case gslice (w_buf b) (w_n b) (int (length (w_buf b))) of
        Inl p \<Rightarrow> Inl p
      | Inr xs \<Rightarrow> Inr (int (length xs)))"

subsection \<open>Flush\<close>

definition Writer_Flush :: "'w wr_fun \<Rightarrow> 'w Writer \<Rightarrow> (goerr option \<times> 'w Writer) go" where
  "Writer_Flush wrf b =
     (if w_err b \<noteq> None then Inr (w_err b, b)
      else if w_n b = 0 then Inr (None, b)
      else
        (case gslice (w_buf b) 0 (w_n b) of
           Inl p \<Rightarrow> Inl p
         | Inr xs \<Rightarrow>
             (case wrf (w_wr b) xs of
                (w, n, err0) \<Rightarrow>
                  let b1 = b\<lparr>w_wr := w\<rparr>;
                      err = (if n < w_n b \<and> err0 = None then Some ErrShortWrite else err0)
                  in if err \<noteq> None then
                       (if 0 < n \<and> n < w_n b then
                          (case gslice (w_buf b1) n (w_n b1) of
                             Inl p \<Rightarrow> Inl p
                           | Inr ys \<Rightarrow>
                               Inr (err, b1\<lparr>w_buf := overwrite (w_buf b1) 0 ys,
                                             w_n := w_n b1 - n, w_err := err\<rparr>))
                        else Inr (err, b1\<lparr>w_n := w_n b1 - n, w_err := err\<rparr>))
                     else Inr (None, b1\<lparr>w_n := 0\<rparr>))))"

text \<open>\<open>n = copy(b.buf[b.n:], p); b.n += n\<close>\<close>

definition Writer_copy_in :: "byte list \<Rightarrow> 'w Writer \<Rightarrow> (int \<times> 'w Writer) go" where
  "Writer_copy_in p b =
     (case gslice (w_buf b) (w_n b) (int (length (w_buf b))) of
        Inl x \<Rightarrow> Inl x
      | Inr dst \<Rightarrow>
          let n = int (min (length dst) (length p))
          in Inr (n, b\<lparr>w_buf := overwrite (w_buf b) (nat (w_n b)) p, w_n := w_n b + n\<rparr>))"

subsection \<open>Write and WriteString\<close>

partial_function (option) Writer_write_loop ::
  "'w wr_fun \<Rightarrow> int \<Rightarrow> byte list \<Rightarrow> 'w Writer \<Rightarrow> (int \<times> byte list \<times> 'w Writer) go option" where
  "Writer_write_loop wrf nn p b =
     (if Writer_Available b < int (length p) \<and> w_err b = None then
        (case (if Writer_Buffered b = 0 then
                 \<comment> \<open>large write, empty buffer: write directly from p\<close>
                 (case wrf (w_wr b) p of (w, n, e) \<Rightarrow> Inr (n, b\<lparr>w_wr := w, w_err := e\<rparr>))
               else
                 (case Writer_copy_in p b of
                    Inl x \<Rightarrow> Inl x
                  | Inr (n, b1) \<Rightarrow>
                      (case Writer_Flush wrf b1 of Inl x \<Rightarrow> Inl x | Inr (_, b2) \<Rightarrow> Inr (n, b2)))) of
           Inl x \<Rightarrow> Some (Inl x)
         | Inr (n, b1) \<Rightarrow>
             (case gslice p n (int (length p)) of
                Inl x \<Rightarrow> Some (Inl x)
              | Inr p1 \<Rightarrow> Writer_write_loop wrf (nn + n) p1 b1))
      else Some (Inr (nn, p, b)))"

declare Writer_write_loop.simps [code]

definition Writer_finish :: "int \<Rightarrow> byte list \<Rightarrow> 'w Writer \<Rightarrow> (int \<times> goerr option \<times> 'w Writer) go" where
  "Writer_finish nn p b =
     (if w_err b \<noteq> None then Inr (nn, w_err b, b)
      else (case Writer_copy_in p b of Inl x \<Rightarrow> Inl x | Inr (n, b1) \<Rightarrow> Inr (nn + n, None, b1)))"

definition Writer_Write ::
  "'w wr_fun \<Rightarrow> byte list \<Rightarrow> 'w Writer \<Rightarrow> (int \<times> goerr option \<times> 'w Writer) go option" where
  "Writer_Write wrf p b =
     (case Writer_write_loop wrf 0 p b of
        None \<Rightarrow> None
      | Some (Inl x) \<Rightarrow> Some (Inl x)
      | Some (Inr (nn, p1, b1)) \<Rightarrow> Some (Writer_finish nn p1 b1))"

text \<open>
  \<open>WriteString\<close> asks at most once whether the writer is an \<open>io.StringWriter\<close> (\<open>swf\<close>). The
  flags are the locals \<open>sw != nil\<close> and \<open>tryStringWriter\<close>.
\<close>

partial_function (option) Writer_writeString_loop ::
  "'w wr_fun \<Rightarrow> 'w wr_fun option \<Rightarrow> bool \<Rightarrow> bool \<Rightarrow> int \<Rightarrow> byte list \<Rightarrow> 'w Writer \<Rightarrow>
     (int \<times> byte list \<times> 'w Writer) go option" where
  "Writer_writeString_loop wrf swf sw try nn s b =
     (if Writer_Available b < int (length s) \<and> w_err b = None then
        let asks = (Writer_Buffered b = 0 \<and> \<not> sw \<and> try);
            sw' = (if asks then swf \<noteq> None else sw);
            try' = (if asks then swf \<noteq> None else try)
        in (case (if Writer_Buffered b = 0 \<and> try' then
                    (case swf of
                       None \<Rightarrow> Inl NilDeref
                     | Some f \<Rightarrow>
                         (case f (w_wr b) s of (w, n, e) \<Rightarrow> Inr (n, b\<lparr>w_wr := w, w_err := e\<rparr>)))
                  else
                    (case Writer_copy_in s b of
                       Inl x \<Rightarrow> Inl x
                     | Inr (n, b1) \<Rightarrow>
                         (case Writer_Flush wrf b1 of Inl x \<Rightarrow> Inl x | Inr (_, b2) \<Rightarrow> Inr (n, b2)))) of
              Inl x \<Rightarrow> Some (Inl x)
            | Inr (n, b1) \<Rightarrow>
                (case gslice s n (int (length s)) of
                   Inl x \<Rightarrow> Some (Inl x)
                 | Inr s1 \<Rightarrow> Writer_writeString_loop wrf swf sw' try' (nn + n) s1 b1))
      else Some (Inr (nn, s, b)))"

definition Writer_WriteString ::
  "'w wr_fun \<Rightarrow> 'w wr_fun option \<Rightarrow> byte list \<Rightarrow> 'w Writer \<Rightarrow>
     (int \<times> goerr option \<times> 'w Writer) go option" where
  "Writer_WriteString wrf swf s b =
     (case Writer_writeString_loop wrf swf False True 0 s b of
        None \<Rightarrow> None
      | Some (Inl x) \<Rightarrow> Some (Inl x)
      | Some (Inr (nn, s1, b1)) \<Rightarrow> Some (Writer_finish nn s1 b1))"

subsection \<open>WriteByte and WriteRune\<close>

definition Writer_WriteByte ::
  "'w wr_fun \<Rightarrow> byte \<Rightarrow> 'w Writer \<Rightarrow> (goerr option \<times> 'w Writer) go" where
  "Writer_WriteByte wrf c b =
     (if w_err b \<noteq> None then Inr (w_err b, b)
      else
        (case (if Writer_Available b \<le> 0 then Writer_Flush wrf b else Inr (None, b)) of
           Inl p \<Rightarrow> Inl p
         | Inr (e, b1) \<Rightarrow>
             if e \<noteq> None then Inr (w_err b1, b1)
             else if 0 \<le> w_n b1 \<and> w_n b1 < int (length (w_buf b1)) then
               Inr (None, b1\<lparr>w_buf := (w_buf b1)[nat (w_n b1) := c], w_n := w_n b1 + 1\<rparr>)
             else Inl IndexRange))"

text \<open>\<open>r\<close> is the rune read as \<open>uint32\<close>; \<open>string(r)\<close> is its encoding.\<close>

definition Writer_WriteRune ::
  "'w wr_fun \<Rightarrow> 'w wr_fun option \<Rightarrow> nat \<Rightarrow> 'w Writer \<Rightarrow>
     (int \<times> goerr option \<times> 'w Writer) go option" where
  "Writer_WriteRune wrf swf r b =
     (if r < RuneSelf then
        Some (case Writer_WriteByte wrf (of_nat r) b of
                Inl p \<Rightarrow> Inl p
              | Inr (e, b1) \<Rightarrow> if e \<noteq> None then Inr (0, e, b1) else Inr (1, None, b1))
      else if w_err b \<noteq> None then Some (Inr (0, w_err b, b))
      else
        (case (if Writer_Available b < int UTFMax then Writer_Flush wrf b else Inr (None, b)) of
           Inl p \<Rightarrow> Some (Inl p)
         | Inr (_, b1) \<Rightarrow>
             if w_err b1 \<noteq> None then Some (Inr (0, w_err b1, b1))
             else if Writer_Available b1 < int UTFMax then
               Writer_WriteString wrf swf (EncodeRune r) b1
             else
               Some (case Writer_copy_in (EncodeRune r) b1 of
                       Inl p \<Rightarrow> Inl p
                     | Inr (n, b2) \<Rightarrow> Inr (int (length (EncodeRune r)), None, b2))))"

subsection \<open>ReadFrom\<close>

text \<open>The inner loop: up to \<open>maxConsecutiveEmptyReads\<close> reads that deliver nothing.\<close>

fun Writer_empty_reads ::
  "'s rd_fun \<Rightarrow> nat \<Rightarrow> nat \<Rightarrow> 's \<Rightarrow> (byte list \<times> int \<times> goerr option) option \<times> 's" where
  "Writer_empty_reads rdf 0 room s = (None, s)"
| "Writer_empty_reads rdf (Suc i) room s =
     (case rdf s room of (s', d, m, e) \<Rightarrow>
        if m \<noteq> 0 \<or> e \<noteq> None then (Some (d, m, e), s') else Writer_empty_reads rdf i room s')"

partial_function (option) Writer_readFrom_loop ::
  "'w wr_fun \<Rightarrow> ('w \<Rightarrow> 's \<Rightarrow> 'w \<times> 's \<times> int \<times> goerr option) option \<Rightarrow> 's rd_fun \<Rightarrow> int \<Rightarrow>
     'w Writer \<Rightarrow> 's \<Rightarrow> (int \<times> goerr option \<times> 'w Writer \<times> 's) go option" where
  "Writer_readFrom_loop wrf rff rdf n b s =
     (case (if Writer_Available b = 0 then Writer_Flush wrf b else Inr (None, b)) of
        Inl p \<Rightarrow> Some (Inl p)
      | Inr (e1, b1) \<Rightarrow>
          if e1 \<noteq> None then Some (Inr (n, e1, b1, s))
          else if rff \<noteq> None \<and> Writer_Buffered b1 = 0 then
            (case the rff (w_wr b1) s of
               (w, s1, nn, e) \<Rightarrow> Some (Inr (n + nn, e, b1\<lparr>w_wr := w, w_err := e\<rparr>, s1)))
          else
            (case gslice (w_buf b1) (w_n b1) (int (length (w_buf b1))) of
               Inl p \<Rightarrow> Some (Inl p)
             | Inr room \<Rightarrow>
                 (case Writer_empty_reads rdf 100 (length room) s of
                    (None, s1) \<Rightarrow> Some (Inr (n, Some ErrNoProgress, b1, s1))
                  | (Some (d, m, e), s1) \<Rightarrow>
                      let b2 = b1\<lparr>w_buf := overwrite (w_buf b1) (nat (w_n b1)) d, w_n := w_n b1 + m\<rparr>
                      in if e \<noteq> None then
                           (if e = Some EOF then
                              (if Writer_Available b2 = 0 then
                                 Some (case Writer_Flush wrf b2 of
                                         Inl p \<Rightarrow> Inl p
                                       | Inr (e2, b3) \<Rightarrow> Inr (n + m, e2, b3, s1))
                               else Some (Inr (n + m, None, b2, s1)))
                            else Some (Inr (n + m, e, b2, s1)))
                         else Writer_readFrom_loop wrf rff rdf (n + m) b2 s1)))"

text \<open>\<open>rff\<close> is the \<open>io.ReaderFrom\<close> of the underlying writer, where it has one.\<close>

definition Writer_ReadFrom ::
  "'w wr_fun \<Rightarrow> ('w \<Rightarrow> 's \<Rightarrow> 'w \<times> 's \<times> int \<times> goerr option) option \<Rightarrow> 's rd_fun \<Rightarrow>
     'w Writer \<Rightarrow> 's \<Rightarrow> (int \<times> goerr option \<times> 'w Writer \<times> 's) go option" where
  "Writer_ReadFrom wrf rff rdf b s =
     (if w_err b \<noteq> None then Some (Inr (0, w_err b, b, s))
      else Writer_readFrom_loop wrf rff rdf 0 b s)"

end
