(* ===== verification/Bufio_Writer_Spec.thy ===== *)
theory Bufio_Writer_Spec
  imports Bufio_Writer Bufio_Reader_Spec
begin

section \<open>bufiox.Writer: what it promises\<close>

text \<open>
  Over any \<open>io.Writer\<close> that keeps its contract (locale \<open>io_writer\<close>): no operation panics, every
  operation returns, and the stream \<open>Writer_out\<close> (what the underlying writer has taken, then what
  is buffered) is extended by exactly the bytes an operation reports, on the error paths too. The
  buffered writer is again an \<open>io_writer\<close>.
\<close>

definition Writer_wf :: "'w Writer \<Rightarrow> bool" where
  "Writer_wf b \<longleftrightarrow> 0 \<le> w_n b \<and> w_n b \<le> int (length (w_buf b)) \<and> w_buf b \<noteq> []"

definition Writer_inv :: "('w \<Rightarrow> bool) \<Rightarrow> 'w Writer \<Rightarrow> bool" where
  "Writer_inv ok b \<longleftrightarrow> Writer_wf b \<and> ok (w_wr b)"

definition Writer_pending :: "'w Writer \<Rightarrow> byte list" where
  "Writer_pending b = take (nat (w_n b)) (w_buf b)"

definition Writer_out :: "('w \<Rightarrow> byte list) \<Rightarrow> 'w Writer \<Rightarrow> byte list" where
  "Writer_out sink b = sink (w_wr b) @ Writer_pending b"

lemma NewWriterSize_inv:
  assumes "ok w"
  shows "Writer_inv ok (NewWriterSize w sz)"
    and "Writer_out sink (NewWriterSize w sz) = sink w"
    and "Writer_Size (NewWriterSize w sz) = (if sz \<le> 0 then 4096 else sz)"
    and "w_err (NewWriterSize w sz) = None"
  using assms
  by (auto simp: NewWriterSize_def Writer_inv_def Writer_wf_def Writer_out_def Writer_pending_def
      Writer_Size_def w_defaultBufSize_def Let_def)

lemma Writer_inv_Available:
  "Writer_inv ok b \<Longrightarrow> 0 \<le> Writer_Available b \<and> Writer_Available b \<le> Writer_Size b \<and> 0 < Writer_Size b"
  by (auto simp: Writer_inv_def Writer_wf_def Writer_Available_def Writer_Size_def)

text \<open>\<open>copy\<close> into the free room: the buffered bytes grow by what was copied.\<close>

lemma copy_in_ok:
  assumes "Writer_inv ok b"
  shows "go_returns (Writer_copy_in p b) (\<lambda>(n, b').
    Writer_inv ok b' \<and> n = min (Writer_Available b) (int (length p)) \<and>
    Writer_out sink b' = Writer_out sink b @ take (nat n) p \<and>
    w_n b' = w_n b + n \<and> w_err b' = w_err b \<and> Writer_Size b' = Writer_Size b \<and> w_wr b' = w_wr b)"
proof -
  obtain k where k: "w_n b = int k" "k \<le> length (w_buf b)" and ne: "w_buf b \<noteq> []" and ok: "ok (w_wr b)"
    using assms by (auto simp: Writer_inv_def Writer_wf_def dest!: zero_le_imp_eq_int)
  let ?m = "min (length (w_buf b) - k) (length p)"
  have "take (k + ?m) (overwrite (w_buf b) k p) = take k (w_buf b) @ take ?m p"
    using k by (auto simp: overwrite_def min_def)
  then show ?thesis
    using k ne ok
    by (auto simp: Writer_copy_in_def gslice_nat Let_def Writer_inv_def Writer_wf_def Writer_out_def
        Writer_pending_def Writer_Available_def Writer_Size_def nat_add_distrib of_nat_diff
        simp flip: of_nat_add)
qed

text \<open>
  A turn of the loops of \<open>Write\<close> and \<open>WriteString\<close>: \<open>turn_ok\<close> is what both branches give.
  \<open>turns_left\<close> bounds the turns that are left.
\<close>

definition turns_left :: "byte list \<Rightarrow> 'x Writer \<Rightarrow> nat" where
  "turns_left p b = (if w_err b = None then 2 * length p + (if w_n b = 0 then 0 else 1) else 0)"

definition turn_ok :: "('w \<Rightarrow> bool) \<Rightarrow> ('w \<Rightarrow> byte list) \<Rightarrow> byte list \<Rightarrow> 'w Writer \<Rightarrow> int \<Rightarrow> 'w Writer \<Rightarrow> bool" where
  "turn_ok ok sink p b n b' \<longleftrightarrow>
     Writer_inv ok b' \<and> 0 \<le> n \<and> n \<le> int (length p) \<and> Writer_Size b' = Writer_Size b \<and>
     Writer_out sink b' = Writer_out sink b @ take (nat n) p \<and>
     (w_err b' = None \<longrightarrow> turns_left (drop (nat n) p) b' < turns_left p b)"

text \<open>What the loops leave: the bytes still to write, and room for them unless an error stopped.\<close>

definition write_loop_post ::
  "('w \<Rightarrow> bool) \<Rightarrow> ('w \<Rightarrow> byte list) \<Rightarrow> int \<Rightarrow> byte list \<Rightarrow> 'w Writer \<Rightarrow> int \<times> byte list \<times> 'w Writer \<Rightarrow> bool" where
  "write_loop_post ok sink nn p b = (\<lambda>(nn', p', b').
     Writer_inv ok b' \<and> Writer_Size b' = Writer_Size b \<and>
     nn' + int (length p') = nn + int (length p) \<and> length p' \<le> length p \<and>
     Writer_out sink b' @ p' = Writer_out sink b @ p \<and>
     (w_err b' = None \<longrightarrow> int (length p') \<le> Writer_Available b') \<and>
     (w_err b \<noteq> None \<longrightarrow> b' = b \<and> p' = p))"

text \<open>The contract of \<open>Write\<close> and \<open>WriteString\<close>.\<close>

definition write_post ::
  "('w \<Rightarrow> bool) \<Rightarrow> ('w \<Rightarrow> byte list) \<Rightarrow> byte list \<Rightarrow> 'w Writer \<Rightarrow> int \<times> goerr option \<times> 'w Writer \<Rightarrow> bool" where
  "write_post ok sink p b = (\<lambda>(nn, e, b').
     Writer_inv ok b' \<and> Writer_Size b' = Writer_Size b \<and> w_err b' = e \<and>
     0 \<le> nn \<and> nn \<le> int (length p) \<and>
     Writer_out sink b' = Writer_out sink b @ take (nat nn) p \<and>
     (nn < int (length p) \<longrightarrow> e \<noteq> None) \<and>
     (w_err b \<noteq> None \<longrightarrow> nn = 0 \<and> e = w_err b \<and> b' = b))"

context io_writer
begin

text \<open>
  \<open>Flush\<close> never loses or repeats a byte: on a failure the bytes the writer has not taken stay at
  the front of the buffer and the error is kept.
\<close>

lemma flush_ok:
  assumes "Writer_inv ok b"
  shows "go_returns (Writer_Flush wrf b) (\<lambda>(e, b').
    Writer_inv ok b' \<and> Writer_out sink b' = Writer_out sink b \<and> w_err b' = e \<and> Writer_Size b' = Writer_Size b \<and>
    (e = None \<longrightarrow> w_n b' = 0 \<and> sink (w_wr b') = Writer_out sink b) \<and>
    w_n b' \<le> w_n b \<and> (w_err b \<noteq> None \<longrightarrow> b' = b))"
proof (cases "w_err b \<noteq> None \<or> w_n b = 0")
  case True
  then show ?thesis using assms
    by (auto simp: Writer_Flush_def Writer_out_def Writer_pending_def)
next
  case False
  obtain k where k: "w_n b = int k" "k \<le> length (w_buf b)" and ne: "w_buf b \<noteq> []" and ok: "ok (w_wr b)"
    using assms by (auto simp: Writer_inv_def Writer_wf_def dest!: zero_le_imp_eq_int)
  let ?p = "take k (w_buf b)"
  obtain w n e where wr: "wrf (w_wr b) ?p = (w, n, e)" by (cases "wrf (w_wr b) ?p") auto
  have c: "ok w" "0 \<le> n" "n \<le> int k" "sink w = sink (w_wr b) @ take (nat n) ?p" "n < int k \<longrightarrow> e \<noteq> None"
    using wr_contract[OF ok wr] k by auto
  obtain m where m: "n = int m" "m \<le> k" using c(2,3) by (metis of_nat_le_iff zero_le_imp_eq_int)
  have s: "gslice (w_buf b) 0 (int k) = Inr ?p" using gslice_nat[of 0 k "w_buf b"] k by simp
  have s2: "gslice (w_buf b) (int m) (int k) = Inr (take (k - m) (drop m (w_buf b)))"
    using gslice_nat[of m k "w_buf b"] k m by simp
  have keep: "take (k - m) (overwrite (w_buf b) 0 (take (k - m) (drop m (w_buf b))))
      = take (k - m) (drop m (w_buf b))"
    using k m by (simp add: overwrite_def min_def)
  have split: "take m ?p @ take (k - m) (drop m (w_buf b)) = ?p"
    using m k by (metis add_diff_inverse_nat le_add_diff_inverse min.absorb2 not_less take_add take_take
        min.commute)
  show ?thesis
  proof (cases "e = None")
    case True
    then have "m = k" using c(5) m by simp
    then show ?thesis using False k ok ne c s m True wr
      by (simp add: Writer_Flush_def Writer_inv_def Writer_wf_def Writer_out_def Writer_pending_def
          Writer_Size_def Let_def)
  next
    case err: False
    show ?thesis
    proof (cases "0 < m \<and> m < k")
      case True
      then show ?thesis using False k ok ne c s s2 m err wr keep split
        by (simp add: Writer_Flush_def Writer_inv_def Writer_wf_def Writer_out_def
            Writer_pending_def Writer_Size_def Let_def flip: of_nat_diff) (auto simp: of_nat_diff)
    next
      case mk: False
      then have "m = 0 \<or> m = k" using m by auto
      then show ?thesis using False k ok ne c s m err wr mk
        by (auto simp: Writer_Flush_def Writer_inv_def Writer_wf_def Writer_out_def
            Writer_pending_def Writer_Size_def Let_def)
    qed
  qed
qed

lemma direct_turn:
  assumes "io_writer f ok sink" and inv: "Writer_inv ok b" and "w_n b = 0" "w_err b = None"
    and "Writer_Available b < int (length p)" and f: "f (w_wr b) p = (w, n, e)"
  shows "turn_ok ok sink p b n (b\<lparr>w_wr := w, w_err := e\<rparr>)"
proof -
  have "ok (w_wr b)" using inv by (simp add: Writer_inv_def)
  from io_writer.wr_contract[OF assms(1) this f]
  have c: "ok w" "0 \<le> n" "n \<le> int (length p)" "sink w = sink (w_wr b) @ take (nat n) p"
    "n < int (length p) \<longrightarrow> e \<noteq> None" by auto
  have "p \<noteq> []" using assms(5) Writer_inv_Available[OF inv] by auto
  then show ?thesis using c assms(3,4) inv
    by (auto simp: turn_ok_def turns_left_def Writer_inv_def Writer_wf_def Writer_out_def
        Writer_pending_def Writer_Size_def)
qed

lemma copy_turn:
  assumes inv: "Writer_inv ok b" and "w_err b = None" and av: "Writer_Available b < int (length p)"
  shows "go_returns (case Writer_copy_in p b of
       Inl x \<Rightarrow> Inl x
     | Inr (n, b1) \<Rightarrow>
         (case Writer_Flush wrf b1 of Inl x \<Rightarrow> Inl x | Inr (_, b2) \<Rightarrow> Inr (n, b2)))
    (\<lambda>(n, b2). turn_ok ok sink p b n b2)"
proof -
  obtain n b1 where 1: "Writer_copy_in p b = Inr (n, b1)" "Writer_inv ok b1"
    "n = min (Writer_Available b) (int (length p))"
    "Writer_out sink b1 = Writer_out sink b @ take (nat n) p" "w_n b1 = w_n b + n"
    "w_err b1 = w_err b" "Writer_Size b1 = Writer_Size b"
    by (rule go_returnsE[OF copy_in_ok[OF inv, of p sink]]) auto
  obtain e b2 where 2: "Writer_Flush wrf b1 = Inr (e, b2)" "Writer_inv ok b2"
    "Writer_out sink b2 = Writer_out sink b1" "w_err b2 = e" "Writer_Size b2 = Writer_Size b1"
    "e = None \<longrightarrow> w_n b2 = 0"
    by (rule go_returnsE[OF flush_ok[OF 1(2)]]) auto
  have n: "0 \<le> n" "n = Writer_Available b" "n < int (length p)"
    using Writer_inv_Available[OF inv] av 1(3) by auto
  have pos: "n = 0 \<Longrightarrow> w_n b \<noteq> 0"
    using n(2) inv by (auto simp: Writer_Available_def Writer_inv_def Writer_wf_def)
  have "w_err b2 = None \<longrightarrow> turns_left (drop (nat n) p) b2 < turns_left p b"
    using 2(4,6) n pos assms(2) by (cases "n = 0") (auto simp: turns_left_def)
  then show ?thesis using 1 2 n by (simp add: turn_ok_def)
qed

lemma write_loop_post_step:
  assumes "turn_ok ok sink p b n b1" and "w_err b = None"
    and "write_loop_post ok sink (nn + n) (drop (nat n) p) b1 r"
  shows "write_loop_post ok sink nn p b r"
  using assms by (auto simp: turn_ok_def write_loop_post_def)

lemma write_loop_ok:
  "Writer_inv ok b \<Longrightarrow> go_ends (Writer_write_loop wrf nn p b) (write_loop_post ok sink nn p b)"
proof (induction "turns_left p b" arbitrary: nn p b rule: less_induct)
  case less
  show ?case
  proof (cases "Writer_Available b < int (length p) \<and> w_err b = None")
    case False
    then show ?thesis using less.prems
      by (subst Writer_write_loop.simps) (auto simp: write_loop_post_def)
  next
    case True
    let ?turn = "if Writer_Buffered b = 0 then
        (case wrf (w_wr b) p of (w, n, e) \<Rightarrow> Inr (n, b\<lparr>w_wr := w, w_err := e\<rparr>))
      else (case Writer_copy_in p b of
               Inl x \<Rightarrow> Inl x
             | Inr (n, b1) \<Rightarrow>
                 (case Writer_Flush wrf b1 of Inl x \<Rightarrow> Inl x | Inr (_, b2) \<Rightarrow> Inr (n, b2)))"
    have "go_returns ?turn (\<lambda>(n, b1). turn_ok ok sink p b n b1)"
      using True direct_turn[OF io_writer_axioms less.prems, of p] copy_turn[OF less.prems, of p]
      by (auto simp: Writer_Buffered_def split: prod.splits)
    then obtain n b1 where t: "?turn = Inr (n, b1)" "turn_ok ok sink p b n b1"
      by (auto elim!: go_returnsE)
    have g: "gslice p n (int (length p)) = Inr (drop (nat n) p)"
      using t(2) by (simp add: turn_ok_def gslice_Inr)
    have "go_ends (Writer_write_loop wrf (nn + n) (drop (nat n) p) b1)
        (write_loop_post ok sink (nn + n) (drop (nat n) p) b1)"
    proof (cases "w_err b1 = None")
      case None: True
      then show ?thesis using less.hyps t(2) by (simp add: turn_ok_def)
    next
      case False
      then obtain x where "w_err b1 = Some x" by auto
      then show ?thesis using t(2)
        by (subst Writer_write_loop.simps) (simp add: write_loop_post_def turn_ok_def)
    qed
    then show ?thesis using True t g write_loop_post_step[OF t(2), of nn]
      by (subst Writer_write_loop.simps) (auto elim!: go_endsE)
  qed
qed

lemma finish_ok:
  assumes "write_loop_post ok sink 0 p b (nn, p', b')"
  shows "go_returns (Writer_finish nn p' b') (write_post ok sink p b)"
proof -
  have l: "Writer_inv ok b'" "Writer_Size b' = Writer_Size b" "nn + int (length p') = int (length p)"
    "length p' \<le> length p" "Writer_out sink b' @ p' = Writer_out sink b @ p"
    "w_err b' = None \<Longrightarrow> int (length p') \<le> Writer_Available b'"
    "w_err b \<noteq> None \<Longrightarrow> b' = b \<and> p' = p"
    using assms by (auto simp: write_loop_post_def)
  have nn: "nat nn = length p - length p'" "0 \<le> nn" "nn \<le> int (length p)" using l(3,4) by auto
  have "take (length (Writer_out sink b) + nat nn) (Writer_out sink b' @ p')
      = Writer_out sink b @ take (nat nn) p"
    by (simp add: l(5))
  moreover have "length (Writer_out sink b') = length (Writer_out sink b) + nat nn"
    using arg_cong[OF l(5), of length] nn l(4) by simp
  ultimately have out: "Writer_out sink b' = Writer_out sink b @ take (nat nn) p" by simp
  show ?thesis
  proof (cases "w_err b' = None")
    case False
    then show ?thesis using l nn out by (auto simp: Writer_finish_def write_post_def)
  next
    case True
    then have "min (Writer_Available b') (int (length p')) = int (length p')" using l(6) by simp
    with copy_in_ok[OF l(1), of p' sink] True l nn out show ?thesis
      by (auto simp: Writer_finish_def write_post_def elim!: go_returnsE)
  qed
qed

lemma write_ok:
  assumes "Writer_inv ok b"
  shows "go_ends (Writer_Write wrf p b) (write_post ok sink p b)"
  using write_loop_ok[OF assms, of 0 p] finish_ok[of p b]
  by (auto simp: Writer_Write_def elim!: go_endsE)

lemma writeString_loop_ok:
  assumes "\<And>f. swf = Some f \<Longrightarrow> io_writer f ok sink"
  shows "Writer_inv ok b \<Longrightarrow> (sw \<longrightarrow> swf \<noteq> None \<and> tr) \<Longrightarrow>
    go_ends (Writer_writeString_loop wrf swf sw tr nn p b) (write_loop_post ok sink nn p b)"
proof (induction "turns_left p b" arbitrary: nn p b sw tr rule: less_induct)
  case less
  show ?case
  proof (cases "Writer_Available b < int (length p) \<and> w_err b = None")
    case False
    then show ?thesis using less.prems
      by (subst Writer_writeString_loop.simps) (auto simp: write_loop_post_def)
  next
    case True
    define asks where "asks = (Writer_Buffered b = 0 \<and> \<not> sw \<and> tr)"
    define sw' where "sw' = (if asks then swf \<noteq> None else sw)"
    define tr' where "tr' = (if asks then swf \<noteq> None else tr)"
    let ?turn = "if Writer_Buffered b = 0 \<and> tr' then
        (case swf of
           None \<Rightarrow> Inl NilDeref
         | Some f \<Rightarrow> (case f (w_wr b) p of (w, n, e) \<Rightarrow> Inr (n, b\<lparr>w_wr := w, w_err := e\<rparr>)))
      else (case Writer_copy_in p b of
               Inl x \<Rightarrow> Inl x
             | Inr (n, b1) \<Rightarrow>
                 (case Writer_Flush wrf b1 of Inl x \<Rightarrow> Inl x | Inr (_, b2) \<Rightarrow> Inr (n, b2)))"
    have some: "Writer_Buffered b = 0 \<and> tr' \<Longrightarrow> swf \<noteq> None"
      using less.prems(2) by (auto simp: tr'_def asks_def split: if_splits)
    have flags: "sw' \<longrightarrow> swf \<noteq> None \<and> tr'" using less.prems(2) by (auto simp: sw'_def tr'_def)
    have "go_returns ?turn (\<lambda>(n, b1). turn_ok ok sink p b n b1)"
      using True some direct_turn[OF assms less.prems(1), of _ p] copy_turn[OF less.prems(1), of p]
      by (auto simp: Writer_Buffered_def split: prod.splits option.splits)
    then obtain n b1 where t: "?turn = Inr (n, b1)" "turn_ok ok sink p b n b1"
      by (auto elim!: go_returnsE)
    have g: "gslice p n (int (length p)) = Inr (drop (nat n) p)"
      using t(2) by (simp add: turn_ok_def gslice_Inr)
    have "go_ends (Writer_writeString_loop wrf swf sw' tr' (nn + n) (drop (nat n) p) b1)
        (write_loop_post ok sink (nn + n) (drop (nat n) p) b1)"
    proof (cases "w_err b1 = None")
      case None: True
      then show ?thesis using less.hyps t(2) flags by (simp add: turn_ok_def)
    next
      case False
      then obtain x where "w_err b1 = Some x" by auto
      then show ?thesis using t(2)
        by (subst Writer_writeString_loop.simps) (simp add: write_loop_post_def turn_ok_def)
    qed
    then show ?thesis using True t g write_loop_post_step[OF t(2), of nn]
      by (subst Writer_writeString_loop.simps)
        (auto simp: Let_def asks_def[symmetric] sw'_def[symmetric] tr'_def[symmetric] elim!: go_endsE)
  qed
qed

lemma writeString_ok:
  assumes "Writer_inv ok b" and "\<And>f. swf = Some f \<Longrightarrow> io_writer f ok sink"
  shows "go_ends (Writer_WriteString wrf swf p b) (write_post ok sink p b)"
  using writeString_loop_ok[OF assms(2,1), of swf False True 0 p] finish_ok[of p b]
  by (auto simp: Writer_WriteString_def elim!: go_endsE)

text \<open>\<open>WriteByte\<close>: one byte, or none and the sticky error.\<close>

lemma writeByte_ok:
  assumes inv: "Writer_inv ok b"
  shows "go_returns (Writer_WriteByte wrf c b) (\<lambda>(e, b').
    Writer_inv ok b' \<and> Writer_Size b' = Writer_Size b \<and> w_err b' = e \<and>
    Writer_out sink b' = Writer_out sink b @ (if e = None then [c] else []) \<and>
    (w_err b \<noteq> None \<longrightarrow> e = w_err b \<and> b' = b))"
proof (cases "w_err b")
  case (Some x)
  then show ?thesis using inv by (simp add: Writer_WriteByte_def)
next
  case None
  let ?f = "if Writer_Available b \<le> 0 then Writer_Flush wrf b else Inr (None, b)"
  have "go_returns ?f (\<lambda>(e, b'). Writer_inv ok b' \<and> Writer_out sink b' = Writer_out sink b \<and>
      w_err b' = e \<and> Writer_Size b' = Writer_Size b \<and> (e = None \<longrightarrow> 0 < Writer_Available b'))"
    using flush_ok[OF inv] inv None
    by (auto elim!: go_returns_mono simp: Writer_inv_def Writer_wf_def Writer_Available_def)
  then obtain e b1 where f: "?f = Inr (e, b1)" "Writer_inv ok b1"
    "Writer_out sink b1 = Writer_out sink b" "w_err b1 = e" "Writer_Size b1 = Writer_Size b"
    "e = None \<Longrightarrow> 0 < Writer_Available b1"
    by (auto elim!: go_returnsE)
  show ?thesis
  proof (cases e)
    case (Some x)
    then show ?thesis using None f by (auto simp: Writer_WriteByte_def)
  next
    case N: None
    obtain k where k: "w_n b1 = int k" "k < length (w_buf b1)"
      using f(2) f(6)[OF N]
      by (auto simp: Writer_inv_def Writer_wf_def Writer_Available_def dest!: zero_le_imp_eq_int)
    have "take (Suc k) ((w_buf b1)[k := c]) = take k (w_buf b1) @ [c]"
      using k(2) by (simp add: take_Suc_conv_app_nth)
    then show ?thesis using None f N k
      by (auto simp: Writer_WriteByte_def Writer_inv_def Writer_wf_def Writer_out_def
          Writer_pending_def Writer_Size_def nat_add_distrib)
  qed
qed

text \<open>\<open>WriteRune\<close> writes the encoding of the rune under the contract of \<open>Write\<close>.\<close>

lemma writeRune_ok:
  assumes inv: "Writer_inv ok b" and swf: "\<And>f. swf = Some f \<Longrightarrow> io_writer f ok sink"
  shows "go_ends (Writer_WriteRune wrf swf r b) (write_post ok sink (EncodeRune r) b)"
proof (cases "r < RuneSelf")
  case True
  then have enc: "EncodeRune r = [of_nat r]" by (simp add: EncodeRune_def encode_units_def RuneSelf_def)
  show ?thesis using writeByte_ok[OF inv, of "of_nat r"] True
    by (auto simp: Writer_WriteRune_def enc write_post_def split: if_splits elim!: go_returnsE)
next
  case rs: False
  show ?thesis
  proof (cases "w_err b")
    case (Some x)
    then show ?thesis using inv rs by (simp add: Writer_WriteRune_def write_post_def)
  next
    case None
    let ?f = "if Writer_Available b < int UTFMax then Writer_Flush wrf b else Inr (None, b)"
    have "go_returns ?f (\<lambda>(e, b'). Writer_inv ok b' \<and> Writer_out sink b' = Writer_out sink b \<and>
        Writer_Size b' = Writer_Size b)"
      using flush_ok[OF inv] inv by (auto elim!: go_returns_mono)
    then obtain e b1 where f: "?f = Inr (e, b1)" "Writer_inv ok b1"
      "Writer_out sink b1 = Writer_out sink b" "Writer_Size b1 = Writer_Size b"
      by (auto elim!: go_returnsE)
    have post: "write_post ok sink p b1 x \<Longrightarrow> w_err b1 = None \<Longrightarrow> write_post ok sink p b x" for p x
      using f None by (auto simp: write_post_def)
    consider (err) "w_err b1 \<noteq> None"
      | (small) "w_err b1 = None" "Writer_Available b1 < int UTFMax"
      | (room) "w_err b1 = None" "int UTFMax \<le> Writer_Available b1" by linarith
    then show ?thesis
    proof cases
      case err
      then show ?thesis using rs None f by (simp add: Writer_WriteRune_def write_post_def)
    next
      case small
      then show ?thesis using rs None f writeString_ok[OF f(2) swf, of swf "EncodeRune r"]
        by (auto simp: Writer_WriteRune_def elim!: go_endsE intro: post)
    next
      case room
      have l: "length (EncodeRune r) \<le> UTFMax" using length_EncodeRune[of r] by (simp add: UTFMax_def)
      then have "min (Writer_Available b1) (int (length (EncodeRune r))) = int (length (EncodeRune r))"
        using room by simp
      then show ?thesis using rs None f room copy_in_ok[OF f(2), of "EncodeRune r" sink]
        by (auto simp: Writer_WriteRune_def write_post_def elim!: go_returnsE)
    qed
  qed
qed

end

text \<open>The buffered writer as an \<open>io.Writer\<close>, and its refinement of the contract.\<close>

definition Writer_as_sink :: "'w wr_fun \<Rightarrow> 'w Writer wr_fun" where
  "Writer_as_sink wrf b p =
     (case Writer_Write wrf p b of
        Some (Inr (n, e, b')) \<Rightarrow> (b', n, e)
      | _ \<Rightarrow> (b, - 1, None))"

context io_writer
begin

lemma as_sink: "io_writer (Writer_as_sink wrf) (Writer_inv ok) (Writer_out sink)"
proof
  fix b p b' n e
  assume inv: "Writer_inv ok b" and w: "Writer_as_sink wrf b p = (b', n, e)"
  obtain r where "Writer_Write wrf p b = Some (Inr r)" "write_post ok sink p b r"
    using write_ok[OF inv, of p] by (auto elim!: go_endsE)
  moreover from this w have "r = (n, e, b')" by (cases r) (simp add: Writer_as_sink_def)
  ultimately show "Writer_inv ok b' \<and> 0 \<le> n \<and> n \<le> int (length p) \<and>
      Writer_out sink b' = Writer_out sink b @ take (nat n) p \<and> (n < int (length p) \<longrightarrow> e \<noteq> None)"
    by (simp add: write_post_def)
qed

end

interpretation buffered_quota: io_writer "Writer_as_sink quota_write" "Writer_inv (\<lambda>_. True)"
    "Writer_out fst"
  by (rule quota.as_sink)

context io_copy
begin

text \<open>
  \<open>ReadFrom\<close> of a source that ends: every byte taken from the source is in the stream, and
  without an error the source is empty.
\<close>

lemma empty_reads_eof:
  assumes "ok s" and "0 < room"
  shows "\<exists>d m e s'. Writer_empty_reads rdf (Suc i) room s = (Some (d, m, e), s') \<and> ok s' \<and>
    m = int (length d) \<and> length d \<le> room \<and> pending s = d @ pending s' \<and>
    (d \<noteq> [] \<or> e \<noteq> None) \<and> (e \<noteq> None \<longrightarrow> e = Some EOF \<and> pending s' = [])"
proof -
  obtain s' d m e where r: "rdf s room = (s', d, m, e)" by (cases "rdf s room") auto
  show ?thesis
    using rd_contract[OF assms(1) r] rd_progress[OF assms r] rd_eof[OF assms(1)] r
    by (cases e) auto
qed

definition readFrom_post :: "int \<Rightarrow> 'w Writer \<Rightarrow> 's \<Rightarrow> int \<times> goerr option \<times> 'w Writer \<times> 's \<Rightarrow> bool" where
  "readFrom_post n b s = (\<lambda>(n', e, b', s').
     Writer_inv wok b' \<and> ok s' \<and> Writer_Size b' = Writer_Size b \<and> w_err b' = e \<and>
     n' + int (length (pending s')) = n + int (length (pending s)) \<and> n \<le> n' \<and>
     Writer_out sink b' @ pending s' = Writer_out sink b @ pending s \<and>
     (e = None \<longrightarrow> pending s' = []))"

lemma readFrom_loop_ok:
  "Writer_inv wok b \<Longrightarrow> ok s \<Longrightarrow> w_err b = None \<Longrightarrow>
   go_ends (Writer_readFrom_loop wrf None rdf n b s) (readFrom_post n b s)"
proof (induction "length (pending s)" arbitrary: n b s rule: less_induct)
  case less
  let ?f = "if Writer_Available b = 0 then Writer_Flush wrf b else Inr (None, b)"
  have "go_returns ?f (\<lambda>(e, b'). Writer_inv wok b' \<and> Writer_out sink b' = Writer_out sink b \<and>
      w_err b' = e \<and> Writer_Size b' = Writer_Size b \<and> (e = None \<longrightarrow> 0 < Writer_Available b'))"
    using wr.flush_ok[OF less.prems(1)] less.prems
    by (auto elim!: go_returns_mono simp: Writer_inv_def Writer_wf_def Writer_Available_def)
  then obtain e1 b1 where f: "?f = Inr (e1, b1)" "Writer_inv wok b1"
    "Writer_out sink b1 = Writer_out sink b" "w_err b1 = e1" "Writer_Size b1 = Writer_Size b"
    "e1 = None \<Longrightarrow> 0 < Writer_Available b1"
    by (auto elim!: go_returnsE)
  show ?case
  proof (cases e1)
    case (Some x)
    then show ?thesis using f less.prems
      by (subst Writer_readFrom_loop.simps) (simp add: readFrom_post_def)
  next
    case None
    obtain k where k: "w_n b1 = int k" "k < length (w_buf b1)"
      using f(2) f(6)[OF None]
      by (auto simp: Writer_inv_def Writer_wf_def Writer_Available_def dest!: zero_le_imp_eq_int)
    let ?room = "length (w_buf b1) - k"
    have g: "gslice (w_buf b1) (w_n b1) (int (length (w_buf b1))) = Inr (drop k (w_buf b1))"
      using k by (simp add: gslice_nat)
    obtain d e s1 where r: "Writer_empty_reads rdf 100 ?room s = (Some (d, int (length d), e), s1)"
      "ok s1" "length d \<le> ?room" "pending s = d @ pending s1" "d \<noteq> [] \<or> e \<noteq> None"
      "e \<noteq> None \<longrightarrow> e = Some EOF \<and> pending s1 = []"
      using empty_reads_eof[OF less.prems(2), of ?room 99] k(2) by auto
    define b2 where b2_def: "b2 = b1\<lparr>w_buf := overwrite (w_buf b1) k d, w_n := int k + int (length d)\<rparr>"
    have fit: "k + length d \<le> length (w_buf b1)" using k(2) r(3) by simp
    have "Writer_out sink b2 = Writer_out sink b1 @ d"
      using k take_overwrite[OF fit] by (simp add: b2_def Writer_out_def Writer_pending_def nat_add_distrib)
    then have out: "Writer_out sink b2 = Writer_out sink b @ d" by (simp add: f(3))
    have b2: "Writer_inv wok b2" "Writer_Size b2 = Writer_Size b" "w_err b2 = None"
      using k(1) fit f(2,4,5) None by (simp_all add: b2_def Writer_inv_def Writer_wf_def Writer_Size_def del: One_nat_def)
    consider (more) "e = None" | (full) "e = Some EOF" "Writer_Available b2 = 0"
      | (rest) "e = Some EOF" "Writer_Available b2 \<noteq> 0" using r(6) by blast
    then show ?thesis
    proof cases
      case more
      then have "length (pending s1) < length (pending s)" using r(4,5) by simp
      from less.hyps[OF this b2(1) r(2) b2(3), of "n + int (length d)"]
      have "go_ends (Writer_readFrom_loop wrf None rdf (n + int (length d)) b2 s1)
          (readFrom_post n b s)"
        using b2 out r(4) by (auto elim!: go_endsE simp: readFrom_post_def)
      then show ?thesis using f(1) None more k(1) g r(1)
        by (subst Writer_readFrom_loop.simps) (simp add: Let_def flip: b2_def)
    next
      case full
      obtain e2 b3 where fl: "Writer_Flush wrf b2 = Inr (e2, b3)" "Writer_inv wok b3"
        "Writer_out sink b3 = Writer_out sink b2" "w_err b3 = e2" "Writer_Size b3 = Writer_Size b2"
        by (rule go_returnsE[OF wr.flush_ok[OF b2(1)]]) auto
      have "pending s1 = []" using r(6) full(1) by blast
      then have "readFrom_post n b s (n + int (length d), e2, b3, s1)"
        using fl(2-5) b2(2) out r(2,4) by (simp add: readFrom_post_def)
      then show ?thesis using f(1) None full k(1) g r(1) fl(1)
        by (subst Writer_readFrom_loop.simps) (simp add: Let_def flip: b2_def)
    next
      case rest
      then have "pending s1 = []" using r(6) by blast
      then show ?thesis using f None k g r(1-4) rest b2 out
        by (subst Writer_readFrom_loop.simps) (simp add: Let_def readFrom_post_def flip: b2_def)
    qed
  qed
qed

end

end
