(* ===== verification/Bufio_Properties.thy ===== *)
theory Bufio_Properties
  imports Bufio_Text_Spec Bufio_Writer_Spec
begin

section \<open>Properties of the buffered reader and writer\<close>

text \<open>
  The lemmas of the locales, stated over the definitions for any source \<open>rdf\<close> and any writer
  \<open>wrf\<close> that keep the contracts of \<open>Io\<close>, each applied at a stream of segments
  (\<open>segs_read\<close>) and at a writer with a quota (\<open>quota_write\<close>).
\<close>

lemma segs_reader: "io_reader_eof segs_read (\<lambda>_. True) concat"
  by (rule segs.io_reader_eof_axioms)

lemma quota_writer: "io_writer quota_write (\<lambda>_. True) fst"
  by (rule quota.io_writer_axioms)

lemma segs_buf:
  "Reader_inv_eof (\<lambda>_. True) concat (NewReaderSize rd sz)" "Reader_inv (\<lambda>_. True) (NewReaderSize rd sz)"
  "Reader_contents concat (NewReaderSize rd sz) = concat rd" "Reader_Size (NewReaderSize rd sz) = max sz 16"
  by (simp_all add: NewReaderSize_inv(1) NewReaderSize_inv(2,3)[where ok = "\<lambda>_. True"]
      Reader_inv_eof_inv[OF NewReaderSize_inv(1)[where pending = concat]])

lemma quota_buf:
  "Writer_inv (\<lambda>_. True) (NewWriterSize w sz)" "Writer_out fst (NewWriterSize w sz) = fst w"
  by (simp_all add: NewWriterSize_inv(1) NewWriterSize_inv(2)[where ok = "\<lambda>_. True"])

text \<open>C1: \<open>ReadBytes\<close> over any source that ends returns, for every buffer size and every way the
  source cuts the stream: it delivers the stream up to and including the delimiter, or all of it
  with \<open>io.EOF\<close>, and leaves exactly the rest.\<close>

theorem ReadBytes_stream:
  assumes "io_reader_eof rdf ok pending" and "Reader_inv_eof ok pending b"
  shows "go_ends (Reader_ReadBytes rdf delim b) (\<lambda>(line, e, b').
    Reader_inv_eof ok pending b' \<and>
    line = upto_delim delim (Reader_contents pending b) \<and>
    Reader_contents pending b = line @ Reader_contents pending b' \<and>
    e = (if delim \<in> set (Reader_contents pending b) then None else Some EOF))"
  by (rule io_reader_eof.readBytes_eof[OF assms])

theorem ReadBytes_stream_witness:
  "\<exists>b'. Reader_ReadBytes segs_read 10 (NewReaderSize [[104, 105], [33, 10, 72]] 1)
      = Some (Inr ([104, 105, 33, 10], None, b')) \<and> Reader_contents concat b' = [72]"
  using ReadBytes_stream[OF segs_reader segs_buf(1)[of "[[104, 105], [33, 10, 72]]" 1], of 10]
  by (auto simp: upto_delim_def segs_buf(3) elim!: go_endsE)

text \<open>C6: the buffered reader over a source that keeps the contract of \<open>io.Reader\<close> and ends is itself
  such a source: its \<open>Read\<close> refines the contract, with the unread buffer and the rest of the
  source as what it has to deliver.\<close>

theorem Reader_refines_io_Reader:
  assumes "io_reader_eof rdf ok pending"
  shows "io_reader_eof (Reader_as_source rdf) (Reader_inv_eof ok pending) (Reader_contents pending)"
  by (rule io_reader_eof.as_source_eof[OF assms])

theorem Reader_refines_io_Reader_witness:
  "io_reader_eof (Reader_as_source (Reader_as_source segs_read))
     (Reader_inv_eof (Reader_inv_eof (\<lambda>_. True) concat) (Reader_contents concat))
     (Reader_contents (Reader_contents concat))"
  by (rule Reader_refines_io_Reader[OF buffered_segs.io_reader_eof_axioms])

text \<open>C18: \<open>ReadSlice\<close> removes the prefix it returns; without an error that prefix ends in the
  delimiter and has no other, with one it has none, and the error is that of a full buffer exactly
  when the whole buffer is returned.\<close>

theorem ReadSlice_prefix:
  assumes "io_reader rdf ok pending" and "Reader_inv ok b"
  shows "go_returns (Reader_ReadSlice rdf delim b) (\<lambda>(line, e, b').
    Reader_inv ok b' \<and> Reader_contents pending b = line @ Reader_contents pending b' \<and>
    (if e = None then line \<noteq> [] \<and> last line = delim \<and> delim \<notin> set (butlast line)
     else delim \<notin> set line \<and> Reader_unread b' = [] \<and>
       (e = Some ErrBufferFull \<and> length line = length (r_buf b) \<or> r_err b' = None)))"
  by (rule go_returns_mono[OF io_reader.readSlice_ok[OF assms]])
    (auto simp: readSlice_post_def split: if_splits)

theorem ReadSlice_prefix_witness:
  "\<exists>line e b'. Reader_ReadSlice segs_read 10 (NewReaderSize [[104], [10, 33]] 16)
      = Inr (line, e, b') \<and> [104, 10, 33] = line @ Reader_contents concat b'"
  using ReadSlice_prefix[OF segs.io_reader_axioms
      segs_buf(2)[of "[[104], [10, 33]]" 16], of 10]
  by (auto simp: segs_buf(3) elim!: go_returnsE)



text \<open>C20: \<open>Peek\<close> shows the next bytes of the stream without removing any; it is short exactly when
  it reports an error, and reports \<open>ErrBufferFull\<close> when more is asked than the buffer holds.\<close>

theorem Peek_shows:
  assumes "io_reader rdf ok pending" and "Reader_inv ok b" and "0 \<le> n"
  shows "\<exists>xs e b'. Reader_Peek rdf n b = Inr (xs, e, b') \<and> Reader_inv ok b' \<and>
    Reader_contents pending b' = Reader_contents pending b \<and>
    xs = take (length xs) (Reader_contents pending b) \<and>
    (e = None \<longrightarrow> int (length xs) = n) \<and> (e \<noteq> None \<longrightarrow> int (length xs) < n) \<and>
    (Reader_Size b < n \<longrightarrow> e = Some ErrBufferFull) \<and>
    r_lastByte b' = -1 \<and> r_lastRuneSize b' = -1"
  by (rule io_reader.peek_ok[OF assms])

theorem Peek_shows_witness:
  "\<exists>xs b'. Reader_Peek segs_read 20 (NewReaderSize [[104, 105]] 16) = Inr (xs, Some ErrBufferFull, b') \<and>
     Reader_contents concat b' = [104, 105]"
  using Peek_shows[OF segs.io_reader_axioms
      segs_buf(2)[of "[[104, 105]]" 16], of 20]
  by (auto simp: segs_buf(3,4))

text \<open>C21: \<open>Discard n\<close> drops exactly the bytes it reports, never more than \<open>n\<close>, and reports \<open>n\<close>
  exactly when there is no error.\<close>

theorem Discard_drops:
  assumes "io_reader rdf ok pending" and "Reader_inv ok b" and "0 \<le> n"
  shows "\<exists>d e b'. Reader_Discard rdf n b = Inr (int d, e, b') \<and> Reader_inv ok b' \<and>
    int d \<le> n \<and> (e = None \<longleftrightarrow> int d = n) \<and> d \<le> length (Reader_contents pending b) \<and>
    Reader_contents pending b' = drop d (Reader_contents pending b)"
  by (rule io_reader.discard_ok[OF assms])

theorem Discard_drops_witness:
  "\<exists>d e b'. Reader_Discard segs_read 3 (NewReaderSize [[104, 105], [33, 34]] 16) = Inr (int d, e, b') \<and>
     d \<le> 3 \<and> Reader_contents concat b' = drop d [104, 105, 33, 34]"
proof -
  obtain d e b' where "Reader_Discard segs_read 3 (NewReaderSize [[104, 105], [33, 34]] 16) = Inr (int d, e, b')"
    "int d \<le> 3" "Reader_contents concat b' = drop d [104, 105, 33, 34]"
    using Discard_drops[OF segs.io_reader_axioms
      segs_buf(2)[of "[[104, 105], [33, 34]]" 16], of 3]
    by (auto simp: segs_buf(3))
  then show ?thesis by (intro exI[of _ d] exI[of _ e] exI[of _ b']) simp
qed

text \<open>C22: a byte that \<open>ReadByte\<close> delivered can be put back: \<open>UnreadByte\<close> then restores the stream.\<close>

theorem UnreadByte_restores:
  assumes "io_reader rdf ok pending" and "Reader_inv ok b"
    and "Reader_ReadByte rdf b = Inr (c, None, b1)"
  shows "Reader_contents pending b = c # Reader_contents pending b1 \<and>
    go_returns (Reader_UnreadByte b1) (\<lambda>(e, b2). e = None \<and> Reader_inv ok b2 \<and>
      Reader_contents pending b2 = Reader_contents pending b)"
  using io_reader.unreadByte_readByte[OF assms] io_reader.readByte_ok[OF assms(1,2)] assms(3) by simp

theorem UnreadByte_restores_witness:
  "\<exists>b1 b2. Reader_ReadByte segs_read (NewReaderSize [[104], [105]] 16) = Inr (104, None, b1) \<and>
     Reader_UnreadByte b1 = Inr (None, b2) \<and> Reader_contents concat b2 = [104, 105]"
proof -
  let ?b = "NewReaderSize [[104 :: byte], [105]] 16"
  have inv: "Reader_inv (\<lambda>_. True) ?b" by (rule segs_buf(2))
  have "case Reader_ReadByte segs_read ?b of Inl p \<Rightarrow> False | Inr (c, e, b1) \<Rightarrow> c = 104 \<and> e = None"
    by code_simp
  then obtain b1 where "Reader_ReadByte segs_read ?b = Inr (104, None, b1)"
    by (auto split: sum.splits)
  from this UnreadByte_restores[OF segs.io_reader_axioms inv this] show ?thesis
    by (auto simp: segs_buf(3) elim!: go_returnsE)
qed

text \<open>C23: \<open>ReadRune\<close> decodes the first rune of the stream (a replacement rune of one byte where the
  encoding is wrong) and removes its bytes; \<open>UnreadRune\<close> then restores the stream. The rune is
  decoded the same however the source cuts it.\<close>

theorem ReadRune_decodes:
  assumes "io_reader_eof rdf ok pending" and "Reader_inv_eof ok pending b"
    and "int UTFMax \<le> Reader_Size b"
  shows "go_returns (Reader_ReadRune rdf b) (\<lambda>(r, sz, e, b').
    Reader_inv_eof ok pending b' \<and>
    (if Reader_contents pending b = [] then e = Some EOF
     else e = None \<and> (r, sz) = DecodeRune (Reader_contents pending b) \<and>
       Reader_contents pending b' = drop sz (Reader_contents pending b) \<and>
       (case Reader_UnreadRune b' of (e2, b2) \<Rightarrow>
          e2 = None \<and> Reader_inv_eof ok pending b2 \<and>
          Reader_contents pending b2 = Reader_contents pending b)))"
  by (rule io_reader_eof.readRune_eof[OF assms])

theorem ReadRune_decodes_witness:
  "\<exists>b'. Reader_ReadRune segs_read (NewReaderSize [[0xC3], [0xA9, 33]] 16) = Inr (0xE9, 2, None, b') \<and>
     Reader_contents concat b' = [33]"
proof -
  have d: "DecodeRune [0xC3, 0xA9, 33] = (0xE9, 2)" by code_simp
  show ?thesis
    using ReadRune_decodes[OF segs_reader segs_buf(1)[of "[[0xC3], [0xA9, 33]]" 16]]
    by (auto simp: segs_buf(3,4) d UTFMax_def elim!: go_returnsE)
qed



text \<open>C8: \<open>Write\<close> of the buffered writer returns; it extends the stream by exactly the bytes it
  reports, fewer than asked only with an error, the error is kept, and once there is one no
  write changes anything.\<close>

theorem Write_extends:
  assumes "io_writer wrf ok sink" and "Writer_inv ok b"
  shows "go_ends (Writer_Write wrf p b) (\<lambda>(nn, e, b').
    Writer_inv ok b' \<and> w_err b' = e \<and> 0 \<le> nn \<and> nn \<le> int (length p) \<and>
    Writer_out sink b' = Writer_out sink b @ take (nat nn) p \<and>
    (nn < int (length p) \<longrightarrow> e \<noteq> None) \<and>
    (w_err b \<noteq> None \<longrightarrow> nn = 0 \<and> e = w_err b \<and> b' = b))"
  using io_writer.write_ok[OF assms, of p] by (auto simp: write_post_def elim!: go_endsE)

theorem Write_extends_witness:
  "\<exists>nn e b'. Writer_Write quota_write [1, 2, 3] (NewWriterSize ([], 1) 2) = Some (Inr (nn, e, b')) \<and>
     Writer_out fst b' = take (nat nn) [1, 2, 3]"
  using Write_extends[OF quota_writer quota_buf(1)[of "([], 1)" 2], of "[1, 2, 3]"]
  by (auto simp: quota_buf(2) elim!: go_endsE)

text \<open>C7: \<open>Flush\<close> never loses or repeats a byte: with an error the stream is as it was and the error
  is kept, without one the buffer is empty and the writer has the whole stream.\<close>

theorem Flush_conserves:
  assumes "io_writer wrf ok sink" and "Writer_inv ok b"
  shows "go_returns (Writer_Flush wrf b) (\<lambda>(e, b').
    Writer_inv ok b' \<and> Writer_out sink b' = Writer_out sink b \<and> w_err b' = e \<and>
    (e = None \<longrightarrow> w_n b' = 0 \<and> sink (w_wr b') = Writer_out sink b) \<and>
    (w_err b \<noteq> None \<longrightarrow> b' = b))"
  by (rule go_returns_mono[OF io_writer.flush_ok[OF assms]]) auto

theorem Flush_conserves_witness:
  "\<exists>e b'. Writer_Flush quota_write \<lparr>w_err = None, w_buf = [1, 2, 3, 0], w_n = 3, w_wr = ([], 1)\<rparr>
      = Inr (e, b') \<and> Writer_out fst b' = [1, 2, 3]"
  using Flush_conserves[OF quota_writer, of "\<lparr>w_err = None, w_buf = [1, 2, 3, 0], w_n = 3, w_wr = ([], 1)\<rparr>"]
  by (auto simp: Writer_inv_def Writer_wf_def Writer_out_def Writer_pending_def eval_nat_numeral
      elim!: go_returnsE)

text \<open>C25: \<open>WriteRune\<close> writes the UTF-8 encoding of the rune under the contract of \<open>Write\<close>, also
  where the buffer is smaller than an encoding and \<open>WriteString\<close> does the work.\<close>

theorem WriteRune_encodes:
  assumes "io_writer wrf ok sink" and "Writer_inv ok b"
    and "case swf of None \<Rightarrow> True | Some f \<Rightarrow> io_writer f ok sink"
  shows "go_ends (Writer_WriteRune wrf swf r b) (\<lambda>(nn, e, b').
    Writer_inv ok b' \<and> w_err b' = e \<and> 0 \<le> nn \<and> nn \<le> int (length (EncodeRune r)) \<and>
    Writer_out sink b' = Writer_out sink b @ take (nat nn) (EncodeRune r) \<and>
    (nn < int (length (EncodeRune r)) \<longrightarrow> e \<noteq> None))"
  using io_writer.writeRune_ok[OF assms(1,2), of swf r] assms(3)
  by (auto simp: write_post_def split: option.splits elim!: go_endsE)

theorem WriteRune_encodes_witness:
  "\<exists>nn e b'. Writer_WriteRune quota_write None 0xE9 (NewWriterSize ([], 9) 1) = Some (Inr (nn, e, b')) \<and>
     Writer_out fst b' = take (nat nn) [0xC3, 0xA9]"
proof -
  have e: "EncodeRune 0xE9 = [0xC3, 0xA9]" by code_simp
  show ?thesis
    using WriteRune_encodes[OF quota_writer quota_buf(1)[of "([], 9)" 1], of None "0xE9"]
    by (auto simp: quota_buf(2) e elim!: go_endsE)
qed

text \<open>C26: the buffered writer over a writer that keeps the contract of \<open>io.Writer\<close> keeps it too,
  with the written and the buffered bytes as what it has accepted.\<close>

theorem Writer_refines_io_Writer:
  assumes "io_writer wrf ok sink"
  shows "io_writer (Writer_as_sink wrf) (Writer_inv ok) (Writer_out sink)"
  by (rule io_writer.as_sink[OF assms])

theorem Writer_refines_io_Writer_witness:
  "io_writer (Writer_as_sink (Writer_as_sink quota_write)) (Writer_inv (Writer_inv (\<lambda>_. True)))
     (Writer_out (Writer_out fst))"
  by (rule Writer_refines_io_Writer[OF buffered_quota.io_writer_axioms])



end
