(* ===== verification/Go_Strings.thy ===== *)
theory Go_Strings
  imports Prelude
begin

section \<open>The strings, strconv and fmt functions the sources call\<close>

text \<open>
  Go strings of ASCII text as HOL strings, one \<open>char\<close> a byte. The functions are those of the
  packages \<open>strings\<close>, \<open>strconv\<close> and \<open>fmt\<close> (the verb \<open>%d\<close>) with the arguments the sources use,
  and the \<open>utilx.StringTrim\<close> of the repository.
\<close>

fun joinStr :: "string \<Rightarrow> string list \<Rightarrow> string" where
  "joinStr sep [] = []"
| "joinStr sep [x] = x"
| "joinStr sep (x # y # xs) = x @ sep @ joinStr sep (y # xs)"

definition Repeat :: "string \<Rightarrow> nat \<Rightarrow> string" where
  "Repeat s n = concat (replicate n s)"

definition TrimLeft :: "string \<Rightarrow> string \<Rightarrow> string" where
  "TrimLeft s cs = dropWhile (\<lambda>c. c \<in> set cs) s"

definition TrimRight :: "string \<Rightarrow> string \<Rightarrow> string" where
  "TrimRight s cs = rev (dropWhile (\<lambda>c. c \<in> set cs) (rev s))"

definition StringTrim :: "string \<Rightarrow> string" where
  "StringTrim s = (let cs = [CHR 0x20, CHR 0x0D, CHR 0x0A, CHR 0x09] in TrimRight (TrimLeft s cs) cs)"

text \<open>\<open>strings.ReplaceAll\<close> of a single byte.\<close>

definition ReplaceAll :: "char \<Rightarrow> string \<Rightarrow> string \<Rightarrow> string" where
  "ReplaceAll c r s = concat (map (\<lambda>x. if x = c then r else [x]) s)"

fun HasPrefix :: "string \<Rightarrow> string \<Rightarrow> bool" where
  "HasPrefix s [] = True"
| "HasPrefix [] (p # ps) = False"
| "HasPrefix (c # cs) (p # ps) = (c = p \<and> HasPrefix cs ps)"

fun Contains :: "string \<Rightarrow> string \<Rightarrow> bool" where
  "Contains [] sub = (sub = [])"
| "Contains (c # cs) sub = (HasPrefix (c # cs) sub \<or> Contains cs sub)"

text \<open>\<open>strings.Split\<close> at a single byte.\<close>

fun Split :: "char \<Rightarrow> string \<Rightarrow> string list" where
  "Split sep [] = [[]]"
| "Split sep (c # cs) =
     (if c = sep then [] # Split sep cs
      else (case Split sep cs of [] \<Rightarrow> [[c]] | x # xs \<Rightarrow> (c # x) # xs))"

subsection \<open>Decimal numbers\<close>

definition digit :: "nat \<Rightarrow> char" where "digit n = char_of (48 + n)"
definition is_digit :: "char \<Rightarrow> bool" where "is_digit c \<longleftrightarrow> 48 \<le> (of_char c :: nat) \<and> (of_char c :: nat) \<le> 57"
definition digit_val :: "char \<Rightarrow> nat" where "digit_val c = of_char c - 48"

fun nat_str :: "nat \<Rightarrow> string" where
  "nat_str n = (if n < 10 then [digit n] else nat_str (n div 10) @ [digit (n mod 10)])"

declare nat_str.simps [simp del]

text \<open>The verb \<open>%d\<close>.\<close>

definition int_str :: "int \<Rightarrow> string" where
  "int_str i = (if i < 0 then CHR ''-'' # nat_str (nat (- i)) else nat_str (nat i))"

definition str_nat :: "string \<Rightarrow> nat" where
  "str_nat s = foldl (\<lambda>n c. 10 * n + digit_val c) 0 s"

text \<open>\<open>strconv.Atoi\<close> on a 64-bit platform; \<open>None\<close> is a syntax or range error.\<close>

definition Atoi :: "string \<Rightarrow> int option" where
  "Atoi s =
     (let neg = (s \<noteq> [] \<and> hd s = CHR ''-'');
          ds = (if s \<noteq> [] \<and> (hd s = CHR ''-'' \<or> hd s = CHR ''+'') then tl s else s);
          v = (if neg then - int (str_nat ds) else int (str_nat ds))
      in if ds = [] \<or> \<not> list_all is_digit ds then None
         else if v < - (2 ^ 63) \<or> 2 ^ 63 \<le> v then None
         else Some v)"

lemma digit_facts: "n < 10 \<Longrightarrow> is_digit (digit n) \<and> digit_val (digit n) = n"
  by (simp add: is_digit_def digit_val_def digit_def of_char_of)

lemma is_digit_nat_str: "list_all is_digit (nat_str n)"
proof (induction n rule: nat_str.induct)
  case (1 n)
  then show ?case by (subst nat_str.simps) (simp add: digit_facts)
qed

lemma nat_str_nonempty [simp]: "nat_str n \<noteq> []"
  by (subst nat_str.simps) simp

lemma str_nat_nat_str: "str_nat (nat_str n) = n"
proof (induction n rule: nat_str.induct)
  case (1 n)
  then show ?case
    by (subst nat_str.simps) (simp add: str_nat_def digit_facts)
qed

lemma hd_nat_str: "hd (nat_str n) \<noteq> CHR ''-''" "hd (nat_str n) \<noteq> CHR ''+''"
  using is_digit_nat_str[of n] nat_str_nonempty[of n]
  by (cases "nat_str n"; auto simp: is_digit_def)+

lemma Atoi_int_str: "- (2 ^ 63) \<le> i \<Longrightarrow> i < 2 ^ 63 \<Longrightarrow> Atoi (int_str i) = Some i"
  by (auto simp: Atoi_def int_str_def Let_def is_digit_nat_str str_nat_nat_str hd_nat_str)

subsection \<open>Counting a character\<close>

text \<open>The placeholders of a statement are its question marks.\<close>

abbreviation qmarks :: "string \<Rightarrow> nat" where "qmarks s \<equiv> count_list s CHR ''?''"

lemma count_joinStr:
  "count_list sep c = 0 \<Longrightarrow> count_list (joinStr sep xs) c = sum_list (map (\<lambda>x. count_list x c) xs)"
  by (induction sep xs rule: joinStr.induct) simp_all

lemma count_nat_str: "\<not> is_digit c \<Longrightarrow> count_list (nat_str n) c = 0"
  using is_digit_nat_str[of n] by (auto simp: count_list_0_iff list_all_iff)

lemma qmarks_int_str [simp]: "qmarks (int_str i) = 0"
  by (auto simp: int_str_def count_nat_str is_digit_def)

lemma joinStr_append:
  "xs \<noteq> [] \<Longrightarrow> ys \<noteq> [] \<Longrightarrow> joinStr sep (xs @ ys) = joinStr sep xs @ sep @ joinStr sep ys"
  by (induction sep xs rule: joinStr.induct) (auto simp: neq_Nil_conv)

lemma length_joinStr:
  "length (joinStr sep xs) = sum_list (map length xs) + (length xs - 1) * length sep"
  by (induction sep xs rule: joinStr.induct) simp_all

text \<open>A list of \<open>n\<close> placeholders between commas.\<close>

lemma Repeat_Suc: "Repeat s (Suc n) = s @ Repeat s n"
  by (simp add: Repeat_def)

lemma Repeat_snoc: "Repeat s (Suc n) = Repeat s n @ s"
  by (induction n) (simp_all add: Repeat_def)

lemma qmark_list:
  "TrimRight (Repeat ''?,'' n) '','' = joinStr '','' (replicate n ''?'')"
proof (cases n)
  case 0
  then show ?thesis by (simp add: Repeat_def TrimRight_def)
next
  case (Suc m)
  have "joinStr '','' (replicate (Suc m) ''?'') = Repeat ''?,'' m @ ''?''"
    by (induction m) (simp_all add: Repeat_def)
  then show ?thesis using Suc by (simp add: Repeat_snoc TrimRight_def)
qed

lemma qmarks_qmark_list: "qmarks (TrimRight (Repeat ''?,'' n) '','') = n"
  unfolding qmark_list by (simp add: count_joinStr sum_list_replicate)

end
