(* ===== verification/Sql_Query.thy ===== *)
theory Sql_Query
  imports Go_Strings
begin

section \<open>rivetxsql: the text of statements\<close>

text \<open>
  \<open>BuildQuery\<close>, the length estimates and \<open>ToSnakeCase\<close> of \<open>rivetxsql/util.go\<close>, and \<open>Where\<close> of
  \<open>rivetxsql/select.go\<close>. A \<open>strings.Builder\<close> is the string written so far; the closure
  \<open>writeAnd\<close> and its flag \<open>isFirstAdd\<close> are a function on the pair of both. Names are ASCII, so a
  rune is a byte.
\<close>

definition BatchSize :: int where "BatchSize = 1024"
definition Timeout :: int where "Timeout = 15 * 1000000000"

record 'v QueryCond =
  FixedCols :: "string list"
  FixedVals :: "'v list"
  InCols :: "string list"
  InVals :: "'v list list"
  InBatchSize :: int

subsection \<open>ToSnakeCase\<close>

definition IsUpper :: "char \<Rightarrow> bool" where
  "IsUpper c \<longleftrightarrow> 65 \<le> (of_char c :: nat) \<and> (of_char c :: nat) \<le> 90"

definition ToLower :: "char \<Rightarrow> char" where
  "ToLower c = (if IsUpper c then char_of ((of_char c :: nat) + 32) else c)"

fun snake_loop :: "string \<Rightarrow> string \<Rightarrow> string" where
  "snake_loop result [] = result"
| "snake_loop result (r # s) =
     (let result' = (if result \<noteq> [] \<and> IsUpper r \<and> last result \<noteq> CHR ''_''
                     then result @ ''_'' else result)
      in snake_loop (result' @ [ToLower r]) s)"

definition ToSnakeCase :: "string \<Rightarrow> string" where
  "ToSnakeCase s = (if s = [] then s else snake_loop [] s)"

subsection \<open>The estimate\<close>

record EstimateJoin =
  Parts :: "string list"
  Sep :: string

definition estimateJoinLen :: "EstimateJoin \<Rightarrow> int" where
  "estimateJoinLen data =
     (if Parts data = [] then 0
      else foldl (\<lambda>t p. t + int (length p))
             ((int (length (Parts data)) - 1) * int (length (Sep data))) (Parts data))"

definition estimateStrLen :: "string list \<Rightarrow> string list \<Rightarrow> EstimateJoin list \<Rightarrow> int" where
  "estimateStrLen strs strs2 joins =
     (let s1 = foldl (\<lambda>t s. t + (int (length s) + 5)) 128 strs;
          s2 = foldl (\<lambda>t s. t + (int (length s) + 5)) s1 strs2
      in foldl (\<lambda>t j. t + (estimateJoinLen j + 5)) s2 joins)"

subsection \<open>BuildQuery\<close>

definition writeAnd :: "string \<times> bool \<Rightarrow> string \<times> bool" where
  "writeAnd st = (case st of (b, isFirst) \<Rightarrow> if isFirst then (b @ '' '', False) else (b @ '' AND '', False))"

text \<open>\<open>for i, c := range cs { if i > 0 { write sep }; write c }\<close>\<close>

fun write_sep :: "string \<Rightarrow> nat \<Rightarrow> string list \<Rightarrow> string \<Rightarrow> string" where
  "write_sep sep i [] b = b"
| "write_sep sep i (c # cs) b = write_sep sep (Suc i) cs ((if 0 < i then b @ sep else b) @ c)"

definition query_estimate ::
  "string list \<Rightarrow> string \<Rightarrow> string \<Rightarrow> string list \<Rightarrow> string \<Rightarrow> string list \<Rightarrow> string list \<Rightarrow> string \<Rightarrow> int" where
  "query_estimate sqls table join fixedConds cond inCols tuples limit =
     estimateStrLen sqls [table, join, cond, limit]
       [\<lparr>Parts = fixedConds, Sep = '' AND ''\<rparr>, \<lparr>Parts = inCols, Sep = '', ''\<rparr>,
        \<lparr>Parts = tuples, Sep = '',''\<rparr>] + 64"

definition BuildQuery ::
  "string list \<Rightarrow> string \<Rightarrow> string \<Rightarrow> string list \<Rightarrow> string \<Rightarrow> string list \<Rightarrow> string list \<Rightarrow> string \<Rightarrow>
     string \<Rightarrow> string" where
  "BuildQuery sqls table join fixedConds cond inCols tuples order limit =
     (let b0 = foldl (\<lambda>b sql. b @ sql @ '' '') [] sqls @ table @ '' '' @ join @ '' WHERE'';
          s1 = (if fixedConds \<noteq> [] then
                  (case writeAnd (b0, True) of (b, f) \<Rightarrow> (write_sep '' AND '' 0 fixedConds b, f))
                else (b0, True));
          s2 = (if cond \<noteq> [] then (case writeAnd s1 of (b, f) \<Rightarrow> (b @ cond, f)) else s1);
          s3 = (if tuples \<noteq> [] then
                  (case writeAnd s2 of
                     (b, f) \<Rightarrow>
                       (write_sep '','' 0 tuples (write_sep '', '' 0 inCols (b @ ''('') @ '') IN ('') @ '')'', f))
                else s2);
          b4 = (if order \<noteq> [] then fst s3 @ '' '' @ order else fst s3)
      in if limit \<noteq> [] then b4 @ '' '' @ limit else b4)"

subsection \<open>Where\<close>

definition Where :: "string \<Rightarrow> 'v list \<Rightarrow> string \<Rightarrow> 'v list \<Rightarrow> string \<times> 'v list" where
  "Where objCond objArgs cond args = (objCond @ '' '' @ cond, objArgs @ args)"

subsection \<open>What they compute\<close>

text \<open>
  \<open>ToSnakeCase\<close> only inserts underscores and lowers letters, and its result has no upper case
  letter, so it is idempotent.
\<close>

lemma of_char_ToLower:
  "(of_char (ToLower c) :: nat) = (if IsUpper c then of_char c + 32 else of_char c)"
  by (auto simp: ToLower_def IsUpper_def of_char_of)

lemma ToLower_facts: "\<not> IsUpper (ToLower c)" "(ToLower c = CHR ''_'') = (c = CHR ''_'')"
proof -
  show "\<not> IsUpper (ToLower c)" by (auto simp: IsUpper_def of_char_ToLower)
  have "(ToLower c = CHR ''_'') = ((of_char (ToLower c) :: nat) = of_char (CHR ''_''))"
    by (simp only: of_char_eq_iff)
  also have "\<dots> = ((of_char c :: nat) = of_char (CHR ''_''))"
    by (auto simp: of_char_ToLower IsUpper_def)
  also have "\<dots> = (c = CHR ''_'')" by (simp only: of_char_eq_iff)
  finally show "(ToLower c = CHR ''_'') = (c = CHR ''_'')" .
qed

definition not_us :: "char \<Rightarrow> bool" where "not_us c \<longleftrightarrow> c \<noteq> CHR ''_''"

lemma not_us_facts: "not_us (ToLower c) = not_us c" "\<not> not_us (CHR ''_'')" "\<not> IsUpper (CHR ''_'')"
  by (simp_all only: not_us_def ToLower_facts simp_thms) (simp_all add: IsUpper_def)

lemma snake_step:
  "\<exists>acc. snake_loop result (r # s) = snake_loop (acc @ [ToLower r]) s \<and> (acc = result \<or> acc = result @ ''_'')"
  by (cases "result \<noteq> [] \<and> IsUpper r \<and> last result \<noteq> CHR ''_''") (simp_all only: snake_loop.simps Let_def simp_thms if_True if_False, blast+)

lemma snake_loop_spec:
  "filter not_us (snake_loop acc s) = filter not_us (acc @ map ToLower s) \<and>
   (list_all (\<lambda>c. \<not> IsUpper c) acc \<longrightarrow> list_all (\<lambda>c. \<not> IsUpper c) (snake_loop acc s))"
proof (induction s arbitrary: acc)
  case Nil
  then show ?case by simp
next
  case (Cons r s)
  obtain acc' where a: "snake_loop acc (r # s) = snake_loop (acc' @ [ToLower r]) s"
    "acc' = acc \<or> acc' = acc @ ''_''"
    using snake_step by blast
  from a(2) have f: "filter not_us acc' = filter not_us acc"
    "list_all (\<lambda>c. \<not> IsUpper c) acc \<longrightarrow> list_all (\<lambda>c. \<not> IsUpper c) acc'"
    by (elim disjE; simp only: filter_append list_all_append list.pred_inject filter.simps not_us_facts
        if_False append_Nil2 simp_thms)+
  show ?case
    unfolding a(1) using Cons[of "acc' @ [ToLower r]"] f
    by (simp only: filter_append list_all_append list.pred_inject filter.simps not_us_facts ToLower_facts
        list.map append_assoc append.simps if_distrib simp_thms) auto
qed

lemma snake_loop_lower: "(\<forall>c\<in>set s. \<not> IsUpper c) \<Longrightarrow> snake_loop acc s = acc @ s"
  by (induction acc s rule: snake_loop.induct) (simp_all add: ToLower_def)

lemma write_sep_eq: "write_sep sep i cs b = b @ (if 0 < i \<and> cs \<noteq> [] then sep else []) @ joinStr sep cs"
proof (induction sep i cs b rule: write_sep.induct)
  case (2 sep i c cs b)
  then show ?case by (cases cs) simp_all
qed simp

text \<open>The conditions of a statement, and the statement as its parts.\<close>

definition in_cond :: "string list \<Rightarrow> string list \<Rightarrow> string" where
  "in_cond inCols tuples = ''('' @ joinStr '', '' inCols @ '') IN ('' @ joinStr '','' tuples @ '')''"

definition conditions :: "string list \<Rightarrow> string \<Rightarrow> string list \<Rightarrow> string list \<Rightarrow> string list" where
  "conditions fixedConds cond inCols tuples =
     fixedConds @ (if cond = [] then [] else [cond]) @ (if tuples = [] then [] else [in_cond inCols tuples])"

definition where_part :: "string list \<Rightarrow> string" where
  "where_part cs = (if cs = [] then [] else '' '' @ joinStr '' AND '' cs)"

definition opt_part :: "string \<Rightarrow> string" where
  "opt_part s = (if s = [] then [] else '' '' @ s)"

lemma foldl_sqls: "foldl (\<lambda>b sql. b @ sql @ sp) b sqls = b @ concat (map (\<lambda>s. s @ sp) sqls)"
  by (induction sqls arbitrary: b) simp_all

lemma opt_part_if: "(if s \<noteq> [] then b @ '' '' @ s else b) = b @ opt_part s"
  by (simp add: opt_part_def)

lemma BuildQuery_parts:
  "BuildQuery sqls table join fixedConds cond inCols tuples order limit =
     concat (map (\<lambda>s. s @ '' '') sqls) @ table @ '' '' @ join @ '' WHERE'' @
     where_part (conditions fixedConds cond inCols tuples) @ opt_part order @ opt_part limit"
  unfolding BuildQuery_def Let_def opt_part_if foldl_sqls write_sep_eq
  by (cases "fixedConds = []"; cases "cond = []"; cases "tuples = []")
    (simp_all add: writeAnd_def conditions_def where_part_def joinStr_append in_cond_def)

lemma qmarks_concat: "count_list (concat xs) c = sum_list (map (\<lambda>x. count_list x c) xs)"
  by (induction xs) simp_all

lemma qmarks_opt_part [simp]: "qmarks (opt_part s) = qmarks s"
  by (simp add: opt_part_def)

lemma qmarks_BuildQuery:
  "qmarks (BuildQuery sqls table join fixedConds cond inCols tuples order limit) =
     sum_list (map qmarks sqls) + qmarks table + qmarks join + sum_list (map qmarks fixedConds) + qmarks cond +
     (if tuples = [] then 0 else sum_list (map qmarks inCols) + sum_list (map qmarks tuples)) +
     qmarks order + qmarks limit"
  unfolding BuildQuery_parts
  by (simp add: qmarks_concat o_def count_joinStr conditions_def in_cond_def where_part_def)

text \<open>The estimate is enough: the builder never has to grow for a statement without an order.\<close>

lemma foldl_len: "foldl (\<lambda>t s. t + (f s :: int)) a xs = a + sum_list (map f xs)"
  by (induction xs arbitrary: a) simp_all

lemma estimateJoinLen_eq: "estimateJoinLen j = int (length (joinStr (Sep j) (Parts j)))"
proof (cases "Parts j")
  case Nil
  then show ?thesis by (simp add: estimateJoinLen_def)
next
  case (Cons x xs)
  have "sum_list (map (\<lambda>p. int (length p)) ps) = int (sum_list (map length ps))" for ps :: "string list"
    by (induction ps) simp_all
  then show ?thesis using Cons by (simp add: estimateJoinLen_def foldl_len length_joinStr)
qed

lemma length_BuildQuery_le:
  "int (length (BuildQuery sqls table join fixedConds cond inCols tuples order limit))
    \<le> query_estimate sqls table join fixedConds cond inCols tuples limit + int (length (opt_part order))"
proof -
  have s: "int (length (concat (map (\<lambda>s. s @ '' '') sqls))) \<le> sum_list (map (\<lambda>s. int (length s) + 5) sqls)"
    by (induction sqls) simp_all
  have c: "length (where_part (conditions fixedConds cond inCols tuples))
      \<le> length (joinStr '' AND '' fixedConds) + length cond + length (joinStr '', '' inCols)
        + length (joinStr '','' tuples) + 20"
    by (cases "fixedConds = []")
      (auto simp: conditions_def joinStr_append in_cond_def where_part_def)
  have o: "length (opt_part s) \<le> length s + 1" for s by (simp add: opt_part_def)
  have e: "query_estimate sqls table join fixedConds cond inCols tuples limit =
      sum_list (map (\<lambda>s. int (length s) + 5) sqls) + int (length table + length join + length cond + length limit
        + length (joinStr '' AND '' fixedConds) + length (joinStr '', '' inCols)
        + length (joinStr '','' tuples)) + 227"
    by (simp add: query_estimate_def estimateStrLen_def Let_def foldl_len estimateJoinLen_eq)
  show ?thesis
    unfolding BuildQuery_parts e
    using s c o[of limit] by simp
qed

end
