(* ===== verification/Sql_Meta.thy ===== *)
theory Sql_Meta
  imports Sql_Query
begin

section \<open>rivetxsql: structs as tables\<close>

text \<open>
  How \<open>rivetxsql/util.go\<close> reads a Go struct as a table: \<open>GoTypeToSql\<close>, \<open>getStructMeta\<close> with its
  cache, and the functions that take the columns and the values of a struct. A type is described
  by what \<open>reflect\<close> says of it, a struct value is the list of its fields. The cache
  \<open>metaCache\<close> is a map that the functions take and return.
\<close>

datatype kind =
    KUint | KUintptr | KUint64 | KUint8 | KUint16 | KUint32
  | KInt | KInt64 | KInt8 | KInt16 | KInt32
  | KString | KBool
  | KStruct string    \<comment> \<open>the name \<open>t.String()\<close>\<close>
  | KOther

record field =
  f_name :: string
  f_exported :: bool
  f_db :: string
  f_attr :: string
  f_size :: string
  f_type :: kind

record gotype =
  t_name :: string
  t_fields :: "field list"

datatype gtype = GStruct gotype | GPtr gtype | GOther

datatype sql_err =
    AtoiErr string
  | UnsupportedStruct string
  | TypErr
  | NotExported string string
  | DuplicatePrimary string
  | BadTagAttr string
  | MetaErr
  | NotStruct
  | EmptyInput
  | InLength nat nat nat          \<comment> \<open>the index, the length and the length of the columns\<close>
  | FixedLength
  | NoCondition
  | InLimit
  | InBatchOrder
  | InColsNoVals
  | InColsFirst
  | ScanColumns nat nat
  | OffsetLimit int int
  | NoOrderFieldValue
  | ExecErr goerr                 \<comment> \<open>the driver's error\<close>

record structMeta =
  cols :: "string list"
  fieldIndex :: "nat list"
  sqlTypes :: "string list"
  fixedAttr :: "string list"
  discardAutoCols :: "string list"
  discardAutoFieldIndex :: "nat list"
  autoColMap :: "string \<Rightarrow> bool option"
  primary :: string
  indexMap :: "string \<Rightarrow> string option"
  uniqueMap :: "string \<Rightarrow> string list option"

definition GoTypeToSql :: "kind \<Rightarrow> string \<Rightarrow> sql_err + string" where
  "GoTypeToSql k tagSize =
     (case k of
        KUint \<Rightarrow> Inr ''BIGINT UNSIGNED'' | KUintptr \<Rightarrow> Inr ''BIGINT UNSIGNED''
      | KUint64 \<Rightarrow> Inr ''BIGINT UNSIGNED''
      | KUint8 \<Rightarrow> Inr ''INT UNSIGNED'' | KUint16 \<Rightarrow> Inr ''INT UNSIGNED'' | KUint32 \<Rightarrow> Inr ''INT UNSIGNED''
      | KInt \<Rightarrow> Inr ''BIGINT'' | KInt64 \<Rightarrow> Inr ''BIGINT''
      | KInt8 \<Rightarrow> Inr ''INT'' | KInt16 \<Rightarrow> Inr ''INT'' | KInt32 \<Rightarrow> Inr ''INT''
      | KString \<Rightarrow>
          if tagSize = ''TINYTEXT'' \<or> tagSize = ''TEXT'' \<or> tagSize = ''MEDIUMTEXT'' \<or> tagSize = ''LONGTEXT''
          then Inr tagSize
          else if 0 < length tagSize then
            (case Atoi tagSize of
               None \<Rightarrow> Inl (AtoiErr tagSize)
             | Some n \<Rightarrow> Inr (''VARCHAR('' @ int_str n @ '')''))
          else Inr (''VARCHAR('' @ int_str 255 @ '')'')
      | KBool \<Rightarrow> Inr ''TINYINT(1)''
      | KStruct name \<Rightarrow>
          if Contains name ''Time'' then
            (case Atoi tagSize of
               None \<Rightarrow> Inr ''DATETIME''
             | Some n \<Rightarrow>
                 if length tagSize \<le> 0 then Inr ''DATETIME'' else Inr (''DATETIME('' @ int_str n @ '')''))
          else Inl (UnsupportedStruct name)
      | KOther \<Rightarrow> Inl TypErr)"

subsection \<open>getStructMeta\<close>

definition emptyMeta :: structMeta where
  "emptyMeta = \<lparr>cols = [], fieldIndex = [], sqlTypes = [], fixedAttr = [], discardAutoCols = [],
     discardAutoFieldIndex = [], autoColMap = Map.empty, primary = [], indexMap = Map.empty,
     uniqueMap = Map.empty\<rparr>"

text \<open>The loop over the comma-separated attributes of a field.\<close>

fun attr_loop ::
  "string \<Rightarrow> string \<Rightarrow> string list \<Rightarrow> bool \<Rightarrow> string \<Rightarrow> structMeta \<Rightarrow>
     sql_err + bool \<times> string \<times> structMeta" where
  "attr_loop tag tagAttr [] isAuto fixed meta = Inr (isAuto, fixed, meta)"
| "attr_loop tag tagAttr (a # attrs) isAuto fixed meta =
     (let attr = StringTrim a
      in if attr = ''auto'' then
           attr_loop tag tagAttr attrs True fixed (meta\<lparr>autoColMap := (autoColMap meta)(tag \<mapsto> True)\<rparr>)
         else if attr = ''primary'' then
           (if 0 < length (primary meta) then Inl (DuplicatePrimary tagAttr)
            else attr_loop tag tagAttr attrs isAuto fixed (meta\<lparr>primary := tag\<rparr>))
         else
           (let sub = Split CHR '':'' attr
            in if length sub = 1 then attr_loop tag tagAttr attrs isAuto (sub ! 0) meta
               else if length sub \<noteq> 2 then Inl (BadTagAttr tagAttr)
               else if sub ! 0 = ''index'' then
                 attr_loop tag tagAttr attrs isAuto fixed
                   (meta\<lparr>indexMap := (indexMap meta)(sub ! 1 \<mapsto> tag)\<rparr>)
               else if sub ! 0 = ''unique'' then
                 attr_loop tag tagAttr attrs isAuto fixed
                   (meta\<lparr>uniqueMap := (uniqueMap meta)(sub ! 1 \<mapsto>
                      (case uniqueMap meta (sub ! 1) of None \<Rightarrow> [] | Some xs \<Rightarrow> xs) @ [tag])\<rparr>)
               else Inl (BadTagAttr tagAttr)))"

text \<open>The body of the loop over the fields; \<open>i\<close> is the index of the field.\<close>

definition column_tag :: "string \<Rightarrow> string" where
  "column_tag tag = ReplaceAll CHR 0x09 '' '' (ReplaceAll CHR 0x0A [] tag)"

definition field_step :: "string \<Rightarrow> nat \<Rightarrow> field \<Rightarrow> structMeta \<Rightarrow> sql_err + structMeta" where
  "field_step tname i f meta =
     (let tag0 = StringTrim (f_db f)
      in if tag0 = ''-'' then Inr meta
         else if tag0 = [] \<and> \<not> f_exported f then Inr meta
         else if tag0 \<noteq> [] \<and> \<not> f_exported f then Inl (NotExported tname (f_name f))
         else
           (let tag = column_tag (if tag0 = [] then ToSnakeCase (f_name f) else tag0);
                meta1 = meta\<lparr>cols := cols meta @ [tag], fieldIndex := fieldIndex meta @ [i]\<rparr>;
                tagAttr = StringTrim (f_attr f)
            in case (if 0 < length tagAttr then attr_loop tag tagAttr (Split CHR '','' tagAttr) False [] meta1
                     else Inr (False, [], meta1)) of
                 Inl e \<Rightarrow> Inl e
               | Inr (auto0, fixed, meta2) \<Rightarrow>
                   (let meta3 = meta2\<lparr>fixedAttr := fixedAttr meta2 @ [fixed]\<rparr>;
                        isAuto = (auto0 \<or> Contains fixed ''DEFAULT'' \<and> Contains fixed ''CURRENT_TIMESTAMP'');
                        meta4 = (if isAuto then meta3
                                 else meta3\<lparr>discardAutoCols := discardAutoCols meta3 @ [tag],
                                            discardAutoFieldIndex := discardAutoFieldIndex meta3 @ [i]\<rparr>)
                    in case GoTypeToSql (f_type f) (StringTrim (f_size f)) of
                         Inl _ \<Rightarrow> Inl MetaErr
                       | Inr t \<Rightarrow> Inr (meta4\<lparr>sqlTypes := sqlTypes meta4 @ [t]\<rparr>))))"

fun fields_loop :: "string \<Rightarrow> nat \<Rightarrow> field list \<Rightarrow> structMeta \<Rightarrow> sql_err + structMeta" where
  "fields_loop tname i [] meta = Inr meta"
| "fields_loop tname i (f # fs) meta =
     (case field_step tname i f meta of
        Inl e \<Rightarrow> Inl e
      | Inr meta' \<Rightarrow> fields_loop tname (Suc i) fs meta')"

definition buildMeta :: "gotype \<Rightarrow> sql_err + structMeta" where
  "buildMeta t = fields_loop (t_name t) 0 (t_fields t) emptyMeta"

type_synonym meta_cache = "gotype \<Rightarrow> structMeta option"

definition getStructMeta :: "gotype \<Rightarrow> meta_cache \<Rightarrow> (sql_err + structMeta) \<times> meta_cache" where
  "getStructMeta t cache =
     (case cache t of
        Some meta \<Rightarrow> (Inr meta, cache)
      | None \<Rightarrow>
          (case buildMeta t of
             Inl e \<Rightarrow> (Inl e, cache)
           | Inr meta \<Rightarrow> (Inr meta, cache(t \<mapsto> meta))))"

definition StructMeta :: "gtype \<Rightarrow> meta_cache \<Rightarrow> (sql_err + structMeta) \<times> meta_cache" where
  "StructMeta typ cache =
     (case (case typ of GPtr t \<Rightarrow> t | t \<Rightarrow> t) of
        GStruct t \<Rightarrow> getStructMeta t cache
      | _ \<Rightarrow> (Inl NotStruct, cache))"

definition StructFields :: "gtype \<Rightarrow> meta_cache \<Rightarrow> (sql_err + string list) \<times> meta_cache" where
  "StructFields typ cache =
     (case StructMeta typ cache of (r, cache') \<Rightarrow> (map_sum id cols r, cache'))"

subsection \<open>The values of a struct\<close>

text \<open>
  What \<open>reflect.ValueOf\<close> sees: a nil interface, a pointer (\<open>None\<close> is the nil pointer), a value.
  A struct value has its type and its fields; other kinds have no fields.
\<close>

datatype 'v rval = RStruct gotype "'v list" | ROther
datatype 'v refl = RNil | RPtr "'v rval option" | RVal "'v rval"

text \<open>\<open>val.Field(idx).Interface()\<close> for each of the indices.\<close>

fun field_values :: "nat list \<Rightarrow> 'v rval \<Rightarrow> 'v list go" where
  "field_values [] val = Inr []"
| "field_values (i # is) val =
     (case val of
        ROther \<Rightarrow> Inl ReflectPanic
      | RStruct t vs \<Rightarrow>
          if i < length vs then
            (case field_values is val of Inl p \<Rightarrow> Inl p | Inr xs \<Rightarrow> Inr (vs ! i # xs))
          else Inl ReflectPanic)"

definition StructValues :: "structMeta \<Rightarrow> 'v refl \<Rightarrow> 'v list go" where
  "StructValues meta v =
     (case v of
        RPtr None \<Rightarrow> Inr []
      | RPtr (Some val) \<Rightarrow> field_values (fieldIndex meta) val
      | RVal val \<Rightarrow> field_values (fieldIndex meta) val
      | RNil \<Rightarrow> if fieldIndex meta = [] then Inr [] else Inl ReflectPanic)"

definition StructValuesByDiscardAuto :: "structMeta \<Rightarrow> 'v refl \<Rightarrow> 'v list go" where
  "StructValuesByDiscardAuto meta v =
     (case v of
        RPtr None \<Rightarrow> Inr []
      | RPtr (Some val) \<Rightarrow> field_values (discardAutoFieldIndex meta) val
      | RVal val \<Rightarrow> field_values (discardAutoFieldIndex meta) val
      | RNil \<Rightarrow> if discardAutoFieldIndex meta = [] then Inr [] else Inl ReflectPanic)"

definition StructFieldsAndValues ::
  "'v refl \<Rightarrow> meta_cache \<Rightarrow> (sql_err + string list \<times> 'v list) go \<times> meta_cache" where
  "StructFieldsAndValues v cache =
     (case v of
        RNil \<Rightarrow> (Inr (Inr ([], [])), cache)
      | RPtr None \<Rightarrow> (Inr (Inr ([], [])), cache)
      | _ \<Rightarrow>
          (case (case v of RPtr (Some x) \<Rightarrow> x | RVal x \<Rightarrow> x | _ \<Rightarrow> ROther) of
             ROther \<Rightarrow> (Inr (Inl NotStruct), cache)
           | RStruct t vs \<Rightarrow>
               (case getStructMeta t cache of
                  (Inl e, cache') \<Rightarrow> (Inr (Inl e), cache')
                | (Inr meta, cache') \<Rightarrow>
                    (case field_values (fieldIndex meta) (RStruct t vs) of
                       Inl p \<Rightarrow> (Inl p, cache')
                     | Inr xs \<Rightarrow> (Inr (Inr (cols meta, xs)), cache')))))"

end
