(* ===== verification/Sql_Batch.thy ===== *)
theory Sql_Batch
  imports Sql_Meta
begin

section \<open>rivetxsql: batches of statements\<close>

text \<open>
  The loops that cut the rows of a call into batches and run one statement for each, with what
  they promise. The database is the parameter \<open>exec\<close>, the \<open>ExecContext\<close> of the pool: state,
  timeout, statement and arguments give the next state and an error or the pair of affected rows
  and last insert id. \<open>logged exec\<close> is the same database that also records every statement it
  was sent; nothing is assumed of \<open>exec\<close>.
\<close>

type_synonym 'v stmt = "string \<times> 'v list \<times> (goerr + int \<times> int)"
type_synonym ('db, 'v) exec_fun = "'db \<Rightarrow> int \<Rightarrow> string \<Rightarrow> 'v list \<Rightarrow> 'db \<times> (goerr + int \<times> int)"

definition logged :: "('db, 'v) exec_fun \<Rightarrow> ('db \<times> 'v stmt list, 'v) exec_fun" where
  "logged exec s tmo q args =
     (case exec (fst s) tmo q args of (db, r) \<Rightarrow> ((db, snd s @ [(q, args, r)]), r))"

record 'db ExecState =
  e_db :: 'db
  TotalAffected :: int
  LastInsertId :: int

text \<open>\<open>ExecContext\<close> and the bookkeeping of the three batch closures.\<close>

definition exec_stmt ::
  "('db, 'v) exec_fun \<Rightarrow> int \<Rightarrow> string \<Rightarrow> 'v list \<Rightarrow> 'db ExecState \<Rightarrow> 'db ExecState \<times> sql_err option" where
  "exec_stmt exec tmo query args s =
     (case exec (e_db s) tmo query args of
        (db, Inl e) \<Rightarrow> (s\<lparr>e_db := db\<rparr>, Some (ExecErr e))
      | (db, Inr (affected, lastId)) \<Rightarrow>
          (\<lparr>e_db = db, TotalAffected = TotalAffected s + affected,
            LastInsertId = (if 0 < affected then lastId + affected - 1 else LastInsertId s)\<rparr>, None))"

definition tuple_str :: "'v list \<Rightarrow> string" where
  "tuple_str v = ''('' @ TrimRight (Repeat ''?,'' (length v)) '','' @ '')''"

subsection \<open>The loops\<close>

text \<open>\<open>for start := 0; start < len(vals); start += n { step(vals[start:end]) }\<close>\<close>

partial_function (option) for_batches ::
  "('a list \<Rightarrow> 's \<Rightarrow> 's \<times> sql_err option) \<Rightarrow> int \<Rightarrow> 'a list \<Rightarrow> int \<Rightarrow> 's \<Rightarrow>
     ('s \<times> sql_err option) go option" where
  "for_batches step n vals start s =
     (if start < int (length vals) then
        (case gslice vals start (if start + n > int (length vals) then int (length vals) else start + n) of
           Inl p \<Rightarrow> Some (Inl p)
         | Inr chunk \<Rightarrow>
             (case step chunk s of
                (s', Some e) \<Rightarrow> Some (Inr (s', Some e))
              | (s', None) \<Rightarrow> for_batches step n vals (start + n) s'))
      else Some (Inr (s, None)))"

text \<open>The loop that collects the batches first, as \<open>DeleteRaw\<close> and \<open>SelectRaw\<close> do.\<close>

partial_function (option) split_batches ::
  "int \<Rightarrow> 'a list \<Rightarrow> int \<Rightarrow> 'a list list \<Rightarrow> 'a list list go option" where
  "split_batches n vals start acc =
     (if start < int (length vals) then
        (case gslice vals start (if start + n > int (length vals) then int (length vals) else start + n) of
           Inl p \<Rightarrow> Some (Inl p)
         | Inr chunk \<Rightarrow> split_batches n vals (start + n) (acc @ [chunk]))
      else Some (Inr acc))"

definition batch_chunks :: "int \<Rightarrow> 'a list \<Rightarrow> 'a list list go option" where
  "batch_chunks n vals = (if 0 < length vals then split_batches n vals 0 [] else Some (Inr [[]]))"

text \<open>\<open>for _, chunk := range chunks { if err := step(chunk) ... }\<close>\<close>

fun run_chunks :: "('c \<Rightarrow> 's \<Rightarrow> 's \<times> sql_err option) \<Rightarrow> 'c list \<Rightarrow> 's \<Rightarrow> 's \<times> sql_err option" where
  "run_chunks step [] s = (s, None)"
| "run_chunks step (c # cs) s =
     (case step c s of
        (s', Some e) \<Rightarrow> (s', Some e)
      | (s', None) \<Rightarrow> run_chunks step cs s')"

subsection \<open>The batches\<close>

function chunks :: "nat \<Rightarrow> 'a list \<Rightarrow> 'a list list" where
  "chunks n xs = (if n = 0 \<or> xs = [] then [] else take n xs # chunks n (drop n xs))"
  by auto
termination by (relation "measure (\<lambda>(n, xs). length xs)") auto

declare chunks.simps [simp del]

lemma chunks_Nil [simp]: "chunks n [] = []"
  by (simp add: chunks.simps)

lemma concat_chunks: "0 < n \<Longrightarrow> concat (chunks n xs) = xs"
proof (induction n xs rule: chunks.induct)
  case (1 n xs)
  then show ?case by (cases "xs = []"; subst chunks.simps) auto
qed

lemma chunks_sizes: "c \<in> set (chunks n xs) \<Longrightarrow> c \<noteq> [] \<and> length c \<le> n"
proof (induction n xs rule: chunks.induct)
  case (1 n xs)
  then show ?case by (subst (asm) chunks.simps) (auto split: if_splits)
qed

lemma length_chunks: "0 < n \<Longrightarrow> length (chunks n xs) = (length xs + n - 1) div n"
proof (induction n xs rule: chunks.induct)
  case (1 n xs)
  show ?case
  proof (cases "xs = []")
    case True
    then show ?thesis using 1(2) by simp
  next
    case False
    then have "length (chunks n xs) = Suc ((length xs - n + n - 1) div n)"
      using 1 by (subst chunks.simps) simp
    also have "\<dots> = (length xs + n - 1) div n"
    proof (cases "n \<le> length xs")
      case True
      then have "(length xs + n - 1) = (length xs - n + n - 1) + n" using 1(2) by simp
      then show ?thesis using 1(2) by (simp only: div_add_self2)
    next
      case less: False
      then have "length xs + n - 1 = (length xs - 1) + n" "length xs - 1 < n" using False by (cases xs; simp)+
      then show ?thesis using less 1(2) by (simp only: div_add_self2) simp
    qed
    finally show ?thesis .
  qed
qed

lemma batch_slice:
  assumes "0 < n" and "k \<le> length vals"
  shows "gslice vals (int k) (if int k + int n > int (length vals) then int (length vals) else int k + int n)
    = Inr (take n (drop k vals))"
  using assms by (auto simp: gslice_def)

lemma for_batches_eq:
  assumes "0 < n" and "k \<le> length vals"
  shows "for_batches step (int n) vals (int k) s = Some (Inr (run_chunks step (chunks n (drop k vals)) s))"
  using assms(2)
proof (induction "length vals - k" arbitrary: k s rule: less_induct)
  case less
  show ?case
  proof (cases "k < length vals")
    case False
    then show ?thesis by (subst for_batches.simps) simp
  next
    case True
    have d: "chunks n (drop k vals) = take n (drop k vals) # chunks n (drop (k + n) vals)"
      using True assms(1) by (subst chunks.simps) (simp add: add.commute)
    have rest: "for_batches step (int n) vals (int k + int n) s'
        = Some (Inr (run_chunks step (chunks n (drop (k + n) vals)) s'))" for s'
    proof (cases "k + n \<le> length vals")
      case le: True
      then show ?thesis using less.hyps[of "k + n" s'] assms(1) True by simp
    next
      case False
      then show ?thesis by (subst for_batches.simps) simp
    qed
    show ?thesis unfolding d using True batch_slice[OF assms(1) less.prems] rest
      by (subst for_batches.simps) (simp split: prod.splits option.splits)
  qed
qed

lemma split_batches_eq:
  assumes "0 < n" and "k \<le> length vals"
  shows "split_batches (int n) vals (int k) acc = Some (Inr (acc @ chunks n (drop k vals)))"
  using assms(2)
proof (induction "length vals - k" arbitrary: k acc rule: less_induct)
  case less
  show ?case
  proof (cases "k < length vals")
    case False
    then show ?thesis by (subst split_batches.simps) simp
  next
    case True
    have d: "chunks n (drop k vals) = take n (drop k vals) # chunks n (drop (k + n) vals)"
      using True assms(1) by (subst chunks.simps) (simp add: add.commute)
    have rest: "split_batches (int n) vals (int k + int n) acc'
        = Some (Inr (acc' @ chunks n (drop (k + n) vals)))" for acc'
    proof (cases "k + n \<le> length vals")
      case le: True
      then show ?thesis using less.hyps[of "k + n" acc'] assms(1) True by simp
    next
      case False
      then show ?thesis by (subst split_batches.simps) simp
    qed
    show ?thesis unfolding d using True batch_slice[OF assms(1) less.prems] rest
      by (subst split_batches.simps) simp
  qed
qed

lemma batch_chunks_eq:
  "0 < n \<Longrightarrow> batch_chunks (int n) vals = Some (Inr (if vals = [] then [[]] else chunks n vals))"
  using split_batches_eq[of n 0 vals "[]"] by (simp add: batch_chunks_def)

subsection \<open>What a run of batches leaves in the log\<close>

text \<open>
  The interface of a batch step: it sends exactly one statement, for its chunk, counts the rows
  the statement reports, and fails exactly when the database refused the statement.
\<close>

definition accepted :: "'v stmt \<Rightarrow> bool" where
  "accepted l \<longleftrightarrow> (case l of (_, _, r) \<Rightarrow> \<not> isl r)"

definition affected :: "'v stmt \<Rightarrow> int" where
  "affected l = (case l of (_, _, r) \<Rightarrow> (case r of Inl _ \<Rightarrow> 0 | Inr (n, _) \<Rightarrow> n))"

definition sent :: "('db \<times> 'v stmt list) ExecState \<Rightarrow> 'v stmt list" where
  "sent s = snd (e_db s)"

locale batch_step =
  fixes step :: "'a list \<Rightarrow> ('db \<times> 'v stmt list) ExecState \<Rightarrow> ('db \<times> 'v stmt list) ExecState \<times> sql_err option"
    and query :: "'a list \<Rightarrow> string" and args :: "'a list \<Rightarrow> 'v list"
  assumes step_sends: "step c s = (s', e) \<Longrightarrow>
      \<exists>r. sent s' = sent s @ [(query c, args c, r)] \<and>
        TotalAffected s' = TotalAffected s + affected (query c, args c, r) \<and> (e = None \<longleftrightarrow> \<not> isl r)"
begin

lemma run_chunks_log:
  assumes "run_chunks step cs s = (s', e)"
  shows "\<exists>ls. sent s' = sent s @ ls \<and>
    map (\<lambda>l. (fst l, fst (snd l))) ls = map (\<lambda>c. (query c, args c)) (take (length ls) cs) \<and>
    TotalAffected s' = TotalAffected s + sum_list (map affected ls) \<and>
    (if e = None then length ls = length cs \<and> (\<forall>l\<in>set ls. accepted l)
     else ls \<noteq> [] \<and> length ls \<le> length cs \<and> \<not> accepted (last ls) \<and> (\<forall>l\<in>set (butlast ls). accepted l))"
  using assms
proof (induction cs arbitrary: s)
  case Nil
  then show ?case by simp
next
  case (Cons c cs)
  obtain s1 e1 where st: "step c s = (s1, e1)" by (cases "step c s")
  obtain r where r: "sent s1 = sent s @ [(query c, args c, r)]"
    "TotalAffected s1 = TotalAffected s + affected (query c, args c, r)" "e1 = None \<longleftrightarrow> \<not> isl r"
    using step_sends[OF st] by blast
  let ?l = "(query c, args c, r)"
  show ?case
  proof (cases e1)
    case (Some x)
    then have "s' = s1" "e = Some x" using Cons.prems st by auto
    then show ?thesis using r Some by (intro exI[of _ "[?l]"]) (simp add: accepted_def)
  next
    case None
    then have "run_chunks step cs s1 = (s', e)" using Cons.prems st by simp
    from Cons.IH[OF this] obtain ls where ls: "sent s' = sent s1 @ ls"
      "map (\<lambda>l. (fst l, fst (snd l))) ls = map (\<lambda>c. (query c, args c)) (take (length ls) cs)"
      "TotalAffected s' = TotalAffected s1 + sum_list (map affected ls)"
      "if e = None then length ls = length cs \<and> (\<forall>l\<in>set ls. accepted l)
       else ls \<noteq> [] \<and> length ls \<le> length cs \<and> \<not> accepted (last ls) \<and> (\<forall>l\<in>set (butlast ls). accepted l)"
      by blast
    have "accepted ?l" using r(3) None by (simp add: accepted_def)
    then show ?thesis using ls r
      by (intro exI[of _ "?l # ls"]) (auto split: if_splits)
  qed
qed

end

text \<open>The statements of a log, and what a call leaves in it and answers.\<close>

definition statements :: "'v stmt list \<Rightarrow> (string \<times> 'v list) list" where
  "statements log = map (\<lambda>l. (fst l, fst (snd l))) log"

definition batch_post ::
  "('c \<Rightarrow> string) \<Rightarrow> ('c \<Rightarrow> 'v list) \<Rightarrow> 'c list \<Rightarrow> 'v stmt list \<Rightarrow> int option \<Rightarrow> bool" where
  "batch_post query args cs log tot \<longleftrightarrow>
     statements log = map (\<lambda>c. (query c, args c)) (take (length log) cs) \<and>
     (case tot of
        Some n \<Rightarrow> length log = length cs \<and> (\<forall>l\<in>set log. accepted l) \<and> n = sum_list (map affected log)
      | None \<Rightarrow> log \<noteq> [] \<and> length log \<le> length cs \<and> \<not> accepted (last log) \<and>
          (\<forall>l\<in>set (butlast log). accepted l))"

lemma batch_post_all:
  "batch_post query args cs log (Some n) \<Longrightarrow> statements log = map (\<lambda>c. (query c, args c)) cs"
  by (simp add: batch_post_def)

lemma exec_stmt_logged:
  assumes "exec_stmt (logged exec) tmo q xs s = (s', e)"
  shows "\<exists>r. sent s' = sent s @ [(q, xs, r)] \<and>
    TotalAffected s' = TotalAffected s + affected (q, xs, r) \<and> (e = None \<longleftrightarrow> \<not> isl r)"
proof -
  obtain db r where r: "exec (fst (e_db s)) tmo q xs = (db, r)" by (cases "exec (fst (e_db s)) tmo q xs")
  show ?thesis
  proof (cases r)
    case (Inl x)
    then show ?thesis using assms r
      by (intro exI[of _ r]) (auto simp: exec_stmt_def logged_def sent_def affected_def)
  next
    case (Inr p)
    then show ?thesis using assms r
      by (intro exI[of _ r], cases p) (auto simp: exec_stmt_def logged_def sent_def affected_def)
  qed
qed

lemma qmarks_tuple_str [simp]: "qmarks (tuple_str v) = length v"
  by (simp add: tuple_str_def qmarks_qmark_list)

lemma sum_qmarks_tuples: "sum_list (map qmarks (map tuple_str vs)) = length (concat vs)"
  by (induction vs) simp_all

lemma count_ReplaceAll:
  "c \<noteq> d \<Longrightarrow> count_list r d = 0 \<Longrightarrow> count_list (ReplaceAll c r s) d = count_list s d"
  by (induction s) (auto simp: ReplaceAll_def)

end
