(* ===== verification/Sql_Insert.thy ===== *)
theory Sql_Insert
  imports Sql_Batch
begin

section \<open>rivetxsql: INSERT, UPDATE and CREATE TABLE\<close>

text \<open>
  \<open>rivetxsql/insert.go\<close>, \<open>update.go\<close> and \<open>create.go\<close>. The statements of a call are those
  of the loop \<open>for_batches\<close> over the rows; the timeout is an argument of the database. A
  \<open>Result\<close> is the \<open>InsertResult\<close> or \<open>UpdateResult\<close>. An operation takes the cache of struct
  metadata and returns the next one.
\<close>

record Result =
  res_TotalAffected :: int
  res_LastInsertID :: int

definition exec_result :: "'db ExecState \<times> sql_err option \<Rightarrow> 'db \<times> (sql_err + Result)" where
  "exec_result r =
     (case r of
        (s, Some e) \<Rightarrow> (e_db s, Inl e)
      | (s, None) \<Rightarrow>
          (e_db s, Inr \<lparr>res_TotalAffected = TotalAffected s, res_LastInsertID = LastInsertId s\<rparr>))"

definition exec_start :: "'db \<Rightarrow> 'db ExecState" where
  "exec_start db = \<lparr>e_db = db, TotalAffected = 0, LastInsertId = 0\<rparr>"

definition res_total :: "sql_err + Result \<Rightarrow> int option" where
  "res_total r = (case r of Inl _ \<Rightarrow> None | Inr res \<Rightarrow> Some (res_TotalAffected res))"

text \<open>\<open>for i, vals := range vals { if len(vals) != len(cols) ... }\<close>\<close>

fun check_widths :: "nat \<Rightarrow> nat \<Rightarrow> 'v list list \<Rightarrow> sql_err option" where
  "check_widths w i [] = None"
| "check_widths w i (v # vs) =
     (if length v \<noteq> w then Some (InLength i (length v) w) else check_widths w (Suc i) vs)"

subsection \<open>InsertRaw and Insert\<close>

definition Insert_query :: "bool \<Rightarrow> string \<Rightarrow> string list \<Rightarrow> string \<Rightarrow> 'v list list \<Rightarrow> string" where
  "Insert_query ignoreDuplicate table cs onDup chunk =
     (let kw = (if ignoreDuplicate then ''INSERT IGNORE'' else ''INSERT'');
          q = kw @ '' INTO '' @ table @ '' ('' @ joinStr '', '' cs @ '') VALUES '' @
              joinStr '','' (map tuple_str chunk)
      in if onDup \<noteq> [] then q @ '' ON DUPLICATE KEY UPDATE '' @ onDup else q)"

definition InsertRaw_step ::
  "('db, 'v) exec_fun \<Rightarrow> int \<Rightarrow> bool \<Rightarrow> string \<Rightarrow> string list \<Rightarrow> string \<Rightarrow> 'v list list \<Rightarrow>
     'db ExecState \<Rightarrow> 'db ExecState \<times> sql_err option" where
  "InsertRaw_step exec tmo ignoreDuplicate table cs onDup chunk s =
     exec_stmt exec tmo (Insert_query ignoreDuplicate table cs onDup chunk) (concat chunk) s"

definition InsertRaw ::
  "('db, 'v) exec_fun \<Rightarrow> string \<Rightarrow> string list \<Rightarrow> 'v list list \<Rightarrow> int \<Rightarrow> string \<Rightarrow> bool \<Rightarrow> int \<Rightarrow> 'db \<Rightarrow>
     ('db \<times> (sql_err + Result)) go option" where
  "InsertRaw exec table cs vals maxPerBatch onDup ignoreDuplicate timeout db =
     (if length vals = 0 \<or> length cs = 0 then Some (Inr (db, Inl EmptyInput))
      else
        (case check_widths (length cs) 0 vals of
           Some e \<Rightarrow> Some (Inr (db, Inl e))
         | None \<Rightarrow>
             (let tmo = (if timeout = 0 then Timeout else timeout);
                  n = (if maxPerBatch \<le> 0 then BatchSize else maxPerBatch)
              in map_option (map_sum id exec_result)
                   (for_batches (InsertRaw_step exec tmo ignoreDuplicate table cs onDup) n vals 0
                      (exec_start db)))))"

text \<open>The loop \<open>for _, d := range data\<close> over a function that can panic.\<close>

fun go_map :: "('a \<Rightarrow> 'b go) \<Rightarrow> 'a list \<Rightarrow> 'b list go" where
  "go_map f [] = Inr []"
| "go_map f (x # xs) =
     (case f x of
        Inl p \<Rightarrow> Inl p
      | Inr y \<Rightarrow> (case go_map f xs of Inl p \<Rightarrow> Inl p | Inr ys \<Rightarrow> Inr (y # ys)))"

definition Insert ::
  "('db, 'v) exec_fun \<Rightarrow> gtype \<Rightarrow> string \<Rightarrow> 'v refl list \<Rightarrow> int \<Rightarrow> string \<Rightarrow> bool \<Rightarrow> int \<Rightarrow> meta_cache \<Rightarrow>
     'db \<Rightarrow> meta_cache \<times> ('db \<times> (sql_err + Result)) go option" where
  "Insert exec typ table data maxPerBatch onDup ignoreDuplicate timeout cache db =
     (if length data = 0 then (cache, Some (Inr (db, Inl EmptyInput)))
      else
        (case StructMeta typ cache of
           (Inl e, cache') \<Rightarrow> (cache', Some (Inr (db, Inl e)))
         | (Inr meta, cache') \<Rightarrow>
             (cache',
              (case go_map (StructValuesByDiscardAuto meta) data of
                 Inl p \<Rightarrow> Some (Inl p)
               | Inr vals \<Rightarrow>
                   InsertRaw exec table (discardAutoCols meta) vals maxPerBatch onDup ignoreDuplicate timeout db))))"

record 'v InsertBuilder =
  ib_table :: string
  ib_data :: "'v refl list"
  ib_maxPerBatch :: int
  ib_onDuplicateUpdate :: string
  ib_ignoreDuplicate :: bool
  ib_timeout :: int

definition NewInsert :: "string \<Rightarrow> 'v refl list \<Rightarrow> 'v InsertBuilder" where
  "NewInsert table data = \<lparr>ib_table = table, ib_data = data, ib_maxPerBatch = BatchSize,
     ib_onDuplicateUpdate = [], ib_ignoreDuplicate = False, ib_timeout = Timeout\<rparr>"

definition InsertBuilder_BatchSize :: "'v InsertBuilder \<Rightarrow> int \<Rightarrow> 'v InsertBuilder" where
  "InsertBuilder_BatchSize b n = b\<lparr>ib_maxPerBatch := n\<rparr>"
definition InsertBuilder_OnDuplicateUpdate :: "'v InsertBuilder \<Rightarrow> string \<Rightarrow> 'v InsertBuilder" where
  "InsertBuilder_OnDuplicateUpdate b s = b\<lparr>ib_onDuplicateUpdate := s\<rparr>"
definition InsertBuilder_IgnoreDuplicate :: "'v InsertBuilder \<Rightarrow> 'v InsertBuilder" where
  "InsertBuilder_IgnoreDuplicate b = b\<lparr>ib_ignoreDuplicate := True\<rparr>"
definition InsertBuilder_Timeout :: "'v InsertBuilder \<Rightarrow> int \<Rightarrow> 'v InsertBuilder" where
  "InsertBuilder_Timeout b t = b\<lparr>ib_timeout := t\<rparr>"

definition InsertBuilder_Exec ::
  "('db, 'v) exec_fun \<Rightarrow> gtype \<Rightarrow> 'v InsertBuilder \<Rightarrow> meta_cache \<Rightarrow> 'db \<Rightarrow>
     meta_cache \<times> ('db \<times> (sql_err + Result)) go option" where
  "InsertBuilder_Exec exec typ b cache db =
     Insert exec typ (ib_table b) (ib_data b) (ib_maxPerBatch b) (ib_onDuplicateUpdate b)
       (ib_ignoreDuplicate b) (ib_timeout b) cache db"

subsection \<open>UpdateRaw and Update\<close>

definition Update_query :: "string \<Rightarrow> string list \<Rightarrow> string list \<Rightarrow> string list \<Rightarrow> 'v list list \<Rightarrow> string" where
  "Update_query table cs joinOn setExpr chunk =
     (let rows = map (\<lambda>v. ''ROW'' @ tuple_str v) chunk;
          onConditions = map (\<lambda>c. ''u.'' @ c @ '' = v.'' @ c) joinOn;
          nl = [CHR 0x0A]
      in ReplaceAll CHR 0x0A []
           ('' '' @ nl @ ''UPDATE '' @ table @ '' AS u '' @ nl @
            ''JOIN (VALUES '' @ joinStr '', '' rows @ '') AS v('' @ joinStr '', '' cs @ '') '' @ nl @
            ''ON '' @ joinStr '' AND '' onConditions @ '' '' @ nl @
            ''SET '' @ joinStr '', '' setExpr @ '' ''))"

definition UpdateRaw_step ::
  "('db, 'v) exec_fun \<Rightarrow> int \<Rightarrow> string \<Rightarrow> string list \<Rightarrow> string list \<Rightarrow> string list \<Rightarrow> 'v list list \<Rightarrow>
     'db ExecState \<Rightarrow> 'db ExecState \<times> sql_err option" where
  "UpdateRaw_step exec tmo table cs joinOn setExpr chunk s =
     exec_stmt exec tmo (Update_query table cs joinOn setExpr chunk) (concat chunk) s"

definition UpdateRaw ::
  "('db, 'v) exec_fun \<Rightarrow> string \<Rightarrow> string list \<Rightarrow> 'v list list \<Rightarrow> string list \<Rightarrow> string list \<Rightarrow> int \<Rightarrow> int \<Rightarrow>
     'db \<Rightarrow> ('db \<times> (sql_err + Result)) go option" where
  "UpdateRaw exec table cs vals joinOn setExpr maxPerBatch timeout db =
     (if length vals = 0 \<or> length cs = 0 \<or> length joinOn = 0 \<or> length setExpr = 0
      then Some (Inr (db, Inl EmptyInput))
      else
        (case check_widths (length cs) 0 vals of
           Some e \<Rightarrow> Some (Inr (db, Inl e))
         | None \<Rightarrow>
             (let n = (if maxPerBatch \<le> 0 then BatchSize else maxPerBatch);
                  tmo = (if timeout = 0 then Timeout else timeout)
              in map_option (map_sum id exec_result)
                   (for_batches (UpdateRaw_step exec tmo table cs joinOn setExpr) n vals 0
                      (exec_start db)))))"

text \<open>The loop over \<open>StructFieldsAndValues\<close>, which threads the cache; it returns the values.\<close>

fun all_values ::
  "'v refl list \<Rightarrow> meta_cache \<Rightarrow> (sql_err + 'v list list) go \<times> meta_cache" where
  "all_values [] cache = (Inr (Inr []), cache)"
| "all_values (d # ds) cache =
     (case StructFieldsAndValues d cache of
        (Inl p, cache') \<Rightarrow> (Inl p, cache')
      | (Inr (Inl e), cache') \<Rightarrow> (Inr (Inl e), cache')
      | (Inr (Inr (_, v)), cache') \<Rightarrow>
          (case all_values ds cache' of
             (Inr (Inr vs), cache'') \<Rightarrow> (Inr (Inr (v # vs)), cache'')
           | r \<Rightarrow> r))"

definition Update ::
  "('db, 'v) exec_fun \<Rightarrow> gtype \<Rightarrow> string \<Rightarrow> 'v refl list \<Rightarrow> string list \<Rightarrow> string list \<Rightarrow> int \<Rightarrow> int \<Rightarrow>
     meta_cache \<Rightarrow> 'db \<Rightarrow> meta_cache \<times> ('db \<times> (sql_err + Result)) go option" where
  "Update exec typ table vals joinOn setExpr maxPerBatch timeout cache db =
     (if length vals = 0 \<or> length joinOn = 0 \<or> length setExpr = 0
      then (cache, Some (Inr (db, Inl EmptyInput)))
      else
        (case StructFields typ cache of
           (Inl e, c1) \<Rightarrow> (c1, Some (Inr (db, Inl e)))
         | (Inr cs, c1) \<Rightarrow>
             (case all_values vals c1 of
                (Inl p, c2) \<Rightarrow> (c2, Some (Inl p))
              | (Inr (Inl e), c2) \<Rightarrow> (c2, Some (Inr (db, Inl e)))
              | (Inr (Inr vals2d), c2) \<Rightarrow>
                  (c2, UpdateRaw exec table cs vals2d joinOn setExpr
                         (if maxPerBatch \<le> 0 then BatchSize else maxPerBatch) timeout db))))"

record 'v UpdateBuilder =
  ub_table :: string
  ub_data :: "'v refl list"
  ub_maxPerBatch :: int
  ub_joinOn :: "string list"
  ub_setExpr :: "string list"
  ub_timeout :: int

definition NewUpdate :: "string \<Rightarrow> 'v refl list \<Rightarrow> 'v UpdateBuilder" where
  "NewUpdate table data = \<lparr>ub_table = table, ub_data = data, ub_maxPerBatch = BatchSize,
     ub_joinOn = [], ub_setExpr = [], ub_timeout = Timeout\<rparr>"

definition UpdateBuilder_BatchSize :: "'v UpdateBuilder \<Rightarrow> int \<Rightarrow> 'v UpdateBuilder" where
  "UpdateBuilder_BatchSize b n = b\<lparr>ub_maxPerBatch := n\<rparr>"
definition UpdateBuilder_JoinOn :: "'v UpdateBuilder \<Rightarrow> string list \<Rightarrow> 'v UpdateBuilder" where
  "UpdateBuilder_JoinOn b j = b\<lparr>ub_joinOn := j\<rparr>"
definition UpdateBuilder_SetExpr :: "'v UpdateBuilder \<Rightarrow> string list \<Rightarrow> 'v UpdateBuilder" where
  "UpdateBuilder_SetExpr b x = b\<lparr>ub_setExpr := x\<rparr>"
definition UpdateBuilder_Timeout :: "'v UpdateBuilder \<Rightarrow> int \<Rightarrow> 'v UpdateBuilder" where
  "UpdateBuilder_Timeout b t = b\<lparr>ub_timeout := t\<rparr>"

definition UpdateBuilder_Exec ::
  "('db, 'v) exec_fun \<Rightarrow> gtype \<Rightarrow> 'v UpdateBuilder \<Rightarrow> meta_cache \<Rightarrow> 'db \<Rightarrow>
     meta_cache \<times> ('db \<times> (sql_err + Result)) go option" where
  "UpdateBuilder_Exec exec typ b cache db =
     Update exec typ (ub_table b) (ub_data b) (ub_joinOn b) (ub_setExpr b) (ub_maxPerBatch b)
       (ub_timeout b) cache db"

subsection \<open>Create\<close>

text \<open>
  The statement of \<open>Create\<close>. A Go map is ranged over in an order of its own: \<open>ukeys\<close> and
  \<open>ikeys\<close> are the keys of \<open>uniqueMap\<close> and \<open>indexMap\<close> in the order of the call.
\<close>

fun Create_cols :: "structMeta \<Rightarrow> nat \<Rightarrow> string list \<Rightarrow> string \<Rightarrow> string go" where
  "Create_cols meta i [] query = Inr query"
| "Create_cols meta i (col # cs) query =
     (let auto = (if autoColMap meta col = Some True then ''AUTO_INCREMENT'' else [])
      in if i < length (fixedAttr meta) then
           (let fixed = (if length (fixedAttr meta ! i) \<le> 0 then ''NOT NULL'' else fixedAttr meta ! i)
            in if i < length (sqlTypes meta) then
                 Create_cols meta (Suc i) cs
                   (query @ '' '' @ col @ '' '' @ sqlTypes meta ! i @ '' '' @ fixed @ '' '' @ auto @ '', '')
               else Inl IndexRange)
         else Inl IndexRange)"

fun Create_unique_cols :: "nat \<Rightarrow> nat \<Rightarrow> string list \<Rightarrow> string \<Rightarrow> string" where
  "Create_unique_cols n i [] query = query"
| "Create_unique_cols n i (v # vs) query =
     Create_unique_cols n (Suc i) vs
       (if i \<noteq> n - 1 then (query @ '' '' @ v @ '' '') @ '','' else query @ '' '' @ v @ '' '')"

fun Create_uniques :: "structMeta \<Rightarrow> string list \<Rightarrow> string \<Rightarrow> string" where
  "Create_uniques meta [] query = query"
| "Create_uniques meta (k # ks) query =
     (let vs = (case uniqueMap meta k of None \<Rightarrow> [] | Some vs \<Rightarrow> vs)
      in Create_uniques meta ks
           (Create_unique_cols (length vs) 0 vs (query @ '' UNIQUE INDEX '' @ k @ '' ( '') @ ''),''))"

fun Create_indexes :: "structMeta \<Rightarrow> string list \<Rightarrow> string \<Rightarrow> string" where
  "Create_indexes meta [] query = query"
| "Create_indexes meta (k # ks) query =
     Create_indexes meta ks
       (query @ '' INDEX '' @ k @ '' ( '' @ (case indexMap meta k of None \<Rightarrow> [] | Some v \<Rightarrow> v) @ '' ),'')"

definition Create_query :: "string \<Rightarrow> structMeta \<Rightarrow> string list \<Rightarrow> string list \<Rightarrow> string option go" where
  "Create_query tableName meta ukeys ikeys =
     (case Create_cols meta 0 (cols meta) (''CREATE TABLE IF NOT EXISTS '' @ tableName @ '' ('') of
        Inl p \<Rightarrow> Inl p
      | Inr q0 \<Rightarrow>
          (let q1 = (if 0 < length (primary meta) then q0 @ '' PRIMARY KEY ('' @ primary meta @ ''), '' else q0);
               q2 = StringTrim (Create_indexes meta ikeys (Create_uniques meta ukeys q1))
           in if length q2 \<le> 0 then Inr None
              else Inr (Some ((if last q2 = CHR '','' then butlast q2 else q2) @ '');''))))"

definition Create ::
  "('db, 'v) exec_fun \<Rightarrow> gtype \<Rightarrow> string \<Rightarrow> int \<Rightarrow> string list \<Rightarrow> string list \<Rightarrow> meta_cache \<Rightarrow> 'db \<Rightarrow>
     meta_cache \<times> ('db \<times> sql_err option) go" where
  "Create exec typ tableName timeout ukeys ikeys cache db =
     (case StructMeta typ cache of
        (Inl e, c1) \<Rightarrow> (c1, Inr (db, Some e))
      | (Inr meta, c1) \<Rightarrow>
          (c1,
           (case Create_query tableName meta ukeys ikeys of
              Inl p \<Rightarrow> Inl p
            | Inr None \<Rightarrow> Inr (db, Some EmptyInput)
            | Inr (Some query) \<Rightarrow>
                (case exec db (if timeout = 0 then Timeout else timeout) query [] of
                   (db', Inl e) \<Rightarrow> Inr (db', Some (ExecErr e))
                 | (db', Inr _) \<Rightarrow> Inr (db', None)))))"

end
