(* ===== verification/Sql_Delete.thy ===== *)
theory Sql_Delete
  imports Sql_Insert
begin

section \<open>rivetxsql: DELETE and the connection\<close>

text \<open>
  \<open>rivetxsql/delete.go\<close> and the settings of \<open>conn.go\<close>. \<open>DeleteRaw\<close> collects its batches
  first and runs one statement for each; \<open>execReserveSize\<close> repeats a limited delete until it
  deletes nothing, so it is a \<open>partial_function\<close>.
\<close>

definition fixed_conds :: "string list \<Rightarrow> string list" where
  "fixed_conds cs = map (\<lambda>col. col @ '' = ?'') cs"

subsection \<open>DeleteRaw\<close>

definition Delete_limit :: "int \<Rightarrow> string" where
  "Delete_limit limit = (if 0 < limit then '' LIMIT '' @ int_str limit @ '' '' else [])"

definition Delete_query :: "string \<Rightarrow> 'v QueryCond \<Rightarrow> string \<Rightarrow> int \<Rightarrow> 'v list list \<Rightarrow> string" where
  "Delete_query table g cond limit chunk =
     BuildQuery [''DELETE FROM ''] table [] (fixed_conds (FixedCols g)) cond (InCols g)
       (map tuple_str chunk) [] (Delete_limit limit)"

definition Delete_args :: "'v QueryCond \<Rightarrow> 'v list \<Rightarrow> 'v list list \<Rightarrow> 'v list" where
  "Delete_args g condArgs chunk =
     (if 0 < length (FixedCols g) then FixedVals g else []) @ condArgs @ concat chunk"

definition DeleteRaw_step ::
  "('db, 'v) exec_fun \<Rightarrow> int \<Rightarrow> string \<Rightarrow> 'v QueryCond \<Rightarrow> string \<Rightarrow> 'v list \<Rightarrow> int \<Rightarrow> 'v list list \<Rightarrow>
     'db ExecState \<Rightarrow> 'db ExecState \<times> sql_err option" where
  "DeleteRaw_step exec tmo table g cond condArgs limit chunk s =
     exec_stmt exec tmo (Delete_query table g cond limit chunk) (Delete_args g condArgs chunk) s"

definition DeleteRaw ::
  "('db, 'v) exec_fun \<Rightarrow> string \<Rightarrow> 'v QueryCond \<Rightarrow> string \<Rightarrow> 'v list \<Rightarrow> int \<Rightarrow> int \<Rightarrow> 'db \<Rightarrow>
     ('db \<times> (sql_err + Result)) go option" where
  "DeleteRaw exec table g cond condArgs limit timeout db =
     (let tmo = (if timeout = 0 then Timeout else timeout)
      in if length (FixedCols g) \<noteq> length (FixedVals g) then Some (Inr (db, Inl FixedLength))
         else
           (case check_widths (length (InCols g)) 0 (InVals g) of
              Some e \<Rightarrow> Some (Inr (db, Inl e))
            | None \<Rightarrow>
                if length (FixedCols g) \<le> 0 \<and> length (InCols g) \<le> 0 \<and> length cond \<le> 0
                then Some (Inr (db, Inl NoCondition))
                else
                  (let n = (if InBatchSize g \<le> 0 then BatchSize else InBatchSize g)
                   in if n < int (length (InVals g)) \<and> 0 < limit then Some (Inr (db, Inl InLimit))
                      else
                        (case batch_chunks n (InVals g) of
                           None \<Rightarrow> None
                         | Some (Inl p) \<Rightarrow> Some (Inl p)
                         | Some (Inr cs) \<Rightarrow>
                             Some (Inr (exec_result
                               (run_chunks (DeleteRaw_step exec tmo table g cond condArgs limit) cs
                                 (exec_start db))))))))"

subsection \<open>Delete and the builder\<close>

text \<open>The struct conditions of a query: \<open>Fixed\<close> is a pointer, the others are values.\<close>

definition struct_cond ::
  "gtype \<Rightarrow> 'v refl \<Rightarrow> 'v refl list \<Rightarrow> meta_cache \<Rightarrow> (sql_err + 'v QueryCond) go \<times> meta_cache" where
  "struct_cond ityp fixed ins cache =
     (case StructFieldsAndValues fixed cache of
        (Inl p, c1) \<Rightarrow> (Inl p, c1)
      | (Inr (Inl e), c1) \<Rightarrow> (Inr (Inl e), c1)
      | (Inr (Inr (fcols, fvals)), c1) \<Rightarrow>
          if 0 < length ins then
            (case StructFields ityp c1 of
               (Inl e, c2) \<Rightarrow> (Inr (Inl e), c2)
             | (Inr icols, c2) \<Rightarrow>
                 (case all_values ins c2 of
                    (Inl p, c3) \<Rightarrow> (Inl p, c3)
                  | (Inr (Inl e), c3) \<Rightarrow> (Inr (Inl e), c3)
                  | (Inr (Inr ivals), c3) \<Rightarrow>
                      (Inr (Inr \<lparr>FixedCols = fcols, FixedVals = fvals, InCols = icols, InVals = ivals,
                         InBatchSize = 0\<rparr>), c3)))
          else
            (Inr (Inr \<lparr>FixedCols = fcols, FixedVals = fvals, InCols = [], InVals = [], InBatchSize = 0\<rparr>), c1))"

definition Delete ::
  "('db, 'v) exec_fun \<Rightarrow> gtype \<Rightarrow> string \<Rightarrow> 'v refl \<Rightarrow> 'v refl list \<Rightarrow> string \<Rightarrow> 'v list \<Rightarrow> int \<Rightarrow> meta_cache \<Rightarrow>
     'db \<Rightarrow> meta_cache \<times> ('db \<times> (sql_err + Result)) go option" where
  "Delete exec ityp table fixed ins cond condArgs timeout cache db =
     (case struct_cond ityp fixed ins cache of
        (Inl p, c1) \<Rightarrow> (c1, Some (Inl p))
      | (Inr (Inl e), c1) \<Rightarrow> (c1, Some (Inr (db, Inl e)))
      | (Inr (Inr g), c1) \<Rightarrow> (c1, DeleteRaw exec table g cond condArgs 0 timeout db))"

record 'v DeleteBuilder =
  db_table :: string
  db_queryCond :: "'v QueryCond"
  db_cond :: string
  db_condArgs :: "'v list"
  db_limit :: int
  db_timeout :: int
  db_reserveField :: string
  db_reserveSize :: int
  db_reserveSleep :: int

definition emptyCond :: "'v QueryCond" where
  "emptyCond = \<lparr>FixedCols = [], FixedVals = [], InCols = [], InVals = [], InBatchSize = 0\<rparr>"

definition NewDelete :: "string \<Rightarrow> 'v DeleteBuilder" where
  "NewDelete table = \<lparr>db_table = table, db_queryCond = emptyCond, db_cond = [], db_condArgs = [],
     db_limit = 0, db_timeout = Timeout, db_reserveField = [], db_reserveSize = 0, db_reserveSleep = 0\<rparr>"

definition Cond_WhereEq :: "'v QueryCond \<Rightarrow> string \<Rightarrow> 'v \<Rightarrow> 'v QueryCond" where
  "Cond_WhereEq g c v = g\<lparr>FixedCols := FixedCols g @ [c], FixedVals := FixedVals g @ [v]\<rparr>"

definition DeleteBuilder_WhereEq :: "'v DeleteBuilder \<Rightarrow> string \<Rightarrow> 'v \<Rightarrow> 'v DeleteBuilder" where
  "DeleteBuilder_WhereEq b c v = b\<lparr>db_queryCond := Cond_WhereEq (db_queryCond b) c v\<rparr>"
definition DeleteBuilder_WhereIn :: "'v DeleteBuilder \<Rightarrow> string list \<Rightarrow> 'v list list \<Rightarrow> 'v DeleteBuilder" where
  "DeleteBuilder_WhereIn b cs vs = b\<lparr>db_queryCond := (db_queryCond b)\<lparr>InCols := cs, InVals := vs\<rparr>\<rparr>"
definition DeleteBuilder_WhereInBatchSize :: "'v DeleteBuilder \<Rightarrow> int \<Rightarrow> 'v DeleteBuilder" where
  "DeleteBuilder_WhereInBatchSize b n = b\<lparr>db_queryCond := (db_queryCond b)\<lparr>InBatchSize := n\<rparr>\<rparr>"
definition DeleteBuilder_Where :: "'v DeleteBuilder \<Rightarrow> string \<Rightarrow> 'v list \<Rightarrow> 'v DeleteBuilder" where
  "DeleteBuilder_Where b cond args =
     (case Where (db_cond b) (db_condArgs b) cond args of (c, a) \<Rightarrow> b\<lparr>db_cond := c, db_condArgs := a\<rparr>)"
definition DeleteBuilder_Limit :: "'v DeleteBuilder \<Rightarrow> int \<Rightarrow> 'v DeleteBuilder" where
  "DeleteBuilder_Limit b n = b\<lparr>db_limit := n\<rparr>"
definition DeleteBuilder_Timeout :: "'v DeleteBuilder \<Rightarrow> int \<Rightarrow> 'v DeleteBuilder" where
  "DeleteBuilder_Timeout b t = b\<lparr>db_timeout := t\<rparr>"
definition DeleteBuilder_ReserveSize :: "'v DeleteBuilder \<Rightarrow> string \<Rightarrow> int \<Rightarrow> int \<Rightarrow> 'v DeleteBuilder" where
  "DeleteBuilder_ReserveSize b f n sleep =
     DeleteBuilder_Limit (b\<lparr>db_reserveField := f, db_reserveSize := n, db_reserveSleep := sleep\<rparr>) BatchSize"

text \<open>\<open>DeleteRaw\<close> with the settings of a builder: \<open>Exec\<close> without a reserve field.\<close>

definition DeleteBuilder_raw ::
  "('db, 'v) exec_fun \<Rightarrow> 'v DeleteBuilder \<Rightarrow> 'db \<Rightarrow> ('db \<times> (sql_err + Result)) go option" where
  "DeleteBuilder_raw exec b db =
     DeleteRaw exec (db_table b) (db_queryCond b) (db_cond b) (db_condArgs b) (db_limit b) (db_timeout b) db"

text \<open>
  \<open>execReserveSize\<close>. \<open>qkey\<close> is the query of the key: it answers with an error or with the key,
  \<open>None\<close> where there is no row or the value is NULL.
\<close>

definition reserve_delete :: "'v DeleteBuilder \<Rightarrow> 'v \<Rightarrow> 'v DeleteBuilder" where
  "reserve_delete b key =
     DeleteBuilder_Limit (DeleteBuilder_Where (NewDelete (db_table b)) (db_reserveField b @ '' <= ?'') [key])
       (if db_limit b \<le> 0 then BatchSize else db_limit b)"

partial_function (option) reserve_loop ::
  "('db, 'v) exec_fun \<Rightarrow> 'v DeleteBuilder \<Rightarrow> 'v \<Rightarrow> Result \<Rightarrow> 'db \<Rightarrow> ('db \<times> (sql_err + Result)) go option" where
  "reserve_loop exec b key acc db =
     (case DeleteBuilder_raw exec (reserve_delete b key) db of
        None \<Rightarrow> None
      | Some (Inl p) \<Rightarrow> Some (Inl p)
      | Some (Inr (db', Inl e)) \<Rightarrow> Some (Inr (db', Inl e))
      | Some (Inr (db', Inr res)) \<Rightarrow>
          if res_TotalAffected res \<le> 0 then Some (Inr (db', Inr acc))
          else reserve_loop exec b key
                 \<lparr>res_TotalAffected = res_TotalAffected acc + res_TotalAffected res,
                  res_LastInsertID = res_LastInsertID res\<rparr> db')"

definition reserve_query :: "'v DeleteBuilder \<Rightarrow> string" where
  "reserve_query b = ''SELECT '' @ db_reserveField b @ '' FROM '' @ db_table b @ '' ORDER BY '' @
     db_reserveField b @ '' DESC LIMIT 1 OFFSET '' @ int_str (db_reserveSize b)"

definition DeleteBuilder_execReserveSize ::
  "('db, 'v) exec_fun \<Rightarrow> ('db \<Rightarrow> string \<Rightarrow> 'db \<times> (goerr + 'v option)) \<Rightarrow> 'v DeleteBuilder \<Rightarrow> 'db \<Rightarrow>
     ('db \<times> (sql_err + Result)) go option" where
  "DeleteBuilder_execReserveSize exec qkey b db =
     (case qkey db (reserve_query b) of
        (db', Inl e) \<Rightarrow> Some (Inr (db', Inl (ExecErr e)))
      | (db', Inr None) \<Rightarrow> Some (Inr (db', Inr \<lparr>res_TotalAffected = 0, res_LastInsertID = 0\<rparr>))
      | (db', Inr (Some key)) \<Rightarrow>
          reserve_loop exec b key \<lparr>res_TotalAffected = 0, res_LastInsertID = 0\<rparr> db')"

definition DeleteBuilder_Exec ::
  "('db, 'v) exec_fun \<Rightarrow> ('db \<Rightarrow> string \<Rightarrow> 'db \<times> (goerr + 'v option)) \<Rightarrow> 'v DeleteBuilder \<Rightarrow> 'db \<Rightarrow>
     ('db \<times> (sql_err + Result)) go option" where
  "DeleteBuilder_Exec exec qkey b db =
     (if length (db_reserveField b) \<le> 0 then DeleteBuilder_raw exec b db
      else DeleteBuilder_execReserveSize exec qkey b db)"

subsection \<open>The connection\<close>

record Config =
  Url :: string
  MaxOpenConns :: int
  MaxIdleConns :: int
  ConnMaxLifetime :: int
  ConnMaxIdleTime :: int

definition Config_defaults :: "Config \<Rightarrow> Config" where
  "Config_defaults c =
     (let c1 = (if MaxOpenConns c \<le> 0 then c\<lparr>MaxOpenConns := 10\<rparr> else c);
          c2 = (if MaxIdleConns c1 \<le> 0 then c1\<lparr>MaxIdleConns := 5\<rparr> else c1);
          c3 = (if ConnMaxLifetime c2 \<le> 0 then c2\<lparr>ConnMaxLifetime := 100000\<rparr> else c2)
      in if ConnMaxIdleTime c3 \<le> 0 then c3\<lparr>ConnMaxIdleTime := 100000\<rparr> else c3)"

text \<open>The settings of the pool; a duration is a 64-bit number of nanoseconds.\<close>

record 'p PoolConf =
  pool :: 'p
  maxOpen :: int
  maxIdle :: int
  lifetime :: "64 word"
  idleTime :: "64 word"

definition millis :: "int \<Rightarrow> 64 word" where
  "millis n = word_of_int n * 1000000"

text \<open>
  \<open>opn\<close> is \<open>sql.Open\<close>, \<open>ping\<close> the \<open>Ping\<close> of a pool. The result is the configuration as the
  call leaves it (the caller's struct) and the connection.
\<close>

definition CreateRivetxSql ::
  "(string \<Rightarrow> goerr + 'p) \<Rightarrow> ('p PoolConf \<Rightarrow> goerr option) \<Rightarrow> Config option \<Rightarrow>
     Config option \<times> (sql_err + 'p PoolConf)" where
  "CreateRivetxSql opn ping config =
     (case config of
        None \<Rightarrow> (None, Inl EmptyInput)
      | Some c \<Rightarrow>
          if Url c = [] then (Some c, Inl EmptyInput)
          else
            (let c' = Config_defaults c
             in case opn (Url c') of
                  Inl e \<Rightarrow> (Some c', Inl (ExecErr e))
                | Inr p \<Rightarrow>
                    (let pc = \<lparr>pool = p, maxOpen = MaxOpenConns c', maxIdle = MaxIdleConns c',
                               lifetime = millis (ConnMaxLifetime c'), idleTime = millis (ConnMaxIdleTime c')\<rparr>
                     in case ping pc of
                          Some e \<Rightarrow> (Some c', Inl (ExecErr e))
                        | None \<Rightarrow> (Some c', Inr pc))))"

text \<open>\<open>RivetxSql.Close\<close>: the pool is closed once; the result tells whether it was.\<close>

definition RivetxSql_Close :: "'p PoolConf option \<Rightarrow> 'p PoolConf option \<times> bool" where
  "RivetxSql_Close p = (case p of None \<Rightarrow> (None, False) | Some _ \<Rightarrow> (None, True))"

end
