(* ===== verification/Sql_Select.thy ===== *)
theory Sql_Select
  imports Sql_Delete
begin

section \<open>rivetxsql: SELECT\<close>

text \<open>
  \<open>rivetxsql/select.go\<close>. The database answers a query with an error, or with the number of its
  columns, its rows and the error after the last row. A struct value of the result type is the
  list of its fnames, \<open>zero\<close> its zero value; \<open>conv\<close> is the conversion of \<open>rows.Scan\<close> for one
  row. The page loop ends only if the pages shrink, so it is a \<open>partial_function\<close>.
\<close>

type_synonym 'v answer = "nat \<times> 'v list list \<times> goerr option"
type_synonym ('db, 'v) query_fun = "'db \<Rightarrow> int \<Rightarrow> string \<Rightarrow> 'v list \<Rightarrow> 'db \<times> (goerr + 'v answer)"

definition MaxInt32 :: int where "MaxInt32 = 2147483647"

subsection \<open>scanRow\<close>

definition set_fields :: "nat list \<Rightarrow> 'v list \<Rightarrow> 'v list \<Rightarrow> 'v list" where
  "set_fields idx vs t = foldl (\<lambda>t (i, v). t[i := v]) t (zip idx vs)"

text \<open>What \<open>T\<close> is: a struct, its zero value and the conversion of a row into its columns.\<close>

record 'v rowtype =
  rt_type :: gtype
  rt_zero :: "'v list"
  rt_conv :: "'v list \<Rightarrow> goerr + 'v list"

definition scanRow ::
  "'v rowtype \<Rightarrow> nat \<Rightarrow> 'v list \<Rightarrow> meta_cache \<Rightarrow> (sql_err + 'v list) \<times> meta_cache" where
  "scanRow T ncols row cache =
     (case (case rt_type T of GPtr t \<Rightarrow> t | t \<Rightarrow> t) of
        GStruct st \<Rightarrow>
          (case getStructMeta st cache of
             (Inl e, c1) \<Rightarrow> (Inl e, c1)
           | (Inr meta, c1) \<Rightarrow>
               if ncols \<noteq> length (fieldIndex meta) then (Inl (ScanColumns ncols (length (fieldIndex meta))), c1)
               else
                 (case rt_conv T row of
                    Inl e \<Rightarrow> (Inl (ExecErr e), c1)
                  | Inr vs \<Rightarrow> (Inr (set_fields (fieldIndex meta) vs (rt_zero T)), c1)))
      | _ \<Rightarrow> (Inl NotStruct, cache))"

text \<open>The loop over \<open>rows.Next()\<close>: the rows scanned until an error.\<close>

fun scan_rows ::
  "'v rowtype \<Rightarrow> nat \<Rightarrow> 'v list list \<Rightarrow> meta_cache \<Rightarrow> (sql_err + 'v list list) \<times> meta_cache" where
  "scan_rows T ncols [] cache = (Inr [], cache)"
| "scan_rows T ncols (row # rows) cache =
     (case scanRow T ncols row cache of
        (Inl e, c1) \<Rightarrow> (Inl e, c1)
      | (Inr t, c1) \<Rightarrow>
          (case scan_rows T ncols rows c1 of
             (Inl e, c2) \<Rightarrow> (Inl e, c2)
           | (Inr ts, c2) \<Rightarrow> (Inr (t # ts), c2)))"

subsection \<open>SelectRaw\<close>

text \<open>The arguments of a select that stay the same for all its statements.\<close>

record 'v SelectArgs =
  sa_table :: string
  sa_join :: string
  sa_queryCond :: "'v QueryCond"
  sa_cond :: string
  sa_condArgs :: "'v list"
  sa_order :: string
  sa_batchSize :: int
  sa_timeout :: int

definition limit_offset :: "int \<Rightarrow> int \<Rightarrow> string" where
  "limit_offset m off = '' LIMIT '' @ int_str m @ '' OFFSET '' @ int_str off"

definition Select_query :: "'v SelectArgs \<Rightarrow> string list \<Rightarrow> 'v list list \<Rightarrow> int \<Rightarrow> int \<Rightarrow> string" where
  "Select_query a fnames chunk m off =
     BuildQuery [''SELECT '', joinStr '', '' fnames, '' FROM ''] (sa_table a) (sa_join a)
       (fixed_conds (FixedCols (sa_queryCond a))) (sa_cond a) (InCols (sa_queryCond a))
       (map tuple_str chunk) (sa_order a) (limit_offset m off)"

definition Select_args :: "'v SelectArgs \<Rightarrow> 'v list list \<Rightarrow> 'v list" where
  "Select_args a chunk = Delete_args (sa_queryCond a) (sa_condArgs a) chunk"

record ('db, 'v) SelectState =
  s_db :: 'db
  s_cache :: meta_cache
  s_result :: "'v list list"

definition page_limit :: "'v SelectArgs \<Rightarrow> int \<Rightarrow> int" where
  "page_limit a dataLimit = min dataLimit (sa_batchSize a)"

text \<open>One page: the error or the number of rows it appended to the result.\<close>

definition Select_page ::
  "('db, 'v) query_fun \<Rightarrow> 'v rowtype \<Rightarrow> 'v SelectArgs \<Rightarrow> string list \<Rightarrow> 'v list list \<Rightarrow> int \<Rightarrow> int \<Rightarrow>
     ('db, 'v) SelectState \<Rightarrow> ('db, 'v) SelectState \<times> (sql_err + nat)" where
  "Select_page qry T a fnames chunk dataOffset dataLimit s =
     (case qry (s_db s) (sa_timeout a)
             (Select_query a fnames chunk (page_limit a dataLimit) dataOffset) (Select_args a chunk) of
        (db, Inl e) \<Rightarrow> (s\<lparr>s_db := db\<rparr>, Inl (ExecErr e))
      | (db, Inr (ncols, rows, rerr)) \<Rightarrow>
          (case scan_rows T ncols rows (s_cache s) of
             (Inl e, c) \<Rightarrow> (s\<lparr>s_db := db, s_cache := c\<rparr>, Inl e)
           | (Inr ts, c) \<Rightarrow>
               (s\<lparr>s_db := db, s_cache := c, s_result := s_result s @ ts\<rparr>,
                (case rerr of Some e \<Rightarrow> Inl (ExecErr e) | None \<Rightarrow> Inr (length ts)))))"

partial_function (option) Select_pages ::
  "('db, 'v) query_fun \<Rightarrow> 'v rowtype \<Rightarrow> 'v SelectArgs \<Rightarrow> string list \<Rightarrow> 'v list list \<Rightarrow> int \<Rightarrow> int \<Rightarrow>
     ('db, 'v) SelectState \<Rightarrow> (('db, 'v) SelectState \<times> sql_err option) option" where
  "Select_pages qry T a fnames chunk dataOffset dataLimit s =
     (if dataLimit \<le> 0 then Some (s, None)
      else
        (case Select_page qry T a fnames chunk dataOffset dataLimit s of
           (s1, Inl e) \<Rightarrow> Some (s1, Some e)
         | (s1, Inr batchCount) \<Rightarrow>
             (let minLimit = page_limit a dataLimit
              in if int batchCount < minLimit then Some (s1, None)
                 else Select_pages qry T a fnames chunk (dataOffset + minLimit) (dataLimit - minLimit) s1)))"

fun Select_chunks ::
  "('db, 'v) query_fun \<Rightarrow> 'v rowtype \<Rightarrow> 'v SelectArgs \<Rightarrow> string list \<Rightarrow> int \<Rightarrow> int \<Rightarrow> 'v list list list \<Rightarrow>
     ('db, 'v) SelectState \<Rightarrow> (('db, 'v) SelectState \<times> sql_err option) option" where
  "Select_chunks qry T a fnames offset limit [] s = Some (s, None)"
| "Select_chunks qry T a fnames offset limit (chunk # cs) s =
     (case Select_pages qry T a fnames chunk offset limit s of
        None \<Rightarrow> None
      | Some (s1, Some e) \<Rightarrow> Some (s1, Some e)
      | Some (s1, None) \<Rightarrow> Select_chunks qry T a fnames offset limit cs s1)"

text \<open>The batch size of the IN values: \<open>Inl\<close> where the combination is refused.\<close>

definition in_batch_size :: "string \<Rightarrow> int \<Rightarrow> int \<Rightarrow> int \<Rightarrow> sql_err + int" where
  "in_batch_size order limit offset n =
     (if (0 < length order \<or> 0 < limit \<or> 0 < offset) \<and> 0 < n then Inl InBatchOrder
      else
        (let n1 = (if length order \<le> 0 \<and> limit \<le> 0 \<and> offset \<le> 0 then (if n \<le> 0 then BatchSize else n) else n)
         in Inr (if n1 \<le> 0 then MaxInt32 else n1)))"

definition Select_check :: "'v QueryCond \<Rightarrow> string \<Rightarrow> sql_err option" where
  "Select_check g cond =
     (if length (FixedCols g) \<noteq> length (FixedVals g) then Some FixedLength
      else if 0 < length (InCols g) \<and> length (InVals g) = 0 then Some InColsNoVals
      else if 0 < length (InCols g) \<and> length (InCols g) \<noteq> length (InVals g ! 0) then Some InColsFirst
      else
        (case check_widths (length (InCols g)) 0 (InVals g) of
           Some e \<Rightarrow> Some e
         | None \<Rightarrow>
             if length (FixedCols g) \<le> 0 \<and> length (InCols g) \<le> 0 \<and> length cond \<le> 0
             then Some NoCondition else None))"

type_synonym ('db, 'v) select_result = "'db \<times> meta_cache \<times> (sql_err + 'v list list)"

definition SelectRaw ::
  "('db, 'v) query_fun \<Rightarrow> 'v rowtype \<Rightarrow> string \<Rightarrow> string \<Rightarrow> 'v QueryCond \<Rightarrow> string \<Rightarrow> 'v list \<Rightarrow> string \<Rightarrow>
     int \<Rightarrow> int \<Rightarrow> int \<Rightarrow> int \<Rightarrow> meta_cache \<Rightarrow> 'db \<Rightarrow> ('db, 'v) select_result go option" where
  "SelectRaw qry T table join g cond condArgs order limit offset batchSize timeout cache db =
     (case in_batch_size order limit offset (InBatchSize g) of
        Inl e \<Rightarrow> Some (Inr (db, cache, Inl e))
      | Inr n \<Rightarrow>
          (let tmo = (if timeout = 0 then Timeout else timeout);
               lim = (if limit \<le> 0 then MaxInt32 else limit);
               bs = (if batchSize \<le> 0 then BatchSize else batchSize)
           in case Select_check g cond of
                Some e \<Rightarrow> Some (Inr (db, cache, Inl e))
              | None \<Rightarrow>
                  (case batch_chunks n (InVals g) of
                     None \<Rightarrow> None
                   | Some (Inl p) \<Rightarrow> Some (Inl p)
                   | Some (Inr cs) \<Rightarrow>
                       (case StructFields (rt_type T) cache of
                          (Inl e, c1) \<Rightarrow> Some (Inr (db, c1, Inl e))
                        | (Inr fnames, c1) \<Rightarrow>
                            (let a = \<lparr>sa_table = table, sa_join = join, sa_queryCond = g, sa_cond = cond,
                                      sa_condArgs = condArgs, sa_order = order, sa_batchSize = bs,
                                      sa_timeout = tmo\<rparr>
                             in case Select_chunks qry T a fnames offset lim cs
                                       \<lparr>s_db = db, s_cache = c1, s_result = []\<rparr> of
                                  None \<Rightarrow> None
                                | Some (s, Some e) \<Rightarrow> Some (Inr (s_db s, s_cache s, Inl e))
                                | Some (s, None) \<Rightarrow> Some (Inr (s_db s, s_cache s, Inr (s_result s))))))))"

definition Select ::
  "('db, 'v) query_fun \<Rightarrow> 'v rowtype \<Rightarrow> gtype \<Rightarrow> string \<Rightarrow> string \<Rightarrow> 'v refl \<Rightarrow> 'v refl list \<Rightarrow> string \<Rightarrow>
     'v list \<Rightarrow> string \<Rightarrow> int \<Rightarrow> int \<Rightarrow> int \<Rightarrow> int \<Rightarrow> meta_cache \<Rightarrow> 'db \<Rightarrow> ('db, 'v) select_result go option" where
  "Select qry T ityp table join fixed ins cond condArgs order limit offset batchSize timeout cache db =
     (case struct_cond ityp fixed ins cache of
        (Inl p, c1) \<Rightarrow> Some (Inl p)
      | (Inr (Inl e), c1) \<Rightarrow> Some (Inr (db, c1, Inl e))
      | (Inr (Inr g), c1) \<Rightarrow>
          SelectRaw qry T table join g cond condArgs order limit offset batchSize timeout c1 db)"

subsection \<open>The builder\<close>

record 'v SelectBuilder =
  sb_table :: string
  sb_join :: string
  sb_queryCond :: "'v QueryCond"
  sb_cond :: string
  sb_condArgs :: "'v list"
  sb_order :: string
  sb_limit :: int
  sb_offset :: int
  sb_timeout :: int
  sb_batchSize :: int
  sb_orderField :: string
  sb_isDescOrderField :: bool

definition NewSelect :: "string \<Rightarrow> 'v SelectBuilder" where
  "NewSelect table = \<lparr>sb_table = table, sb_join = [], sb_queryCond = emptyCond, sb_cond = [],
     sb_condArgs = [], sb_order = [], sb_limit = 0, sb_offset = 0, sb_timeout = Timeout,
     sb_batchSize = 0, sb_orderField = [], sb_isDescOrderField = False\<rparr>"

definition SelectBuilder_Join :: "'v SelectBuilder \<Rightarrow> string \<Rightarrow> 'v SelectBuilder" where
  "SelectBuilder_Join b j = b\<lparr>sb_join := j\<rparr>"
definition SelectBuilder_WhereEq :: "'v SelectBuilder \<Rightarrow> string \<Rightarrow> 'v \<Rightarrow> 'v SelectBuilder" where
  "SelectBuilder_WhereEq b c v = b\<lparr>sb_queryCond := Cond_WhereEq (sb_queryCond b) c v\<rparr>"
definition SelectBuilder_WhereIn :: "'v SelectBuilder \<Rightarrow> string list \<Rightarrow> 'v list list \<Rightarrow> 'v SelectBuilder" where
  "SelectBuilder_WhereIn b cs vs = b\<lparr>sb_queryCond := (sb_queryCond b)\<lparr>InCols := cs, InVals := vs\<rparr>\<rparr>"
definition SelectBuilder_WhereInBatchSize :: "'v SelectBuilder \<Rightarrow> int \<Rightarrow> 'v SelectBuilder" where
  "SelectBuilder_WhereInBatchSize b n = b\<lparr>sb_queryCond := (sb_queryCond b)\<lparr>InBatchSize := n\<rparr>\<rparr>"
definition SelectBuilder_BatchSize :: "'v SelectBuilder \<Rightarrow> int \<Rightarrow> 'v SelectBuilder" where
  "SelectBuilder_BatchSize b n = b\<lparr>sb_batchSize := n\<rparr>"
definition SelectBuilder_Where :: "'v SelectBuilder \<Rightarrow> string \<Rightarrow> 'v list \<Rightarrow> 'v SelectBuilder" where
  "SelectBuilder_Where b cond args =
     (case Where (sb_cond b) (sb_condArgs b) cond args of (c, a) \<Rightarrow> b\<lparr>sb_cond := c, sb_condArgs := a\<rparr>)"
definition SelectBuilder_Order :: "'v SelectBuilder \<Rightarrow> string \<Rightarrow> 'v SelectBuilder" where
  "SelectBuilder_Order b s = b\<lparr>sb_order := s\<rparr>"
definition SelectBuilder_Limit :: "'v SelectBuilder \<Rightarrow> int \<Rightarrow> 'v SelectBuilder" where
  "SelectBuilder_Limit b n = b\<lparr>sb_limit := n\<rparr>"
definition SelectBuilder_Offset :: "'v SelectBuilder \<Rightarrow> int \<Rightarrow> 'v SelectBuilder" where
  "SelectBuilder_Offset b n = b\<lparr>sb_offset := n\<rparr>"
definition SelectBuilder_Timeout :: "'v SelectBuilder \<Rightarrow> int \<Rightarrow> 'v SelectBuilder" where
  "SelectBuilder_Timeout b t = b\<lparr>sb_timeout := t\<rparr>"
definition SelectBuilder_OrderFieldSelect :: "'v SelectBuilder \<Rightarrow> string \<Rightarrow> bool \<Rightarrow> int \<Rightarrow> 'v SelectBuilder" where
  "SelectBuilder_OrderFieldSelect b f desc n =
     SelectBuilder_Limit (b\<lparr>sb_orderField := f, sb_isDescOrderField := desc\<rparr>) n"

text \<open>
  \<open>execOrderFieldSelect\<close>: a page at a time, each after the last key of the page before. \<open>keyof\<close>
  is the \<open>OrderFieldSelectValue\<close> of a row: \<open>None\<close> where the type has no such method,
  \<open>Some None\<close> where it returns nil.
\<close>

definition order_mode :: "'v SelectBuilder \<Rightarrow> string" where
  "order_mode b = (if 0 < length (FixedCols (sb_queryCond b)) \<or> 0 < length (sb_cond b) then '' AND '' else [])"

definition order_page ::
  "('db, 'v) query_fun \<Rightarrow> 'v rowtype \<Rightarrow> 'v SelectBuilder \<Rightarrow> string \<Rightarrow> string \<Rightarrow> 'v option \<Rightarrow> int \<Rightarrow>
     meta_cache \<Rightarrow> 'db \<Rightarrow> ('db, 'v) select_result go option" where
  "order_page qry T b dir opr lastID limit cache db =
     (let order = ''ORDER BY '' @ sb_orderField b @ '' '' @ dir
      in case lastID of
           Some key \<Rightarrow>
             (case Where (sb_cond b) (sb_condArgs b)
                     (order_mode b @ '' '' @ sb_orderField b @ '' '' @ opr @ '' ?'') [key] of
                (c1, a1) \<Rightarrow>
                  (case Where c1 a1 ''AND 1=1'' [] of
                     (c2, a2) \<Rightarrow>
                       SelectRaw qry T (sb_table b) (sb_join b) (sb_queryCond b) c2 a2 order limit 0
                         (sb_batchSize b) (sb_timeout b) cache db))
         | None \<Rightarrow>
             (case Where (sb_cond b) (sb_condArgs b) ('' '' @ order_mode b @ '' 1=1'') [] of
                (c1, a1) \<Rightarrow>
                  SelectRaw qry T (sb_table b) (sb_join b) (sb_queryCond b) c1 a1 order limit (sb_offset b)
                    (sb_batchSize b) (sb_timeout b) cache db))"

partial_function (option) order_loop ::
  "('db, 'v) query_fun \<Rightarrow> 'v rowtype \<Rightarrow> ('v list \<Rightarrow> 'v option option) \<Rightarrow> 'v SelectBuilder \<Rightarrow> string \<Rightarrow>
     string \<Rightarrow> 'v option \<Rightarrow> 'v list list \<Rightarrow> meta_cache \<Rightarrow> 'db \<Rightarrow> ('db, 'v) select_result go option" where
  "order_loop qry T keyof b dir opr lastID result cache db =
     (if int (length result) < sb_limit b then
        (case order_page qry T b dir opr lastID
                (min (sb_limit b - int (length result)) (sb_batchSize b)) cache db of
           None \<Rightarrow> None
         | Some (Inl p) \<Rightarrow> Some (Inl p)
         | Some (Inr (db1, c1, Inl e)) \<Rightarrow> Some (Inr (db1, c1, Inl e))
         | Some (Inr (db1, c1, Inr values)) \<Rightarrow>
             if length values = 0 then Some (Inr (db1, c1, Inr result))
             else
               (case keyof (last values) of
                  None \<Rightarrow> Some (Inr (db1, c1, Inl NoOrderFieldValue))
                | Some key \<Rightarrow> order_loop qry T keyof b dir opr key (result @ values) c1 db1))
      else Some (Inr (db, cache, Inr result)))"

definition SelectBuilder_execOrderFieldSelect ::
  "('db, 'v) query_fun \<Rightarrow> 'v rowtype \<Rightarrow> ('v list \<Rightarrow> 'v option option) \<Rightarrow> 'v SelectBuilder \<Rightarrow> string \<Rightarrow>
     string \<Rightarrow> meta_cache \<Rightarrow> 'db \<Rightarrow> 'v SelectBuilder \<times> ('db, 'v) select_result go option" where
  "SelectBuilder_execOrderFieldSelect qry T keyof b dir opr cache db =
     (let b1 = (if sb_batchSize b \<le> 0 then b\<lparr>sb_batchSize := BatchSize\<rparr> else b)
      in if sb_limit b < 0 then (b1, Some (Inl MakeSliceCap))
         else if sb_limit b < sb_offset b1 then
           (b1, Some (Inr (db, cache, Inl (OffsetLimit (sb_offset b1) (sb_limit b)))))
         else (b1, order_loop qry T keyof b1 dir opr None [] cache db))"

definition SelectBuilder_Exec ::
  "('db, 'v) query_fun \<Rightarrow> 'v rowtype \<Rightarrow> ('v list \<Rightarrow> 'v option option) \<Rightarrow> 'v SelectBuilder \<Rightarrow> meta_cache \<Rightarrow>
     'db \<Rightarrow> 'v SelectBuilder \<times> ('db, 'v) select_result go option" where
  "SelectBuilder_Exec qry T keyof b cache db =
     (if length (sb_orderField b) \<le> 0 then
        (b, SelectRaw qry T (sb_table b) (sb_join b) (sb_queryCond b) (sb_cond b) (sb_condArgs b)
              (sb_order b) (sb_limit b) (sb_offset b) (sb_batchSize b) (sb_timeout b) cache db)
      else if sb_isDescOrderField b then
        SelectBuilder_execOrderFieldSelect qry T keyof b ''DESC'' ''<'' cache db
      else SelectBuilder_execOrderFieldSelect qry T keyof b ''ASC'' ''>'' cache db)"

end
