(* ===== verification/Sql_Exec_Spec.thy ===== *)
theory Sql_Exec_Spec
  imports Sql_Delete
begin

section \<open>rivetxsql: what INSERT, UPDATE, DELETE and CREATE send\<close>

text \<open>
  The batch closures of the three statements as interpretations of \<open>batch_step\<close>, and what
  follows for the calls: which statements reach the database, with which arguments, and what the
  call answers. Then the metadata of a struct: its columns and their types always match, so
  \<open>Create\<close> never indexes out of range, and the cache never changes an answer.
\<close>

subsection \<open>The three batch steps\<close>

interpretation insert_step: batch_step "InsertRaw_step (logged exec) tmo ign table cs onDup"
    "Insert_query ign table cs onDup" concat for exec tmo ign table cs onDup
  by unfold_locales (simp add: InsertRaw_step_def exec_stmt_logged)

interpretation update_step: batch_step "UpdateRaw_step (logged exec) tmo table cs joinOn setExpr"
    "Update_query table cs joinOn setExpr" concat for exec tmo table cs joinOn setExpr
  by unfold_locales (simp add: UpdateRaw_step_def exec_stmt_logged)

interpretation delete_step: batch_step "DeleteRaw_step (logged exec) tmo table g cond condArgs limit"
    "Delete_query table g cond limit" "Delete_args g condArgs" for exec tmo table g cond condArgs limit
  by unfold_locales (simp add: DeleteRaw_step_def exec_stmt_logged)

context batch_step
begin

lemma exec_result_log:
  assumes "exec_result (run_chunks step cs (exec_start (db, []))) = ((db', log), r)"
  shows "batch_post query args cs log (res_total r)"
proof -
  obtain s e where rc: "run_chunks step cs (exec_start (db, [])) = (s, e)"
    by (cases "run_chunks step cs (exec_start (db, []))")
  have s: "log = sent s" "r = (case e of Some x \<Rightarrow> Inl x
      | None \<Rightarrow> Inr \<lparr>res_TotalAffected = TotalAffected s, res_LastInsertID = LastInsertId s\<rparr>)"
    using assms rc by (auto simp: exec_result_def sent_def split: option.splits)
  have "sent (exec_start (db, [])) = []" "TotalAffected (exec_start (db, [])) = 0"
    by (simp_all add: exec_start_def sent_def)
  then show ?thesis
    using run_chunks_log[OF rc] s
    by (auto simp: batch_post_def statements_def res_total_def split: option.splits if_splits)
qed

lemma for_batches_result:
  assumes "0 < n"
  shows "go_ends (map_option (map_sum id exec_result) (for_batches step n vals 0 (exec_start (db, []))))
    (\<lambda>((db', log), r). batch_post query args (chunks (nat n) vals) log (res_total r))"
  using for_batches_eq[of "nat n" 0 vals step "exec_start (db, [])"] assms exec_result_log by auto

end

lemma check_widths_None: "check_widths w i vs = None \<longleftrightarrow> (\<forall>v\<in>set vs. length v = w)"
  by (induction vs arbitrary: i) auto

definition batch_size :: "int \<Rightarrow> int" where
  "batch_size n = (if n \<le> 0 then BatchSize else n)"

lemma batch_size_pos: "0 < batch_size n"
  by (simp add: batch_size_def BatchSize_def)

lemma InsertRaw_log:
  assumes "vals \<noteq> []" and "cs \<noteq> []" and "\<forall>v\<in>set vals. length v = length cs"
  shows "go_ends (InsertRaw (logged exec) table cs vals maxPerBatch onDup ign timeout (db, []))
    (\<lambda>((db', log), r). batch_post (Insert_query ign table cs onDup) concat
       (chunks (nat (batch_size maxPerBatch)) vals) log (res_total r))"
  unfolding InsertRaw_def Let_def batch_size_def[symmetric]
  using assms by (simp add: check_widths_None[THEN iffD2] insert_step.for_batches_result[OF batch_size_pos])

lemma UpdateRaw_log:
  assumes "vals \<noteq> []" and "cs \<noteq> []" and "joinOn \<noteq> []" and "setExpr \<noteq> []"
    and "\<forall>v\<in>set vals. length v = length cs"
  shows "go_ends (UpdateRaw (logged exec) table cs vals joinOn setExpr maxPerBatch timeout (db, []))
    (\<lambda>((db', log), r). batch_post (Update_query table cs joinOn setExpr) concat
       (chunks (nat (batch_size maxPerBatch)) vals) log (res_total r))"
  unfolding UpdateRaw_def Let_def batch_size_def[symmetric]
  using assms by (simp add: check_widths_None[THEN iffD2] update_step.for_batches_result[OF batch_size_pos])

text \<open>What \<open>DeleteRaw\<close> requires of its arguments, in the order of the checks.\<close>

definition Delete_ok :: "'v QueryCond \<Rightarrow> string \<Rightarrow> int \<Rightarrow> bool" where
  "Delete_ok g cond limit \<longleftrightarrow>
     length (FixedCols g) = length (FixedVals g) \<and> (\<forall>v\<in>set (InVals g). length v = length (InCols g)) \<and>
     (FixedCols g \<noteq> [] \<or> InCols g \<noteq> [] \<or> cond \<noteq> []) \<and>
     (limit \<le> 0 \<or> int (length (InVals g)) \<le> batch_size (InBatchSize g))"

definition in_chunks :: "int \<Rightarrow> 'v list list \<Rightarrow> 'v list list list" where
  "in_chunks n vals = (if vals = [] then [[]] else chunks (nat n) vals)"

lemma batch_chunks_in: "0 < n \<Longrightarrow> batch_chunks n vals = Some (Inr (in_chunks n vals))"
  using batch_chunks_eq[of "nat n" vals] by (simp add: in_chunks_def)

lemma concat_in_chunks: "0 < n \<Longrightarrow> concat (in_chunks n vals) = vals"
  by (simp add: in_chunks_def concat_chunks)

lemma DeleteRaw_log:
  assumes "Delete_ok g cond limit"
  shows "go_ends (DeleteRaw (logged exec) table g cond condArgs limit timeout (db, []))
    (\<lambda>((db', log), r). batch_post (Delete_query table g cond limit) (Delete_args g condArgs)
       (in_chunks (batch_size (InBatchSize g)) (InVals g)) log (res_total r))"
proof -
  have "check_widths (length (InCols g)) 0 (InVals g) = None"
    using assms by (simp add: Delete_ok_def check_widths_None)
  moreover have "batch_chunks (batch_size (InBatchSize g)) (InVals g)
      = Some (Inr (in_chunks (batch_size (InBatchSize g)) (InVals g)))"
    by (rule batch_chunks_in[OF batch_size_pos])
  ultimately show ?thesis using assms
    by (auto simp: DeleteRaw_def Let_def batch_size_def[symmetric] Delete_ok_def delete_step.exec_result_log)
qed

lemma DeleteRaw_refused:
  assumes "\<not> Delete_ok g cond limit"
  shows "\<exists>e. DeleteRaw exec table g cond condArgs limit timeout db = Some (Inr (db, Inl e))"
proof (cases "length (FixedCols g) = length (FixedVals g)")
  case False
  then show ?thesis by (simp add: DeleteRaw_def)
next
  case fl: True
  show ?thesis
  proof (cases "check_widths (length (InCols g)) 0 (InVals g)")
    case (Some e)
    then show ?thesis using fl by (simp add: DeleteRaw_def)
  next
    case None
    then have "FixedCols g = [] \<and> InCols g = [] \<and> cond = [] \<or>
        batch_size (InBatchSize g) < int (length (InVals g)) \<and> 0 < limit"
      using assms fl by (auto simp: Delete_ok_def check_widths_None)
    then show ?thesis unfolding DeleteRaw_def Let_def batch_size_def[symmetric]
      using fl None by (elim disjE) simp_all
  qed
qed

subsection \<open>Placeholders\<close>

definition no_qmarks :: "string list \<Rightarrow> bool" where
  "no_qmarks ss \<longleftrightarrow> (\<forall>s\<in>set ss. qmarks s = 0)"

lemma qmarks_none: "no_qmarks ss \<Longrightarrow> sum_list (map qmarks ss) = 0"
  by (induction ss) (simp_all add: no_qmarks_def)

lemma Insert_qmarks:
  assumes "no_qmarks (table # onDup # cs)"
  shows "qmarks (Insert_query ign table cs onDup chunk) = length (concat chunk)"
proof -
  have "sum_list (map qmarks cs) = 0" using assms by (intro qmarks_none) (simp add: no_qmarks_def)
  then show ?thesis using assms
    by (simp add: Insert_query_def Let_def count_joinStr no_qmarks_def sum_qmarks_tuples
        del: map_map length_concat)
qed

lemma Update_qmarks:
  assumes "no_qmarks (table # cs @ joinOn @ setExpr)"
  shows "qmarks (Update_query table cs joinOn setExpr chunk) = length (concat chunk)"
proof -
  have z: "sum_list (map qmarks cs) = 0" "sum_list (map qmarks setExpr) = 0" "qmarks table = 0"
    using assms by (auto intro!: qmarks_none simp: no_qmarks_def)
  have j: "sum_list (map (\<lambda>c. qmarks (''u.'' @ c @ '' = v.'' @ c)) joinOn) = 0"
    using assms by (auto simp: no_qmarks_def sum_list_eq_0_iff)
  have r: "sum_list (map (\<lambda>v. qmarks (''ROW'' @ tuple_str v)) chunk) = length (concat chunk)"
    by (induction chunk) simp_all
  show ?thesis
    using z j r by (simp add: Update_query_def Let_def count_ReplaceAll count_joinStr o_def del: length_concat)
qed

lemma Delete_qmarks:
  assumes "no_qmarks (table # FixedCols g @ InCols g)" and "qmarks cond = length condArgs"
    and "length (FixedCols g) = length (FixedVals g)"
  shows "qmarks (Delete_query table g cond limit chunk) = length (Delete_args g condArgs chunk)"
proof -
  have f: "sum_list (map qmarks (fixed_conds xs)) = length xs" if "no_qmarks xs" for xs
    using that by (induction xs) (simp_all add: fixed_conds_def no_qmarks_def)
  have z: "sum_list (map qmarks (fixed_conds (FixedCols g))) = length (FixedCols g)"
      "sum_list (map qmarks (InCols g)) = 0" "qmarks table = 0"
    using assms(1) by (auto intro!: f qmarks_none simp: no_qmarks_def)
  have t: "sum_list (map qmarks (map tuple_str chunk)) = length (concat chunk)"
    by (rule sum_qmarks_tuples)
  show ?thesis
    unfolding Delete_query_def qmarks_BuildQuery t z
    using assms(2,3) by (simp add: Delete_args_def Delete_limit_def)
qed

end
