(* ===== verification/Sql_Meta_Spec.thy ===== *)
theory Sql_Meta_Spec
  imports Sql_Exec_Spec "HOL-Library.Sublist"
begin

section \<open>rivetxsql: the metadata of a struct\<close>

text \<open>
  The invariant of \<open>structMeta\<close>: the parallel lists have one entry for each column, the field
  indices grow and are fields of the type, and the columns without the automatic ones are some of
  the columns with their own indices. The cache only holds what \<open>buildMeta\<close> computes.
\<close>

definition meta_wf :: "nat \<Rightarrow> structMeta \<Rightarrow> bool" where
  "meta_wf n m \<longleftrightarrow>
     length (fieldIndex m) = length (cols m) \<and> length (sqlTypes m) = length (cols m) \<and>
     length (fixedAttr m) = length (cols m) \<and>
     length (discardAutoFieldIndex m) = length (discardAutoCols m) \<and>
     sorted_wrt (<) (fieldIndex m) \<and> (\<forall>i\<in>set (fieldIndex m). i < n) \<and>
     subseq (zip (discardAutoCols m) (discardAutoFieldIndex m)) (zip (cols m) (fieldIndex m))"

lemma attr_loop_frame:
  assumes "attr_loop tag tagAttr attrs isAuto fixed m = Inr (a, f, m')"
  shows "cols m' = cols m \<and> fieldIndex m' = fieldIndex m \<and> sqlTypes m' = sqlTypes m \<and>
    fixedAttr m' = fixedAttr m \<and> discardAutoCols m' = discardAutoCols m \<and>
    discardAutoFieldIndex m' = discardAutoFieldIndex m"
  using assms
proof (induction tag tagAttr attrs isAuto fixed m rule: attr_loop.induct)
  case (2 tag tagAttr a attrs isAuto fixed m)
  define attr where "attr = StringTrim a"
  define sub where "sub = Split CHR '':'' attr"
  note IH = 2(1-5)[OF attr_def]
  show ?case
    using 2(6) IH(1,2) IH(3)[OF _ _ sub_def] IH(4)[OF _ _ sub_def] IH(5)[OF _ _ sub_def]
    unfolding attr_loop.simps(2) Let_def attr_def[symmetric] sub_def[symmetric]
    by (auto simp del: attr_loop.simps split: if_splits)
qed simp

lemma meta_wf_mono: "meta_wf n m \<Longrightarrow> n \<le> n' \<Longrightarrow> meta_wf n' m"
  by (auto simp: meta_wf_def)

lemma meta_wf_snoc:
  assumes wf: "meta_wf i m"
    and m': "cols m' = cols m @ [tag]" "fieldIndex m' = fieldIndex m @ [i]"
      "sqlTypes m' = sqlTypes m @ [t]" "fixedAttr m' = fixedAttr m @ [f]"
    and d: "discardAutoCols m' = discardAutoCols m \<and> discardAutoFieldIndex m' = discardAutoFieldIndex m \<or>
      discardAutoCols m' = discardAutoCols m @ [tag] \<and> discardAutoFieldIndex m' = discardAutoFieldIndex m @ [i]"
  shows "meta_wf (Suc i) m'"
proof -
  have len: "length (fieldIndex m) = length (cols m)" "length (discardAutoFieldIndex m) = length (discardAutoCols m)"
    and lt: "\<forall>k\<in>set (fieldIndex m). k < i" and srt: "sorted_wrt (<) (fieldIndex m)"
    and sub: "subseq (zip (discardAutoCols m) (discardAutoFieldIndex m)) (zip (cols m) (fieldIndex m))"
    using wf by (auto simp: meta_wf_def)
  have z: "zip (cols m') (fieldIndex m') = zip (cols m) (fieldIndex m) @ [(tag, i)]"
    using m'(1,2) len by simp
  have s: "subseq (zip (discardAutoCols m') (discardAutoFieldIndex m')) (zip (cols m') (fieldIndex m'))"
    unfolding z using d
  proof
    assume "discardAutoCols m' = discardAutoCols m \<and> discardAutoFieldIndex m' = discardAutoFieldIndex m"
    then show "subseq (zip (discardAutoCols m') (discardAutoFieldIndex m')) (zip (cols m) (fieldIndex m) @ [(tag, i)])"
      using sub by (simp add: list_emb_prefix)
  next
    assume "discardAutoCols m' = discardAutoCols m @ [tag] \<and> discardAutoFieldIndex m' = discardAutoFieldIndex m @ [i]"
    then show "subseq (zip (discardAutoCols m') (discardAutoFieldIndex m')) (zip (cols m) (fieldIndex m) @ [(tag, i)])"
      using sub len(2) by (simp add: subseq_append)
  qed
  have "\<forall>k\<in>set (fieldIndex m'). k < Suc i" "sorted_wrt (<) (fieldIndex m')"
    using lt srt by (auto simp: m'(2) sorted_wrt_append)
  then show ?thesis using wf m' d s by (auto simp: meta_wf_def)
qed

lemma field_step_wf:
  assumes wf: "meta_wf i m" and st: "field_step tname i f m = Inr m'"
  shows "meta_wf (Suc i) m'"
proof -
  define tag0 where "tag0 = StringTrim (f_db f)"
  define tag where "tag = column_tag (if tag0 = [] then ToSnakeCase (f_name f) else tag0)"
  define tagAttr where "tagAttr = StringTrim (f_attr f)"
  define m1 where "m1 = m\<lparr>cols := cols m @ [tag], fieldIndex := fieldIndex m @ [i]\<rparr>"
  note fold = tag0_def[symmetric] tag_def[symmetric] tagAttr_def[symmetric] m1_def[symmetric]
  show ?thesis
  proof (cases "tag0 = ''-'' \<or> tag0 = [] \<and> \<not> f_exported f")
    case True
    then have "m' = m" using st by (auto simp: field_step_def Let_def fold)
    then show ?thesis using wf meta_wf_mono by auto
  next
    case False
    let ?attrs = "if 0 < length tagAttr then attr_loop tag tagAttr (Split CHR '','' tagAttr) False [] m1
      else Inr (False, [], m1)"
    obtain auto0 fixed m2 where a: "?attrs = Inr (auto0, fixed, m2)"
      using st False by (cases ?attrs) (auto simp: field_step_def Let_def fold split: if_splits)
    obtain t where t: "GoTypeToSql (f_type f) (StringTrim (f_size f)) = Inr t"
      using st False a
      by (cases "GoTypeToSql (f_type f) (StringTrim (f_size f))")
        (auto simp: field_step_def Let_def fold split: if_splits)
    have m2: "cols m2 = cols m @ [tag]" "fieldIndex m2 = fieldIndex m @ [i]" "sqlTypes m2 = sqlTypes m"
      "fixedAttr m2 = fixedAttr m" "discardAutoCols m2 = discardAutoCols m"
      "discardAutoFieldIndex m2 = discardAutoFieldIndex m"
      using a attr_loop_frame[of tag tagAttr "Split CHR '','' tagAttr" False "[]" m1 auto0 fixed m2]
      by (auto simp: m1_def split: if_splits)
    define m3 where "m3 = m2\<lparr>fixedAttr := fixedAttr m2 @ [fixed]\<rparr>"
    define isAuto where "isAuto = (auto0 \<or> Contains fixed ''DEFAULT'' \<and> Contains fixed ''CURRENT_TIMESTAMP'')"
    define m4 where "m4 = (if isAuto then m3
      else m3\<lparr>discardAutoCols := discardAutoCols m3 @ [tag],
              discardAutoFieldIndex := discardAutoFieldIndex m3 @ [i]\<rparr>)"
    have "m' = m4\<lparr>sqlTypes := sqlTypes m4 @ [t]\<rparr>"
      using st False a t
      unfolding field_step_def Let_def fold m3_def m4_def isAuto_def by (auto split: if_splits)
    then show ?thesis
      by (intro meta_wf_snoc[OF wf, of m' tag t fixed]) (simp_all add: m4_def m3_def m2)
  qed
qed

lemma fields_loop_wf:
  "meta_wf i m \<Longrightarrow> fields_loop tname i fs m = Inr m' \<Longrightarrow> meta_wf (i + length fs) m'"
proof (induction tname i fs m rule: fields_loop.induct)
  case (2 tname i f fs m)
  then obtain m1 where m1: "field_step tname i f m = Inr m1" "fields_loop tname (Suc i) fs m1 = Inr m'"
    by (auto split: sum.splits)
  then show ?case using 2(1)[OF m1(1) field_step_wf[OF 2(2) m1(1)] m1(2)] by simp
qed simp

lemma buildMeta_wf: "buildMeta t = Inr m \<Longrightarrow> meta_wf (length (t_fields t)) m"
  using fields_loop_wf[of 0 emptyMeta "t_name t" "t_fields t" m]
  by (simp add: buildMeta_def meta_wf_def emptyMeta_def)

subsection \<open>The cache\<close>

definition cache_ok :: "meta_cache \<Rightarrow> bool" where
  "cache_ok cache \<longleftrightarrow> (\<forall>t m. cache t = Some m \<longrightarrow> buildMeta t = Inr m)"

lemma getStructMeta_cache:
  assumes "cache_ok cache" and "getStructMeta t cache = (r, cache')"
  shows "r = buildMeta t \<and> cache_ok cache'"
  using assms by (auto simp: getStructMeta_def cache_ok_def split: option.splits sum.splits if_splits)

lemma cache_ok_empty: "cache_ok Map.empty"
  by (simp add: cache_ok_def)

subsection \<open>The values of a struct\<close>

lemma field_values_nth:
  "\<forall>i\<in>set is. i < length vs \<Longrightarrow> field_values is (RStruct t vs) = Inr (map ((!) vs) is)"
  by (induction "is") auto

lemma subseq_discard:
  assumes "meta_wf n m" shows "\<forall>i\<in>set (discardAutoFieldIndex m). i < n"
proof
  fix i assume "i \<in> set (discardAutoFieldIndex m)"
  then obtain c where "(c, i) \<in> set (zip (discardAutoCols m) (discardAutoFieldIndex m))"
    using assms by (metis in_set_zip meta_wf_def in_set_conv_nth fst_conv snd_conv)
  moreover have "subseq (zip (discardAutoCols m) (discardAutoFieldIndex m)) (zip (cols m) (fieldIndex m))"
    using assms by (simp add: meta_wf_def)
  ultimately have "(c, i) \<in> set (zip (cols m) (fieldIndex m))" by (auto elim: list_emb_set)
  then show "i < n" using assms by (auto simp: meta_wf_def dest: set_zip_rightD)
qed

lemma discard_values:
  assumes "meta_wf (length vs) m"
  shows "StructValuesByDiscardAuto m (RVal (RStruct t vs)) = Inr (map ((!) vs) (discardAutoFieldIndex m))"
  using field_values_nth[OF subseq_discard[OF assms]] by (simp add: StructValuesByDiscardAuto_def)

lemma go_map_Inr: "\<forall>x\<in>set xs. f x = Inr (g x) \<Longrightarrow> go_map f xs = Inr (map g xs)"
  by (induction xs) auto

lemma Insert_rows:
  assumes "buildMeta t = Inr m" and "cache_ok cache" and "rows \<noteq> []"
    and "\<forall>vs\<in>set rows. length vs = length (t_fields t)"
  shows "\<exists>cache'. Insert exec (GStruct t) table (map (\<lambda>vs. RVal (RStruct t vs)) rows) maxPerBatch onDup ign timeout cache db
    = (cache', InsertRaw exec table (discardAutoCols m)
        (map (\<lambda>vs. map ((!) vs) (discardAutoFieldIndex m)) rows) maxPerBatch onDup ign timeout db)"
proof -
  obtain r c1 where g: "getStructMeta t cache = (r, c1)" by (cases "getStructMeta t cache")
  have r: "r = Inr m" using getStructMeta_cache[OF assms(2) g] assms(1) by simp
  have wf: "meta_wf (length (t_fields t)) m" by (rule buildMeta_wf[OF assms(1)])
  have "\<forall>x\<in>set rows. StructValuesByDiscardAuto m (RVal (RStruct t x)) = Inr (map ((!) x) (discardAutoFieldIndex m))"
    using discard_values wf assms(4) by metis
  then have "go_map (StructValuesByDiscardAuto m) (map (\<lambda>vs. RVal (RStruct t vs)) rows)
      = Inr (map (\<lambda>vs. map ((!) vs) (discardAutoFieldIndex m)) rows)"
    using go_map_Inr[of rows "\<lambda>x. StructValuesByDiscardAuto m (RVal (RStruct t x))"
        "\<lambda>x. map ((!) x) (discardAutoFieldIndex m)"]
    by (induction rows) (auto split: sum.splits)
  then show ?thesis using g r assms(3) by (simp add: Insert_def StructMeta_def)
qed

subsection \<open>Create\<close>

lemma Create_cols_ok:
  "length cs + i \<le> length (fixedAttr m) \<Longrightarrow> length cs + i \<le> length (sqlTypes m) \<Longrightarrow>
     \<exists>q'. Create_cols m i cs q = Inr q'"
  by (induction m i cs q rule: Create_cols.induct) (auto simp: Let_def)

lemma Create_query_ok:
  assumes "meta_wf n m"
  shows "\<exists>r. Create_query table m ukeys ikeys = Inr r \<and> (case r of None \<Rightarrow> True | Some q \<Rightarrow> \<exists>p. q = p @ '');'')"
proof -
  obtain q0 where q0: "Create_cols m 0 (cols m) (''CREATE TABLE IF NOT EXISTS '' @ table @ '' ('') = Inr q0"
    using Create_cols_ok[of "cols m" 0 m] assms by (auto simp: meta_wf_def)
  show ?thesis unfolding Create_query_def q0 by (simp add: Let_def del: append_assoc)
qed

end
