(* ===== verification/Sql_Select_Spec.thy ===== *)
theory Sql_Select_Spec
  imports Sql_Select Sql_Meta_Spec
begin

section \<open>rivetxsql: SELECT in pages\<close>

text \<open>
  What a database does with \<open>LIMIT\<close> and \<open>OFFSET\<close> (\<open>pages_of\<close>: a query over rows that do not
  change is answered with the window of the rows it finds), and that \<open>SelectRaw\<close> over it returns
  for every batch size exactly the window the caller asked for. \<open>page_db\<close> is such a database: it
  reads limit and offset back from the statement.
\<close>

definition pages_of ::
  "('db, 'v) query_fun \<Rightarrow> 'v SelectArgs \<Rightarrow> string list \<Rightarrow> nat \<Rightarrow> 'v list list list \<Rightarrow>
     ('v list \<Rightarrow> 'v list list) \<Rightarrow> bool" where
  "pages_of qry a fnames ncols cs found \<longleftrightarrow>
     (\<forall>db. \<forall>chunk\<in>set cs. \<forall>m off. 0 < m \<longrightarrow> 0 \<le> off \<longrightarrow>
        qry db (sa_timeout a) (Select_query a fnames chunk m off) (Select_args a chunk) =
          (db, Inr (ncols, take (nat m) (drop (nat off) (found (Select_args a chunk))), None)))"

text \<open>The struct type of the result, its metadata and a conversion that accepts every row.\<close>

definition scans :: "'v rowtype \<Rightarrow> gotype \<Rightarrow> structMeta \<Rightarrow> ('v list \<Rightarrow> 'v list) \<Rightarrow> bool" where
  "scans T st meta cv \<longleftrightarrow>
     (case rt_type T of GPtr t \<Rightarrow> t | t \<Rightarrow> t) = GStruct st \<and> buildMeta st = Inr meta \<and>
     (\<forall>row. rt_conv T row = Inr (cv row))"

definition scanned :: "'v rowtype \<Rightarrow> structMeta \<Rightarrow> ('v list \<Rightarrow> 'v list) \<Rightarrow> 'v list \<Rightarrow> 'v list" where
  "scanned T meta cv row = set_fields (fieldIndex meta) (cv row) (rt_zero T)"

lemma scanRow_ok:
  assumes "scans T st meta cv" and "cache_ok c"
  shows "\<exists>c'. scanRow T (length (fieldIndex meta)) row c = (Inr (scanned T meta cv row), c') \<and> cache_ok c'"
proof -
  obtain r c' where g: "getStructMeta st c = (r, c')" by (cases "getStructMeta st c")
  then show ?thesis using getStructMeta_cache[OF assms(2) g] assms(1)
    by (auto simp: scanRow_def scans_def scanned_def)
qed

lemma scan_rows_ok:
  assumes "scans T st meta cv"
  shows "cache_ok c \<Longrightarrow>
    \<exists>c'. scan_rows T (length (fieldIndex meta)) rows c = (Inr (map (scanned T meta cv) rows), c') \<and> cache_ok c'"
proof (induction rows arbitrary: c)
  case Nil
  then show ?case by simp
next
  case (Cons row rows)
  obtain c1 where c1: "scanRow T (length (fieldIndex meta)) row c = (Inr (scanned T meta cv row), c1)" "cache_ok c1"
    using scanRow_ok[OF assms Cons.prems] by blast
  obtain c2 where "scan_rows T (length (fieldIndex meta)) rows c1 = (Inr (map (scanned T meta cv) rows), c2)"
    "cache_ok c2"
    using Cons.IH[OF c1(2)] by blast
  then show ?case using c1 by simp
qed

lemma Select_page_ok:
  assumes pg: "pages_of qry a fnames (length (fieldIndex meta)) cs found" and sc: "scans T st meta cv"
    and c: "cache_ok (s_cache s)" and "0 < page_limit a lim" and "0 \<le> off" and "chunk \<in> set cs"
    and rows_def: "rows = take (nat (page_limit a lim)) (drop (nat off) (found (Select_args a chunk)))"
  shows "\<exists>c'. cache_ok c' \<and> Select_page qry T a fnames chunk off lim s =
    (s\<lparr>s_cache := c', s_result := s_result s @ map (scanned T meta cv) rows\<rparr>, Inr (length rows))"
proof -
  have q: "qry (s_db s) (sa_timeout a) (Select_query a fnames chunk (page_limit a lim) off) (Select_args a chunk)
      = (s_db s, Inr (length (fieldIndex meta), rows, None))"
    using pg assms(4-6) by (simp add: pages_of_def rows_def)
  obtain c' where "scan_rows T (length (fieldIndex meta)) rows (s_cache s)
      = (Inr (map (scanned T meta cv) rows), c')" "cache_ok c'"
    using scan_rows_ok[OF sc c] by blast
  then show ?thesis by (intro exI[of _ c']) (simp add: Select_page_def q)
qed

lemma Select_pages_ok:
  assumes pg: "pages_of qry a fnames (length (fieldIndex meta)) cs found" and sc: "scans T st meta cv"
    and bs: "0 < sa_batchSize a" and ch: "chunk \<in> set cs"
  shows "cache_ok (s_cache s) \<Longrightarrow> 0 \<le> off \<Longrightarrow>
    \<exists>c'. cache_ok c' \<and> Select_pages qry T a fnames chunk off lim s =
      Some (s\<lparr>s_cache := c', s_result := s_result s @ map (scanned T meta cv)
        (take (nat lim) (drop (nat off) (found (Select_args a chunk))))\<rparr>, None)"
proof (induction "nat lim" arbitrary: off lim s rule: less_induct)
  case less
  let ?found = "found (Select_args a chunk)"
  show ?case
  proof (cases "lim \<le> 0")
    case True
    then show ?thesis using less.prems(1)
      by (subst Select_pages.simps) (intro exI[of _ "s_cache s"], simp)
  next
    case False
    define m where "m = page_limit a lim"
    define rows where "rows = take (nat m) (drop (nat off) ?found)"
    have m: "0 < m" "m \<le> lim" using bs False by (auto simp: m_def page_limit_def)
    obtain c1 where c1: "cache_ok c1" "Select_page qry T a fnames chunk off lim s =
        (s\<lparr>s_cache := c1, s_result := s_result s @ map (scanned T meta cv) rows\<rparr>, Inr (length rows))"
      using Select_page_ok[OF pg sc less.prems(1) _ less.prems(2) ch, of lim rows] m
      unfolding m_def rows_def by blast
    let ?s1 = "s\<lparr>s_cache := c1, s_result := s_result s @ map (scanned T meta cv) rows\<rparr>"
    have len: "length rows = min (nat m) (length ?found - nat off)" by (simp add: rows_def)
    show ?thesis
    proof (cases "int (length rows) < m")
      case True
      then have "length ?found - nat off < nat m" using len by auto
      then have "take (nat lim) (drop (nat off) ?found) = rows"
        using m by (simp add: rows_def)
      then show ?thesis using c1 False True
        by (subst Select_pages.simps) (intro exI[of _ c1], simp add: Let_def m_def)
    next
      case full: False
      have lt: "nat (lim - m) < nat lim" using m False by simp
      obtain c2 where c2: "cache_ok c2" "Select_pages qry T a fnames chunk (off + m) (lim - m) ?s1 =
          Some (?s1\<lparr>s_cache := c2, s_result := s_result ?s1 @ map (scanned T meta cv)
            (take (nat (lim - m)) (drop (nat (off + m)) ?found))\<rparr>, None)"
        using less.hyps[OF lt, of ?s1 "off + m"] c1(1) less.prems(2) m(1) by auto
      have nl: "nat lim = nat m + nat (lim - m)" "nat (off + m) = nat off + nat m"
        using m less.prems(2) by auto
      have "rows @ take (nat (lim - m)) (drop (nat (off + m)) ?found) = take (nat lim) (drop (nat off) ?found)"
        unfolding rows_def nl by (simp add: take_add add.commute)
      then have "map (scanned T meta cv) rows @ map (scanned T meta cv)
            (take (nat (lim - m)) (drop (nat (off + m)) ?found))
          = map (scanned T meta cv) (take (nat lim) (drop (nat off) ?found))"
        by (simp flip: map_append)
      then show ?thesis using c1(2) c2 False full
        by (subst Select_pages.simps) (intro exI[of _ c2], simp add: Let_def m_def)
    qed
  qed
qed

lemma Select_chunks_ok:
  assumes pg: "pages_of qry a fnames (length (fieldIndex meta)) cs found" and sc: "scans T st meta cv"
    and bs: "0 < sa_batchSize a" and off: "0 \<le> off"
  shows "cache_ok (s_cache s) \<Longrightarrow> set cs' \<subseteq> set cs \<Longrightarrow>
    \<exists>c'. cache_ok c' \<and> Select_chunks qry T a fnames off lim cs' s =
      Some (s\<lparr>s_cache := c', s_result := s_result s @ map (scanned T meta cv)
        (concat (map (\<lambda>chunk. take (nat lim) (drop (nat off) (found (Select_args a chunk)))) cs'))\<rparr>, None)"
proof (induction cs' arbitrary: s)
  case Nil
  then show ?case by (intro exI[of _ "s_cache s"]) simp
next
  case (Cons chunk cs')
  then have ch: "chunk \<in> set cs" by simp
  obtain c1 where c1: "cache_ok c1" "Select_pages qry T a fnames chunk off lim s =
      Some (s\<lparr>s_cache := c1, s_result := s_result s @ map (scanned T meta cv)
        (take (nat lim) (drop (nat off) (found (Select_args a chunk))))\<rparr>, None)"
    using Select_pages_ok[OF pg sc bs ch Cons.prems(1) off] by blast
  let ?s1 = "s\<lparr>s_cache := c1, s_result := s_result s @ map (scanned T meta cv)
        (take (nat lim) (drop (nat off) (found (Select_args a chunk))))\<rparr>"
  obtain c2 where c2: "cache_ok c2" "Select_chunks qry T a fnames off lim cs' ?s1 =
      Some (?s1\<lparr>s_cache := c2, s_result := s_result ?s1 @ map (scanned T meta cv)
        (concat (map (\<lambda>chunk. take (nat lim) (drop (nat off) (found (Select_args a chunk)))) cs'))\<rparr>, None)"
    using Cons.IH[of ?s1] c1(1) Cons.prems(2) by auto
  then show ?case using c1 by (intro exI[of _ c2]) simp
qed

subsection \<open>SelectRaw\<close>

definition select_args ::
  "string \<Rightarrow> string \<Rightarrow> 'v QueryCond \<Rightarrow> string \<Rightarrow> 'v list \<Rightarrow> string \<Rightarrow> int \<Rightarrow> int \<Rightarrow> 'v SelectArgs" where
  "select_args table join g cond condArgs order batchSize timeout =
     \<lparr>sa_table = table, sa_join = join, sa_queryCond = g, sa_cond = cond, sa_condArgs = condArgs,
      sa_order = order, sa_batchSize = batch_size batchSize,
      sa_timeout = (if timeout = 0 then Timeout else timeout)\<rparr>"

lemma in_batch_size_pos: "in_batch_size order limit offset n = Inr k \<Longrightarrow> 0 < k"
  by (auto simp: in_batch_size_def BatchSize_def MaxInt32_def Let_def split: if_splits)

lemma SelectRaw_ok:
  assumes n: "in_batch_size order limit offset (InBatchSize g) = Inr n" and ck: "Select_check g cond = None"
    and sc: "scans T st meta cv" and c: "cache_ok cache" and off: "0 \<le> offset"
    and a_def: "a = select_args table join g cond condArgs order batchSize timeout"
    and lim_def: "lim = (if limit \<le> 0 then MaxInt32 else limit)"
    and pg: "pages_of qry a (cols meta) (length (fieldIndex meta)) (in_chunks n (InVals g)) found"
  shows "go_ends (SelectRaw qry T table join g cond condArgs order limit offset batchSize timeout cache db)
    (\<lambda>(db', c', r). db' = db \<and> cache_ok c' \<and> r = Inr (map (scanned T meta cv)
       (concat (map (\<lambda>chunk. take (nat lim) (drop (nat offset) (found (Select_args a chunk))))
          (in_chunks n (InVals g))))))"
proof -
  have b: "batch_chunks n (InVals g) = Some (Inr (in_chunks n (InVals g)))"
    by (rule batch_chunks_in[OF in_batch_size_pos[OF n]])
  obtain r c1 where g: "getStructMeta st cache = (r, c1)" by (cases "getStructMeta st cache")
  have "r = Inr meta" and c1: "cache_ok c1"
    using getStructMeta_cache[OF c g] sc by (auto simp: scans_def)
  then have f: "StructFields (rt_type T) cache = (Inr (cols meta), c1)"
    using sc g by (simp add: StructFields_def StructMeta_def scans_def)
  have bs: "0 < sa_batchSize a" by (simp add: a_def select_args_def batch_size_pos)
  obtain c2 where "cache_ok c2" "Select_chunks qry T a (cols meta) offset lim (in_chunks n (InVals g))
      \<lparr>s_db = db, s_cache = c1, s_result = []\<rparr> =
      Some (\<lparr>s_db = db, s_cache = c2, s_result = map (scanned T meta cv)
        (concat (map (\<lambda>chunk. take (nat lim) (drop (nat offset) (found (Select_args a chunk))))
          (in_chunks n (InVals g))))\<rparr>, None)"
    using Select_chunks_ok[OF pg sc bs off, of "\<lparr>s_db = db, s_cache = c1, s_result = []\<rparr>"
        "in_chunks n (InVals g)" lim] c1 by auto
  then show ?thesis
    unfolding SelectRaw_def Let_def n ck b f batch_size_def[symmetric] lim_def[symmetric]
    by (simp add: n ck b f a_def select_args_def)
qed

subsection \<open>Pages after a key\<close>

text \<open>
  The conditions of the first page and of the page after a key, as \<open>execOrderFieldSelect\<close> builds
  them, and the arguments of their statements.
\<close>

definition first_cond :: "'v SelectBuilder \<Rightarrow> string" where
  "first_cond b = sb_cond b @ '' '' @ '' '' @ order_mode b @ '' 1=1''"

definition next_cond :: "'v SelectBuilder \<Rightarrow> string \<Rightarrow> string" where
  "next_cond b opr = (sb_cond b @ '' '' @ order_mode b @ '' '' @ sb_orderField b @ '' '' @ opr @ '' ?'') @ '' '' @ ''AND 1=1''"

definition order_str :: "'v SelectBuilder \<Rightarrow> string \<Rightarrow> string" where
  "order_str b dir = ''ORDER BY '' @ sb_orderField b @ '' '' @ dir"

definition first_args :: "'v SelectBuilder \<Rightarrow> string \<Rightarrow> 'v SelectArgs" where
  "first_args b dir = select_args (sb_table b) (sb_join b) (sb_queryCond b) (first_cond b) (sb_condArgs b)
     (order_str b dir) (sb_batchSize b) (sb_timeout b)"

definition next_args :: "'v SelectBuilder \<Rightarrow> string \<Rightarrow> string \<Rightarrow> 'v \<Rightarrow> 'v SelectArgs" where
  "next_args b dir opr key = select_args (sb_table b) (sb_join b) (sb_queryCond b) (next_cond b opr)
     (sb_condArgs b @ [key]) (order_str b dir) (sb_batchSize b) (sb_timeout b)"

text \<open>
  What the database does with the key condition: the first statement finds the rows in the order
  of their keys, the statement with the key of row \<open>i\<close> those after row \<open>i\<close>.
\<close>

definition keyset_db ::
  "('db, 'v) query_fun \<Rightarrow> 'v SelectBuilder \<Rightarrow> string \<Rightarrow> string \<Rightarrow> string list \<Rightarrow> nat \<Rightarrow> ('v list \<Rightarrow> 'v) \<Rightarrow>
     'v list list \<Rightarrow> bool" where
  "keyset_db qry b dir opr fnames ncols key rows \<longleftrightarrow>
     pages_of qry (first_args b dir) fnames ncols [[]] (\<lambda>_. rows) \<and>
     (\<forall>i<length rows. pages_of qry (next_args b dir opr (key (rows ! i))) fnames ncols [[]] (\<lambda>_. drop (Suc i) rows))"

definition plain_query :: "'v SelectBuilder \<Rightarrow> bool" where
  "plain_query b \<longleftrightarrow> InCols (sb_queryCond b) = [] \<and> InVals (sb_queryCond b) = [] \<and>
     InBatchSize (sb_queryCond b) \<le> 0 \<and>
     length (FixedCols (sb_queryCond b)) = length (FixedVals (sb_queryCond b))"

lemma plain_checks:
  assumes "plain_query b"
  shows "in_batch_size (order_str b dir) limit off (InBatchSize (sb_queryCond b)) = Inr MaxInt32"
    and "Select_check (sb_queryCond b) (first_cond b) = None"
    and "Select_check (sb_queryCond b) (next_cond b opr) = None"
  using assms
  by (auto simp: plain_query_def in_batch_size_def order_str_def Select_check_def first_cond_def next_cond_def
      Let_def)

lemma first_page_ok:
  assumes b: "plain_query b" and sc: "scans T st meta cv" and c: "cache_ok cache" and off: "0 \<le> sb_offset b"
    and kdb: "keyset_db qry b dir opr (cols meta) (length (fieldIndex meta)) key rows" and l: "0 < limit"
  shows "go_ends (order_page qry T b dir opr None limit cache db) (\<lambda>(db', c', r). db' = db \<and> cache_ok c' \<and>
    r = Inr (map (scanned T meta cv) (take (nat limit) (drop (nat (sb_offset b)) rows))))"
proof -
  have "order_page qry T b dir opr None limit cache db =
      SelectRaw qry T (sb_table b) (sb_join b) (sb_queryCond b) (first_cond b) (sb_condArgs b)
        (order_str b dir) limit (sb_offset b) (sb_batchSize b) (sb_timeout b) cache db"
    by (simp add: order_page_def Where_def first_cond_def order_str_def Let_def)
  moreover have p: "pages_of qry (first_args b dir) (cols meta) (length (fieldIndex meta))
      (in_chunks MaxInt32 (InVals (sb_queryCond b))) (\<lambda>_. rows)"
    using kdb b by (simp add: keyset_db_def in_chunks_def plain_query_def)
  ultimately show ?thesis
    using SelectRaw_ok[OF plain_checks(1,2)[OF b] sc c off first_args_def refl p, of limit db] l b
    by (simp add: plain_query_def in_chunks_def)
qed

lemma next_page_ok:
  assumes b: "plain_query b" and sc: "scans T st meta cv" and c: "cache_ok cache" and i: "i < length rows"
    and kdb: "keyset_db qry b dir opr (cols meta) (length (fieldIndex meta)) key rows" and l: "0 < limit"
  shows "go_ends (order_page qry T b dir opr (Some (key (rows ! i))) limit cache db) (\<lambda>(db', c', r). db' = db \<and>
    cache_ok c' \<and> r = Inr (map (scanned T meta cv) (take (nat limit) (drop (Suc i) rows))))"
proof -
  let ?k = "key (rows ! i)"
  have "order_page qry T b dir opr (Some ?k) limit cache db =
      SelectRaw qry T (sb_table b) (sb_join b) (sb_queryCond b) (next_cond b opr) (sb_condArgs b @ [?k])
        (order_str b dir) limit 0 (sb_batchSize b) (sb_timeout b) cache db"
    by (simp add: order_page_def Where_def next_cond_def order_str_def Let_def)
  moreover have p: "pages_of qry (next_args b dir opr ?k) (cols meta) (length (fieldIndex meta))
      (in_chunks MaxInt32 (InVals (sb_queryCond b))) (\<lambda>_. drop (Suc i) rows)"
    using kdb i b by (simp add: keyset_db_def in_chunks_def plain_query_def)
  ultimately show ?thesis
    using SelectRaw_ok[OF plain_checks(1,3)[OF b] sc c order_refl next_args_def refl p, of limit db] l b
    by (simp add: plain_query_def in_chunks_def)
qed

lemma order_loop_ok:
  assumes b: "plain_query b" and bs: "0 < sb_batchSize b" and sc: "scans T st meta cv"
    and off: "0 \<le> sb_offset b"
    and kdb: "keyset_db qry b dir opr (cols meta) (length (fieldIndex meta)) key rows"
    and key: "\<forall>r\<in>set rows. keyof (scanned T meta cv r) = Some (Some (key r))"
  defines "win \<equiv> drop (nat (sb_offset b)) rows"
  shows "cache_ok cache \<Longrightarrow> j \<le> length win \<Longrightarrow> int j \<le> sb_limit b \<Longrightarrow>
    lst = (if j = 0 then None else Some (key (win ! (j - 1)))) \<Longrightarrow>
    go_ends (order_loop qry T keyof b dir opr lst (map (scanned T meta cv) (take j win)) cache db)
      (\<lambda>(db', c', r). db' = db \<and> cache_ok c' \<and> r = Inr (map (scanned T meta cv) (take (nat (sb_limit b)) win)))"
proof (induction "nat (sb_limit b) - j" arbitrary: j lst cache rule: less_induct)
  case less
  have jl: "length (take j win) = j" using less.prems(2) by simp
  show ?case
  proof (cases "int j < sb_limit b")
    case False
    then have "nat (sb_limit b) = j" using less.prems(3) by simp
    then show ?thesis using less.prems False jl
      by (subst order_loop.simps) simp
  next
    case True
    define lim where "lim = min (sb_limit b - int j) (sb_batchSize b)"
    have lim: "0 < lim" "int j + lim \<le> sb_limit b" using True bs by (auto simp: lim_def)
    define vals where "vals = take (nat lim) (drop j win)"
    have pg: "go_ends (order_page qry T b dir opr lst lim cache db)
        (\<lambda>(db', c', r). db' = db \<and> cache_ok c' \<and> r = Inr (map (scanned T meta cv) vals))"
    proof (cases j)
      case 0
      then show ?thesis using first_page_ok[OF b sc less.prems(1) off kdb lim(1)] less.prems(4)
        by (simp add: vals_def win_def)
    next
      case (Suc i)
      have i: "nat (sb_offset b) + i < length rows" using Suc less.prems(2) by (simp add: win_def)
      have w: "win ! i = rows ! (nat (sb_offset b) + i)" using i by (simp add: win_def)
      show ?thesis
        using next_page_ok[OF b sc less.prems(1) i kdb lim(1)] less.prems(4) Suc w
        unfolding vals_def by (simp add: win_def add.commute)
    qed
    then obtain c1 where c1: "cache_ok c1"
      "order_page qry T b dir opr lst lim cache db = Some (Inr (db, c1, Inr (map (scanned T meta cv) vals)))"
      by (auto elim!: go_endsE)
    show ?thesis
    proof (cases "vals = []")
      case True
      then have "length win = j" using lim(1) less.prems(2) by (simp add: vals_def)
      then show ?thesis using \<open>int j < sb_limit b\<close> c1 True jl lim_def
        by (subst order_loop.simps) simp
    next
      case False
      let ?j' = "j + length vals"
      have lv: "0 < length vals" "length vals \<le> nat lim" "?j' \<le> length win"
        using False less.prems(2) by (auto simp: vals_def)
      have nth: "vals ! k = win ! (j + k)" if "k < length vals" for k
        using that less.prems(2) by (simp add: vals_def)
      have e: "j + (length vals - 1) = ?j' - 1" using lv(1) by arith
      have lastv: "last vals = win ! (?j' - 1)"
        unfolding last_conv_nth[OF False] e[symmetric] by (rule nth) (use lv(1) in simp)
      have "last vals \<in> set rows"
        using False set_drop_subset set_take_subset by (metis (no_types) in_mono last_in_set vals_def win_def)
      then have "keyof (last (map (scanned T meta cv) vals)) = Some (Some (key (win ! (?j' - 1))))"
        using key False lastv by (simp add: last_map)
      moreover have "take (length vals) (drop j win) = vals" by (simp add: vals_def min_def)
      then have "take j win @ vals = take ?j' win" by (simp only: take_add)
      then have "map (scanned T meta cv) (take j win) @ map (scanned T meta cv) vals
          = map (scanned T meta cv) (take ?j' win)" by (metis map_append)
      moreover have "go_ends (order_loop qry T keyof b dir opr (Some (key (win ! (?j' - 1))))
            (map (scanned T meta cv) (take ?j' win)) c1 db)
          (\<lambda>(db', c', r). db' = db \<and> cache_ok c' \<and> r = Inr (map (scanned T meta cv) (take (nat (sb_limit b)) win)))"
      proof (rule less.hyps[OF _ c1(1)])
        show "nat (sb_limit b) - ?j' < nat (sb_limit b) - j" using lv(1,2) lim by linarith
        show "?j' \<le> length win" by (rule lv(3))
        show "int ?j' \<le> sb_limit b" using lv(2) lim by simp
        show "Some (key (win ! (?j' - 1))) = (if ?j' = 0 then None else Some (key (win ! (?j' - 1))))"
          using lv(1) by simp
      qed
      ultimately show ?thesis using True c1(2) False jl
        by (subst order_loop.simps) (simp add: lim_def)
    qed
  qed
qed

subsection \<open>A database that answers in pages\<close>

definition tail_limits :: "string \<Rightarrow> nat \<times> nat" where
  "tail_limits q =
     (let r = rev q; o' = takeWhile is_digit r;
          m = takeWhile is_digit (drop (length o' + length '' OFFSET '') r)
      in (str_nat (rev m), str_nat (rev o')))"

definition page_db :: "nat \<Rightarrow> ('v list \<Rightarrow> 'v list list) \<Rightarrow> ('db, 'v) query_fun" where
  "page_db ncols found db tmo q args =
     (case tail_limits q of (m, off) \<Rightarrow> (db, Inr (ncols, take m (drop off (found args)), None)))"

lemma takeWhile_digits:
  "\<not> is_digit c \<Longrightarrow> takeWhile is_digit (rev (nat_str n) @ c # xs) = rev (nat_str n)"
proof -
  assume c: "\<not> is_digit c"
  have "\<forall>x\<in>set (rev (nat_str n)). is_digit x" using is_digit_nat_str[of n] by (simp add: list_all_iff)
  then show ?thesis using c takeWhile_append2[of "rev (nat_str n)" is_digit "c # xs"] by simp
qed

lemma tail_limits_query: "tail_limits (p @ limit_offset (int m) (int off)) = (m, off)"
proof -
  have sp: "\<not> is_digit CHR '' ''" by (simp add: is_digit_def)
  have r: "rev (p @ limit_offset (int m) (int off)) =
      rev (nat_str off) @ CHR '' '' # rev '' OFFSET'' @ rev (nat_str m) @ CHR '' '' # rev ('' LIMIT'') @ rev p"
    by (simp add: limit_offset_def int_str_def)
  have d: "drop (length (nat_str off) + 8) (rev (nat_str off) @ CHR '' '' # rev '' OFFSET'' @ ys) = ys" for ys
    by simp
  show ?thesis
    unfolding tail_limits_def Let_def r takeWhile_digits[OF sp]
    by (simp add: d takeWhile_digits[OF sp] str_nat_nat_str)
qed

lemma page_db_pages: "pages_of (page_db ncols found) a fnames ncols cs found"
proof -
  have "\<exists>p. Select_query a fnames chunk m off = p @ limit_offset m off" for chunk m off
    unfolding Select_query_def BuildQuery_parts opt_part_def by (simp add: limit_offset_def)
  then have "tail_limits (Select_query a fnames chunk m off) = (nat m, nat off)"
    if "0 < m" "0 \<le> off" for chunk m off
    using tail_limits_query[of _ "nat m" "nat off"] that by (metis int_nat_eq less_imp_le)
  then show ?thesis by (simp add: pages_of_def page_db_def)
qed

end
