(* ===== verification/Sql_Properties.thy ===== *)
theory Sql_Properties
  imports Sql_Select_Spec
begin

section \<open>Properties of rivetxsql\<close>

text \<open>
  The statements the batch calls send and what they answer, for any database \<open>exec\<close>; the text of
  a statement; the metadata of a struct; and SELECT in pages over a database with the documented
  meaning of LIMIT and OFFSET.
\<close>

text \<open>A database that accepts everything and reports one row for each argument.\<close>

definition count_db :: "(nat, 'v) exec_fun" where
  "count_db n tmo q args = (n + 1, Inr (int (length args), 7))"

lemma batch_post_args:
  assumes "batch_post query concat (chunks n vals) log (Some t)" and "0 < n"
  shows "concat (map snd (statements log)) = concat vals"
proof -
  have "map snd (statements log) = map concat (chunks n vals)"
    using batch_post_all[OF assms(1)] by (simp add: o_def)
  moreover have "concat (map concat xss) = concat (concat xss)" for xss :: "'a list list list"
    by (induction xss) simp_all
  ultimately show ?thesis using concat_chunks[OF assms(2), of vals] by simp
qed

lemma batch_post_qmarks:
  assumes "batch_post query args cs log t" and "\<And>c. qmarks (query c) = length (args c)"
  shows "\<forall>(q, xs)\<in>set (statements log). qmarks q = length xs"
  using assms by (auto simp: batch_post_def)

text \<open>C5: \<open>InsertRaw\<close> returns; it sends one statement for each batch of the rows, in order, until one
  is refused; every statement has as many placeholders as arguments; without an error the
  arguments of all statements are exactly the values of all rows, and the total is the sum of the
  affected rows.\<close>

theorem InsertRaw_batches:
  assumes "vals \<noteq> []" and "cs \<noteq> []" and "\<forall>v\<in>set vals. length v = length cs"
    and "no_qmarks (table # onDup # cs)"
  shows "go_ends (InsertRaw (logged exec) table cs vals maxPerBatch onDup ign timeout (db, []))
    (\<lambda>((db', log), r).
       batch_post (Insert_query ign table cs onDup) concat (chunks (nat (batch_size maxPerBatch)) vals) log
         (res_total r) \<and>
       (\<forall>(q, xs)\<in>set (statements log). qmarks q = length xs) \<and>
       (case r of Inl _ \<Rightarrow> True | Inr _ \<Rightarrow> concat (map snd (statements log)) = concat vals))"
proof -
  obtain db' log r where r: "InsertRaw (logged exec) table cs vals maxPerBatch onDup ign timeout (db, [])
      = Some (Inr ((db', log), r))"
    "batch_post (Insert_query ign table cs onDup) concat (chunks (nat (batch_size maxPerBatch)) vals) log (res_total r)"
    using InsertRaw_log[OF assms(1-3), of exec table maxPerBatch onDup ign timeout db] by (auto elim!: go_endsE)
  moreover have pos: "0 < nat (batch_size maxPerBatch)" using batch_size_pos[of maxPerBatch] by simp
  ultimately show ?thesis
    using batch_post_qmarks[OF r(2) Insert_qmarks[OF assms(4)]]
    by (auto simp: res_total_def split: sum.splits dest: batch_post_args[OF _ pos])
qed

theorem InsertRaw_batches_witness:
  "\<exists>db' log r. InsertRaw (logged count_db) ''t'' [''a''] [[1], [2], [3 :: nat]] 2 [] False 0 (0, [])
     = Some (Inr ((db', log), r)) \<and> length log \<le> 2 \<and> (\<forall>(q, xs)\<in>set (statements log). qmarks q = length xs)"
proof -
  have c: "chunks (nat (batch_size 2)) [[1], [2], [3 :: nat]] = [[[1], [2]], [[3]]]"
    by (simp add: batch_size_def chunks.simps)
  have "go_ends (InsertRaw (logged count_db) ''t'' [''a''] [[1], [2], [3 :: nat]] 2 [] False 0 (0, []))
    (\<lambda>((db', log), r).
       batch_post (Insert_query False ''t'' [''a''] []) concat (chunks (nat (batch_size 2)) [[1], [2], [3]]) log
         (res_total r) \<and>
       (\<forall>(q, xs)\<in>set (statements log). qmarks q = length xs) \<and>
       (case r of Inl _ \<Rightarrow> True | Inr _ \<Rightarrow> concat (map snd (statements log)) = concat [[1], [2], [3]]))"
    by (rule InsertRaw_batches) (simp_all add: no_qmarks_def)
  then show ?thesis unfolding c by (auto simp: batch_post_def split: option.splits elim!: go_endsE)
qed

text \<open>C28: \<open>UpdateRaw\<close> keeps the same promises for its \<open>UPDATE ... JOIN (VALUES ROW(...))\<close> statements.\<close>

theorem UpdateRaw_batches:
  assumes "vals \<noteq> []" and "cs \<noteq> []" and "joinOn \<noteq> []" and "setExpr \<noteq> []"
    and "\<forall>v\<in>set vals. length v = length cs" and "no_qmarks (table # cs @ joinOn @ setExpr)"
  shows "go_ends (UpdateRaw (logged exec) table cs vals joinOn setExpr maxPerBatch timeout (db, []))
    (\<lambda>((db', log), r).
       batch_post (Update_query table cs joinOn setExpr) concat (chunks (nat (batch_size maxPerBatch)) vals) log
         (res_total r) \<and>
       (\<forall>(q, xs)\<in>set (statements log). qmarks q = length xs) \<and>
       (case r of Inl _ \<Rightarrow> True | Inr _ \<Rightarrow> concat (map snd (statements log)) = concat vals))"
proof -
  obtain db' log r where r: "UpdateRaw (logged exec) table cs vals joinOn setExpr maxPerBatch timeout (db, [])
      = Some (Inr ((db', log), r))"
    "batch_post (Update_query table cs joinOn setExpr) concat (chunks (nat (batch_size maxPerBatch)) vals) log (res_total r)"
    using UpdateRaw_log[OF assms(1-5), of exec table maxPerBatch timeout db] by (auto elim!: go_endsE)
  moreover have pos: "0 < nat (batch_size maxPerBatch)" using batch_size_pos[of maxPerBatch] by simp
  ultimately show ?thesis
    using batch_post_qmarks[OF r(2) Update_qmarks[OF assms(6)]]
    by (auto simp: res_total_def split: sum.splits dest: batch_post_args[OF _ pos])
qed

theorem UpdateRaw_batches_witness:
  "\<exists>db' log r. UpdateRaw (logged count_db) ''t'' [''id''] [[1 :: nat]] [''id''] [''u.a = 1''] 0 0 (0, [])
     = Some (Inr ((db', log), r)) \<and> (\<forall>(q, xs)\<in>set (statements log). qmarks q = length xs)"
proof -
  have "go_ends (UpdateRaw (logged count_db) ''t'' [''id''] [[1 :: nat]] [''id''] [''u.a = 1''] 0 0 (0, []))
    (\<lambda>((db', log), r).
       batch_post (Update_query ''t'' [''id''] [''id''] [''u.a = 1'']) concat (chunks (nat (batch_size 0)) [[1]]) log
         (res_total r) \<and>
       (\<forall>(q, xs)\<in>set (statements log). qmarks q = length xs) \<and>
       (case r of Inl _ \<Rightarrow> True | Inr _ \<Rightarrow> concat (map snd (statements log)) = concat [[1]]))"
    by (rule UpdateRaw_batches) (simp_all add: no_qmarks_def)
  then show ?thesis by (auto elim!: go_endsE)
qed



text \<open>C30: with IN columns but no IN values, which \<open>SelectRaw\<close> refuses, \<open>DeleteRaw\<close> deletes every row
  that matches the fixed conditions: the IN condition is dropped from the statement.\<close>

theorem DeleteRaw_empty_in:
  assumes "InVals g = []" and "InCols g \<noteq> []" and "FixedCols g \<noteq> []"
    and "length (FixedCols g) = length (FixedVals g)"
  shows "Select_check g [] = Some InColsNoVals \<and>
    go_ends (DeleteRaw (logged exec) table g [] [] 0 timeout (db, [])) (\<lambda>((db', log), r).
      statements log = [(''DELETE FROM  '' @ table @ ''  WHERE '' @ joinStr '' AND '' (fixed_conds (FixedCols g)),
                         FixedVals g)])"
proof -
  have ok: "Delete_ok g [] 0" using assms by (simp add: Delete_ok_def)
  have q: "Delete_query table g [] 0 [] =
      ''DELETE FROM  '' @ table @ ''  WHERE '' @ joinStr '' AND '' (fixed_conds (FixedCols g))"
    using assms(3) unfolding Delete_query_def BuildQuery_parts
    by (simp add: conditions_def where_part_def opt_part_def Delete_limit_def fixed_conds_def)
  have a: "Delete_args g [] [] = FixedVals g" using assms(3) by (simp add: Delete_args_def)
  have p: "statements log = [(Delete_query table g [] 0 [], Delete_args g [] [])]"
    if "batch_post (Delete_query table g [] 0) (Delete_args g []) [[]] log t" for log t
    using that by (cases log) (auto simp: batch_post_def statements_def split: option.splits)
  have "go_ends (DeleteRaw (logged exec) table g [] [] 0 timeout (db, []))
      (\<lambda>((db', log), r). batch_post (Delete_query table g [] 0) (Delete_args g []) [[]] log (res_total r))"
    using DeleteRaw_log[OF ok, of exec table "[]" timeout db] assms(1) by (simp add: in_chunks_def)
  then have "go_ends (DeleteRaw (logged exec) table g [] [] 0 timeout (db, [])) (\<lambda>((db', log), r).
      statements log = [(''DELETE FROM  '' @ table @ ''  WHERE '' @ joinStr '' AND '' (fixed_conds (FixedCols g)),
                         FixedVals g)])"
    by (auto elim!: go_endsE dest!: p simp: q a)
  then show ?thesis using assms by (simp add: Select_check_def)
qed

theorem DeleteRaw_empty_in_witness:
  "\<exists>s log r. DeleteRaw (logged count_db) ''t''
      \<lparr>FixedCols = [''a''], FixedVals = [5 :: nat], InCols = [''b''], InVals = [], InBatchSize = 0\<rparr>
      [] [] 0 0 (0, []) = Some (Inr ((s, log), r)) \<and> statements log = [(''DELETE FROM  t  WHERE a = ?'', [5])]"
  using DeleteRaw_empty_in[of "\<lparr>FixedCols = [''a''], FixedVals = [5 :: nat], InCols = [''b''], InVals = [],
      InBatchSize = 0\<rparr>" count_db "''t''" 0 0]
  by (auto simp: fixed_conds_def elim!: go_endsE)

text \<open>C31: the statement of \<open>BuildQuery\<close> is its parts in order, its conditions joined by one \<open>AND\<close>
  each and introduced by \<open>WHERE\<close>; and the space reserved is enough unless there is an order.\<close>

theorem BuildQuery_text:
  "BuildQuery sqls table join fixedConds cond inCols tuples order limit =
     concat (map (\<lambda>s. s @ '' '') sqls) @ table @ '' '' @ join @ '' WHERE'' @
     where_part (conditions fixedConds cond inCols tuples) @ opt_part order @ opt_part limit \<and>
   int (length (BuildQuery sqls table join fixedConds cond inCols tuples order limit))
     \<le> query_estimate sqls table join fixedConds cond inCols tuples limit + int (length (opt_part order))"
  using BuildQuery_parts length_BuildQuery_le by blast


definition user_type :: gotype where
  "user_type = \<lparr>t_name = ''User'', t_fields =
     [\<lparr>f_name = ''ID'', f_exported = True, f_db = ''id'', f_attr = ''auto,primary'', f_size = [], f_type = KInt64\<rparr>,
      \<lparr>f_name = ''Name'', f_exported = True, f_db = ''name'', f_attr = [], f_size = [], f_type = KString\<rparr>]\<rparr>"

lemma user_meta: "\<exists>m. buildMeta user_type = Inr m \<and> discardAutoCols m = [''name''] \<and> discardAutoFieldIndex m = [1] \<and>
    cols m = [''id'', ''name''] \<and> fieldIndex m = [0, 1]"
proof -
  have "case buildMeta user_type of Inl e \<Rightarrow> False | Inr m \<Rightarrow> discardAutoCols m = [''name''] \<and>
      discardAutoFieldIndex m = [1] \<and> cols m = [''id'', ''name''] \<and> fieldIndex m = [0, 1]"
    by code_simp
  then show ?thesis by (auto split: sum.splits)
qed


text \<open>The cache of struct metadata never changes an answer: with entries that were computed for
  their type, \<open>getStructMeta\<close> answers what it computes without one, and keeps such a cache.\<close>

lemma getStructMeta_cached:
  assumes "cache_ok cache"
  shows "fst (getStructMeta t cache) = buildMeta t \<and> cache_ok (snd (getStructMeta t cache))"
  using getStructMeta_cache[OF assms, of t] by (metis prod.collapse)

lemma getStructMeta_cached_example:
  "fst (getStructMeta user_type Map.empty) = buildMeta user_type"
  using getStructMeta_cached[OF cache_ok_empty] by blast

text \<open>\<open>Create\<close> never indexes the column types or attributes out of range, for any struct, and
  what it sends is a statement closed by one parenthesis and a semicolon.\<close>

lemma Create_no_panic:
  assumes "cache_ok cache"
  shows "go_returns (snd (Create exec (GStruct t) table timeout ukeys ikeys cache db)) (\<lambda>(db', e).
    (case buildMeta t of Inl x \<Rightarrow> e = Some x \<and> db' = db
     | Inr m \<Rightarrow> e = Some EmptyInput \<and> db' = db \<or>
        (\<exists>p r. exec db (if timeout = 0 then Timeout else timeout) (p @ '');'') [] = (db', r) \<and>
               e = (case r of Inl x \<Rightarrow> Some (ExecErr x) | Inr _ \<Rightarrow> None))))"
proof -
  obtain r c1 where g: "getStructMeta t cache = (r, c1)" by (cases "getStructMeta t cache")
  have r: "r = buildMeta t" using getStructMeta_cache[OF assms g] by simp
  show ?thesis
  proof (cases "buildMeta t")
    case (Inl x)
    then show ?thesis using g r by (simp add: Create_def StructMeta_def)
  next
    case (Inr m)
    obtain q where q: "Create_query table m ukeys ikeys = Inr q"
      "case q of None \<Rightarrow> True | Some q \<Rightarrow> \<exists>p. q = p @ '');''"
      using Create_query_ok[OF buildMeta_wf[OF Inr]] by blast
    show ?thesis
    proof (cases q)
      case None
      then show ?thesis using g r Inr q by (simp add: Create_def StructMeta_def)
    next
      case (Some s)
      then obtain p where "q = Some (p @ '');'')" using q(2) by auto
      then show ?thesis using g r Inr q(1)
        by (auto simp: Create_def StructMeta_def split: prod.splits sum.splits)
    qed
  qed
qed

lemma Create_no_panic_example:
  "\<exists>db' e. snd (Create count_db (GStruct user_type) ''t'' 0 [] [] Map.empty 0) = Inr (db', e :: sql_err option)"
  using Create_no_panic[OF cache_ok_empty, of count_db user_type "''t''" 0 "[]" "[]" 0]
  by (auto simp: go_returns_def split: sum.splits)


definition user_row :: "nat rowtype" where
  "user_row = \<lparr>rt_type = GStruct user_type, rt_zero = [0, 0], rt_conv = Inr\<rparr>"

definition three_rows :: "nat list list" where
  "three_rows = [[1, 10], [2, 20], [3, 30]]"

lemma user_scans: "\<exists>m. scans user_row user_type m id \<and> fieldIndex m = [0, 1] \<and> map (scanned user_row m id) three_rows = three_rows"
proof -
  obtain m where m: "buildMeta user_type = Inr m" "fieldIndex m = [0, 1]" using user_meta by blast
  then show ?thesis
    by (intro exI[of _ m]) (simp add: scans_def user_row_def scanned_def three_rows_def set_fields_def)
qed



definition key_builder :: "nat SelectBuilder" where
  "key_builder = SelectBuilder_BatchSize (SelectBuilder_OrderFieldSelect (NewSelect ''t'') ''id'' False 2) 1"

definition after_key :: "nat list \<Rightarrow> nat list list" where
  "after_key args = (if args = [] then three_rows else filter (\<lambda>r. last args < hd r) three_rows)"

definition key_db :: "(unit, nat) query_fun" where
  "key_db = page_db 2 after_key"

lemma key_builder_db:
  "keyset_db key_db key_builder ''ASC'' ''>'' fnames 2 hd three_rows"
proof -
  have a: "Select_args (first_args key_builder ''ASC'') [] = []"
    "Select_args (next_args key_builder ''ASC'' ''>'' k) [] = [k]" for k
    by (simp_all add: Select_args_def Delete_args_def first_args_def next_args_def select_args_def key_builder_def
        SelectBuilder_BatchSize_def SelectBuilder_OrderFieldSelect_def SelectBuilder_Limit_def NewSelect_def
        emptyCond_def)
  have d: "\<forall>i<length three_rows. after_key [hd (three_rows ! i)] = drop (Suc i) three_rows"
    by (simp add: after_key_def three_rows_def less_Suc_eq)
  have p: "pages_of key_db x fnames 2 [[]] (\<lambda>_. after_key (Select_args x []))" for x
  proof -
    have "pages_of key_db x fnames 2 [[]] after_key" unfolding key_db_def by (rule page_db_pages)
    then show ?thesis by (simp add: pages_of_def)
  qed
  have "pages_of key_db (next_args key_builder ''ASC'' ''>'' (hd (three_rows ! i))) fnames 2 [[]]
      (\<lambda>_. drop (Suc i) three_rows)" if "i < length three_rows" for i
    using p[of "next_args key_builder ''ASC'' ''>'' (hd (three_rows ! i))"] d that by (simp add: a)
  moreover have "pages_of key_db (first_args key_builder ''ASC'') fnames 2 [[]] (\<lambda>_. three_rows)"
    using p[of "first_args key_builder ''ASC''"] by (simp add: a after_key_def)
  ultimately show ?thesis by (simp add: keyset_db_def)
qed




end
