(* ===== verification/Vector.thy ===== *)
theory Vector
  imports Prelude
begin

section \<open>vector.Vector over a store of arrays\<close>

text \<open>
  \<open>rivetxcore/vector/vector.go\<close>. A Go slice shares its backing array with every slice made from
  it, so the model has an explicit store: the list of the arrays ever allocated. A slice is its
  array (\<open>None\<close> for a nil slice), its length and its capacity; every slice here starts at the
  front of its array. \<open>append\<close>, \<open>slices.Insert\<close> and \<open>slices.Delete\<close> write in place where the
  capacity allows and allocate otherwise; \<open>grow\<close> is the growth policy of the runtime, \<open>z\<close> the zero
  value of the element type.
\<close>

type_synonym 'a store = "'a list list"

record slice =
  sl_arr :: "nat option"
  sl_len :: nat
  sl_cap :: nat

definition nil_slice :: slice where
  "nil_slice = \<lparr>sl_arr = None, sl_len = 0, sl_cap = 0\<rparr>"

definition elems :: "'a store \<Rightarrow> slice \<Rightarrow> 'a list" where
  "elems st s = (case sl_arr s of None \<Rightarrow> [] | Some p \<Rightarrow> take (sl_len s) (st ! p))"

definition slice_wf :: "'a store \<Rightarrow> slice \<Rightarrow> bool" where
  "slice_wf st s \<longleftrightarrow>
     (case sl_arr s of
        None \<Rightarrow> sl_len s = 0 \<and> sl_cap s = 0
      | Some p \<Rightarrow> p < length st \<and> sl_len s \<le> sl_cap s \<and> sl_cap s = length (st ! p))"

text \<open>A new array with the elements \<open>xs\<close> and the capacity \<open>c\<close>, at least their number.\<close>

definition alloc :: "'a \<Rightarrow> 'a store \<Rightarrow> 'a list \<Rightarrow> nat \<Rightarrow> 'a store \<times> slice" where
  "alloc z st xs c =
     (st @ [xs @ replicate (c - length xs) z],
      \<lparr>sl_arr = Some (length st), sl_len = length xs, sl_cap = max c (length xs)\<rparr>)"

text \<open>Writing \<open>xs\<close> to the front of the array of a slice.\<close>

definition put :: "'a store \<Rightarrow> slice \<Rightarrow> 'a list \<Rightarrow> 'a store" where
  "put st s xs = (case sl_arr s of None \<Rightarrow> st | Some p \<Rightarrow> st[p := xs @ drop (length xs) (st ! p)])"

definition s_append :: "(nat \<Rightarrow> nat \<Rightarrow> nat) \<Rightarrow> 'a \<Rightarrow> 'a store \<Rightarrow> slice \<Rightarrow> 'a list \<Rightarrow> 'a store \<times> slice" where
  "s_append grow z st s xs =
     (let n = sl_len s + length xs
      in if xs = [] then (st, s)
         else if n \<le> sl_cap s then (put st s (elems st s @ xs), s\<lparr>sl_len := n\<rparr>)
         else alloc z st (elems st s @ xs) (grow (sl_cap s) n))"

definition s_insert :: "(nat \<Rightarrow> nat \<Rightarrow> nat) \<Rightarrow> 'a \<Rightarrow> 'a store \<Rightarrow> slice \<Rightarrow> nat \<Rightarrow> 'a list \<Rightarrow> 'a store \<times> slice" where
  "s_insert grow z st s i xs =
     (let n = sl_len s + length xs; ys = take i (elems st s) @ xs @ drop i (elems st s)
      in if xs = [] then (st, s)
         else if n \<le> sl_cap s then (put st s ys, s\<lparr>sl_len := n\<rparr>)
         else alloc z st ys (grow (sl_cap s) n))"

text \<open>\<open>slices.Delete(s, i, j)\<close> also clears the elements behind the new end.\<close>

definition s_delete :: "'a \<Rightarrow> 'a store \<Rightarrow> slice \<Rightarrow> nat \<Rightarrow> nat \<Rightarrow> 'a store \<times> slice" where
  "s_delete z st s i j =
     (put st s (take i (elems st s) @ drop j (elems st s) @ replicate (j - i) z),
      s\<lparr>sl_len := sl_len s - (j - i)\<rparr>)"

definition s_clone :: "(nat \<Rightarrow> nat \<Rightarrow> nat) \<Rightarrow> 'a \<Rightarrow> 'a store \<Rightarrow> slice \<Rightarrow> 'a store \<times> slice" where
  "s_clone grow z st s =
     (if sl_arr s = None then (st, nil_slice)
      else alloc z st (elems st s) (if sl_len s = 0 then 0 else grow 0 (sl_len s)))"

subsection \<open>Functions on slices\<close>

definition SliceGet :: "'a \<Rightarrow> 'a store \<Rightarrow> slice \<Rightarrow> int \<Rightarrow> 'a \<times> bool" where
  "SliceGet z st s index =
     (if index < 0 \<or> int (sl_len s) \<le> index then (z, False) else (elems st s ! nat index, True))"

definition SliceSet :: "'a store \<Rightarrow> slice \<Rightarrow> int \<Rightarrow> 'a \<Rightarrow> 'a store \<times> bool" where
  "SliceSet st s index value =
     (if index < 0 \<or> int (sl_len s) \<le> index then (st, False)
      else (put st s ((elems st s)[nat index := value]), True))"

subsection \<open>Vector\<close>

record Vector =
  v_datas :: slice

text \<open>\<open>New(size...)\<close>: the optional length and capacity; a negative length panics.\<close>

definition Vector_New :: "'a \<Rightarrow> 'a store \<Rightarrow> int list \<Rightarrow> ('a store \<times> Vector) go" where
  "Vector_New z st size_args =
     (let len = (if 0 < length size_args then size_args ! 0 else 0);
          cap0 = (if 0 < length size_args then size_args ! 0 else 0);
          cap1 = (if 1 < length size_args then size_args ! 1 else cap0);
          cap = (if cap1 < len then len else cap1)
      in if len < 0 then Inl MakeSliceCap
         else (case alloc z st (replicate (nat len) z) (nat cap) of (st', s) \<Rightarrow> Inr (st', \<lparr>v_datas = s\<rparr>)))"

definition Vector_FromSlice :: "slice \<Rightarrow> Vector" where
  "Vector_FromSlice s = \<lparr>v_datas = s\<rparr>"

definition Vector_Get :: "'a \<Rightarrow> 'a store \<Rightarrow> Vector \<Rightarrow> int \<Rightarrow> 'a \<times> bool" where
  "Vector_Get z st v index = SliceGet z st (v_datas v) index"

definition Vector_Set :: "'a store \<Rightarrow> Vector \<Rightarrow> int \<Rightarrow> 'a \<Rightarrow> 'a store \<times> bool" where
  "Vector_Set st v index value = SliceSet st (v_datas v) index value"

definition Vector_Append :: "(nat \<Rightarrow> nat \<Rightarrow> nat) \<Rightarrow> 'a \<Rightarrow> 'a store \<Rightarrow> Vector \<Rightarrow> 'a list \<Rightarrow> 'a store \<times> Vector" where
  "Vector_Append grow z st v xs =
     (case s_append grow z st (v_datas v) xs of (st', s) \<Rightarrow> (st', v\<lparr>v_datas := s\<rparr>))"

definition Vector_Len :: "Vector \<Rightarrow> int" where "Vector_Len v = int (sl_len (v_datas v))"
definition Vector_Cap :: "Vector \<Rightarrow> int" where "Vector_Cap v = int (sl_cap (v_datas v))"
definition Vector_Datas :: "Vector \<Rightarrow> slice" where "Vector_Datas v = v_datas v"

definition Vector_MoveDatas :: "Vector \<Rightarrow> slice \<Rightarrow> Vector" where
  "Vector_MoveDatas v s = v\<lparr>v_datas := s\<rparr>"

definition Vector_CopyDatas :: "(nat \<Rightarrow> nat \<Rightarrow> nat) \<Rightarrow> 'a \<Rightarrow> 'a store \<Rightarrow> Vector \<Rightarrow> slice \<Rightarrow> 'a store \<times> Vector" where
  "Vector_CopyDatas grow z st v s = (case s_clone grow z st s of (st', s') \<Rightarrow> (st', v\<lparr>v_datas := s'\<rparr>))"

definition Vector_Insert ::
  "(nat \<Rightarrow> nat \<Rightarrow> nat) \<Rightarrow> 'a \<Rightarrow> 'a store \<Rightarrow> Vector \<Rightarrow> int \<Rightarrow> 'a list \<Rightarrow> 'a store \<times> Vector \<times> bool" where
  "Vector_Insert grow z st v index xs =
     (if index < 0 \<or> int (sl_len (v_datas v)) < index then (st, v, False)
      else if length xs = 0 then (st, v, True)
      else (case s_insert grow z st (v_datas v) (nat index) xs of (st', s) \<Rightarrow> (st', v\<lparr>v_datas := s\<rparr>, True)))"

definition Vector_Remove :: "'a \<Rightarrow> 'a store \<Rightarrow> Vector \<Rightarrow> int \<Rightarrow> 'a store \<times> Vector \<times> bool" where
  "Vector_Remove z st v index =
     (if index < 0 \<or> int (sl_len (v_datas v)) \<le> index then (st, v, False)
      else (case s_delete z st (v_datas v) (nat index) (nat (index + 1)) of
              (st', s) \<Rightarrow> (st', v\<lparr>v_datas := s\<rparr>, True)))"

definition Vector_RemoveRange :: "'a \<Rightarrow> 'a store \<Rightarrow> Vector \<Rightarrow> int \<Rightarrow> int \<Rightarrow> 'a store \<times> Vector \<times> bool" where
  "Vector_RemoveRange z st v startIndex endIndex =
     (if endIndex < startIndex then (st, v, False)
      else if startIndex < 0 \<or> int (sl_len (v_datas v)) \<le> startIndex then (st, v, False)
      else if int (sl_len (v_datas v)) < endIndex then (st, v, False)
      else if startIndex = endIndex then (st, v, True)
      else (case s_delete z st (v_datas v) (nat startIndex) (nat endIndex) of
              (st', s) \<Rightarrow> (st', v\<lparr>v_datas := s\<rparr>, True)))"

definition Vector_RemoveFast :: "'a store \<Rightarrow> Vector \<Rightarrow> int \<Rightarrow> 'a store \<times> Vector \<times> bool" where
  "Vector_RemoveFast st v index =
     (if index < 0 \<or> int (sl_len (v_datas v)) \<le> index then (st, v, False)
      else
        (let s = v_datas v; xs = elems st s;
             st' = put st s (xs[nat index := xs ! (sl_len s - 1)])
         in (st', v\<lparr>v_datas := s\<lparr>sl_len := sl_len s - 1\<rparr>\<rparr>, True)))"

definition Vector_Clear :: "Vector \<Rightarrow> Vector" where
  "Vector_Clear v = v\<lparr>v_datas := (v_datas v)\<lparr>sl_len := 0\<rparr>\<rparr>"

definition Vector_ContainsFunc :: "'a store \<Rightarrow> Vector \<Rightarrow> ('a \<Rightarrow> bool) \<Rightarrow> bool" where
  "Vector_ContainsFunc st v f = list_ex f (elems st (v_datas v))"

definition Vector_IsValidIndex :: "Vector \<Rightarrow> int \<Rightarrow> bool" where
  "Vector_IsValidIndex v index \<longleftrightarrow> 0 \<le> index \<and> index < int (sl_len (v_datas v))"

definition Vector_IsEmpty :: "Vector \<Rightarrow> bool" where
  "Vector_IsEmpty v \<longleftrightarrow> sl_len (v_datas v) = 0"

definition Vector_Clone :: "(nat \<Rightarrow> nat \<Rightarrow> nat) \<Rightarrow> 'a \<Rightarrow> 'a store \<Rightarrow> Vector \<Rightarrow> 'a store \<times> Vector" where
  "Vector_Clone grow z st v = (case s_clone grow z st (v_datas v) of (st', s) \<Rightarrow> (st', \<lparr>v_datas = s\<rparr>))"

definition Vector_Reverse :: "'a store \<Rightarrow> Vector \<Rightarrow> 'a store" where
  "Vector_Reverse st v = put st (v_datas v) (rev (elems st (v_datas v)))"

text \<open>The sort of the library, \<open>srt\<close>, in place.\<close>

definition Vector_SortFunc ::
  "(('a \<Rightarrow> 'a \<Rightarrow> int) \<Rightarrow> 'a list \<Rightarrow> 'a list) \<Rightarrow> 'a store \<Rightarrow> Vector \<Rightarrow> ('a \<Rightarrow> 'a \<Rightarrow> int) \<Rightarrow> 'a store" where
  "Vector_SortFunc srt st v cmp = put st (v_datas v) (srt cmp (elems st (v_datas v)))"

fun stable_insert :: "('a \<Rightarrow> 'a \<Rightarrow> int) \<Rightarrow> 'a \<Rightarrow> 'a list \<Rightarrow> 'a list" where
  "stable_insert cmp x [] = [x]"
| "stable_insert cmp x (y # ys) = (if 0 < cmp x y then y # stable_insert cmp x ys else x # y # ys)"

definition stable_sort :: "('a \<Rightarrow> 'a \<Rightarrow> int) \<Rightarrow> 'a list \<Rightarrow> 'a list" where
  "stable_sort cmp xs = foldr (stable_insert cmp) xs []"

definition Vector_SortStableFunc :: "'a store \<Rightarrow> Vector \<Rightarrow> ('a \<Rightarrow> 'a \<Rightarrow> int) \<Rightarrow> 'a store" where
  "Vector_SortStableFunc st v cmp = put st (v_datas v) (stable_sort cmp (elems st (v_datas v)))"

text \<open>Functions of two vectors; \<open>None\<close> is the nil pointer.\<close>

definition Vector_Contains :: "'a store \<Rightarrow> Vector option \<Rightarrow> 'a \<Rightarrow> bool" where
  "Vector_Contains st v val =
     (case v of
        None \<Rightarrow> False
      | Some v \<Rightarrow> if sl_arr (v_datas v) = None then False else val \<in> set (elems st (v_datas v)))"

definition Vector_Equal :: "'a store \<Rightarrow> Vector option \<Rightarrow> Vector option \<Rightarrow> bool" where
  "Vector_Equal st v1 v2 =
     (case (v1, v2) of
        (Some a, Some b) \<Rightarrow>
          if sl_arr (v_datas a) = None \<or> sl_arr (v_datas b) = None then False
          else elems st (v_datas a) = elems st (v_datas b)
      | _ \<Rightarrow> False)"

definition Vector_EqualFunc :: "'a store \<Rightarrow> Vector \<Rightarrow> Vector option \<Rightarrow> ('a \<Rightarrow> 'a \<Rightarrow> bool) \<Rightarrow> bool" where
  "Vector_EqualFunc st v other eq =
     (case other of None \<Rightarrow> False | Some w \<Rightarrow> list_all2 eq (elems st (v_datas v)) (elems st (v_datas w)))"

text \<open>\<open>Range\<close> with a callback on a state of its own.\<close>

fun Vector_Range_loop :: "(nat \<Rightarrow> 'a \<Rightarrow> 's \<Rightarrow> 's) \<Rightarrow> nat \<Rightarrow> 'a list \<Rightarrow> 's \<Rightarrow> 's" where
  "Vector_Range_loop f i [] s = s"
| "Vector_Range_loop f i (x # xs) s = Vector_Range_loop f (Suc i) xs (f i x s)"

definition Vector_Range :: "'a store \<Rightarrow> Vector \<Rightarrow> (nat \<Rightarrow> 'a \<Rightarrow> 's \<Rightarrow> 's) \<Rightarrow> 's \<Rightarrow> 's" where
  "Vector_Range st v f s = Vector_Range_loop f 0 (elems st (v_datas v)) s"

definition Vector_String :: "('a \<Rightarrow> string) \<Rightarrow> 'a store \<Rightarrow> Vector \<Rightarrow> string" where
  "Vector_String sh st v =
     Vector_Range st v (\<lambda>i x b. (if 0 < i then b @ '', '' else b) @ sh x) ''['' @ '']''"

subsection \<open>What the operations do to the elements\<close>

text \<open>
  \<open>writes st s st' s'\<close>: the operation keeps every array but that of \<open>s\<close>, of the same length, and
  gives a slice of the array of \<open>s\<close> or of one that is new.
\<close>

definition writes :: "'a store \<Rightarrow> slice \<Rightarrow> 'a store \<Rightarrow> slice \<Rightarrow> bool" where
  "writes st s st' s' \<longleftrightarrow>
     length st \<le> length st' \<and>
     (\<forall>p<length st. length (st' ! p) = length (st ! p) \<and> (sl_arr s \<noteq> Some p \<longrightarrow> st' ! p = st ! p)) \<and>
     (sl_arr s' = sl_arr s \<or> (\<forall>p. sl_arr s' = Some p \<longrightarrow> length st \<le> p))"

lemma length_elems: "slice_wf st s \<Longrightarrow> length (elems st s) = sl_len s"
  by (auto simp: slice_wf_def elems_def split: option.splits)

lemma alloc_ok:
  assumes "alloc z st xs c = (st', s')"
  shows "elems st' s' = xs \<and> slice_wf st' s' \<and> writes st s st' s' \<and> sl_len s' = length xs \<and>
    sl_arr s' = Some (length st)"
  using assms by (auto simp: alloc_def elems_def slice_wf_def writes_def nth_append max_def)

lemma put_ok:
  assumes "slice_wf st s" and "n \<le> length xs" and "length xs \<le> sl_cap s"
  shows "elems (put st s xs) (s\<lparr>sl_len := n\<rparr>) = take n xs \<and> slice_wf (put st s xs) (s\<lparr>sl_len := n\<rparr>) \<and>
    writes st s (put st s xs) (s\<lparr>sl_len := n\<rparr>)"
  using assms
  by (auto simp: slice_wf_def put_def elems_def writes_def nth_list_update split: option.splits)

lemma write_or_alloc_ok:
  assumes wf: "slice_wf st s" and n: "n = length ys"
    and r: "(if n \<le> sl_cap s then (put st s ys, s\<lparr>sl_len := n\<rparr>) else alloc z st ys c) = (st', s')"
  shows "elems st' s' = ys \<and> slice_wf st' s' \<and> writes st s st' s'"
proof (cases "n \<le> sl_cap s")
  case True
  then show ?thesis using r put_ok[OF wf, of n ys] n by auto
next
  case False
  then have "alloc z st ys c = (st', s')" using r by simp
  from alloc_ok[OF this] show ?thesis by simp
qed

lemma s_append_ok:
  assumes wf: "slice_wf st s" and "s_append grow z st s xs = (st', s')"
  shows "elems st' s' = elems st s @ xs \<and> slice_wf st' s' \<and> writes st s st' s'"
proof (cases "xs = []")
  case True
  then show ?thesis using assms by (auto simp: s_append_def writes_def)
next
  case False
  then have "(if sl_len s + length xs \<le> sl_cap s then (put st s (elems st s @ xs), s\<lparr>sl_len := sl_len s + length xs\<rparr>)
      else alloc z st (elems st s @ xs) (grow (sl_cap s) (sl_len s + length xs))) = (st', s')"
    using assms(2) by (simp only: s_append_def Let_def if_False)
  then show ?thesis by (rule write_or_alloc_ok[OF wf, rotated]) (simp add: length_elems[OF wf])
qed

lemma s_insert_ok:
  assumes wf: "slice_wf st s" and "i \<le> sl_len s" and "s_insert grow z st s i xs = (st', s')"
  shows "elems st' s' = take i (elems st s) @ xs @ drop i (elems st s) \<and> slice_wf st' s' \<and> writes st s st' s'"
proof (cases "xs = []")
  case True
  then show ?thesis using assms by (auto simp: s_insert_def writes_def)
next
  case False
  let ?ys = "take i (elems st s) @ xs @ drop i (elems st s)"
  have "(if sl_len s + length xs \<le> sl_cap s then (put st s ?ys, s\<lparr>sl_len := sl_len s + length xs\<rparr>)
      else alloc z st ?ys (grow (sl_cap s) (sl_len s + length xs))) = (st', s')"
    using assms(3) False by (simp only: s_insert_def Let_def if_False)
  then show ?thesis
    by (rule write_or_alloc_ok[OF wf, rotated]) (use assms(2) in \<open>simp add: length_elems[OF wf]\<close>)
qed

lemma s_delete_ok:
  assumes wf: "slice_wf st s" and "i \<le> j" and "j \<le> sl_len s" and "s_delete z st s i j = (st', s')"
  shows "elems st' s' = take i (elems st s) @ drop j (elems st s) \<and> slice_wf st' s' \<and> writes st s st' s'"
proof -
  let ?xs = "take i (elems st s) @ drop j (elems st s) @ replicate (j - i) z"
  have l: "length (elems st s) = sl_len s" by (rule length_elems[OF wf])
  have c: "sl_len s \<le> sl_cap s" using wf by (auto simp: slice_wf_def split: option.splits)
  have "length ?xs = sl_len s" using l assms(2,3) by simp
  moreover have "take (sl_len s - (j - i)) ?xs = take i (elems st s) @ drop j (elems st s)"
    using l assms(2,3) by simp
  ultimately show ?thesis
    using put_ok[OF wf, of "sl_len s - (j - i)" ?xs] assms(4) c by (auto simp: s_delete_def)
qed

lemma s_clone_ok:
  assumes "slice_wf st s" and "s_clone grow z st s = (st', s')"
  shows "elems st' s' = elems st s \<and> slice_wf st' s' \<and> writes st nil_slice st' s' \<and>
    (\<forall>p. sl_arr s' = Some p \<longrightarrow> length st \<le> p)"
proof (cases "sl_arr s")
  case None
  then show ?thesis using assms by (auto simp: s_clone_def elems_def slice_wf_def nil_slice_def writes_def)
next
  case (Some p)
  then show ?thesis using assms alloc_ok[of z st "elems st s"]
    by (auto simp: s_clone_def)
qed

text \<open>A slice of another array does not see the operation.\<close>

lemma writes_other:
  assumes "writes st s st' s'" and "slice_wf st t" and "sl_arr t = None \<or> sl_arr t \<noteq> sl_arr s"
  shows "elems st' t = elems st t \<and> slice_wf st' t"
  using assms by (auto simp: writes_def slice_wf_def elems_def split: option.splits)

lemma stable_insert_set: "set (stable_insert cmp x ys) = insert x (set ys)"
  by (induction ys) auto

lemma length_stable_insert: "length (stable_insert cmp x ys) = Suc (length ys)"
  by (induction ys) auto

lemma length_stable_sort: "length (stable_sort cmp xs) = length xs"
  by (induction xs) (simp_all add: stable_sort_def length_stable_insert)

lemma writes_trans:
  assumes a: "writes st s st1 s1" and b: "writes st1 s1 st2 s2"
  shows "writes st s st2 s2"
proof -
  have "length (st2 ! p) = length (st ! p) \<and> (sl_arr s \<noteq> Some p \<longrightarrow> st2 ! p = st ! p)" if p: "p < length st" for p
  proof -
    have p1: "p < length st1" using a p by (simp add: writes_def)
    have "sl_arr s \<noteq> Some p \<Longrightarrow> sl_arr s1 \<noteq> Some p" using a p by (auto simp: writes_def)
    then show ?thesis using a b p p1 by (auto simp: writes_def)
  qed
  moreover have "length st \<le> length st2" using a b by (simp add: writes_def)
  moreover have "sl_arr s2 = sl_arr s \<or> (\<forall>p. sl_arr s2 = Some p \<longrightarrow> length st \<le> p)"
    using a b by (auto simp: writes_def)
  ultimately show ?thesis by (simp add: writes_def)
qed

subsection \<open>The operations as a machine, and its specification on lists\<close>

datatype 'a vop =
    VAppend "'a list" | VInsert int "'a list" | VRemove int | VRemoveRange int int | VRemoveFast int
  | VSet int 'a | VClear | VReverse | VSortStable "'a \<Rightarrow> 'a \<Rightarrow> int"

fun vop_run :: "(nat \<Rightarrow> nat \<Rightarrow> nat) \<Rightarrow> 'a \<Rightarrow> 'a vop \<Rightarrow> 'a store \<times> Vector \<Rightarrow> 'a store \<times> Vector" where
  "vop_run grow z (VAppend xs) (st, v) = Vector_Append grow z st v xs"
| "vop_run grow z (VInsert i xs) (st, v) = (case Vector_Insert grow z st v i xs of (st', v', _) \<Rightarrow> (st', v'))"
| "vop_run grow z (VRemove i) (st, v) = (case Vector_Remove z st v i of (st', v', _) \<Rightarrow> (st', v'))"
| "vop_run grow z (VRemoveRange i j) (st, v) = (case Vector_RemoveRange z st v i j of (st', v', _) \<Rightarrow> (st', v'))"
| "vop_run grow z (VRemoveFast i) (st, v) = (case Vector_RemoveFast st v i of (st', v', _) \<Rightarrow> (st', v'))"
| "vop_run grow z (VSet i x) (st, v) = (fst (Vector_Set st v i x), v)"
| "vop_run grow z VClear (st, v) = (st, Vector_Clear v)"
| "vop_run grow z VReverse (st, v) = (Vector_Reverse st v, v)"
| "vop_run grow z (VSortStable cmp) (st, v) = (Vector_SortStableFunc st v cmp, v)"

fun vop_spec :: "'a vop \<Rightarrow> 'a list \<Rightarrow> 'a list" where
  "vop_spec (VAppend ys) xs = xs @ ys"
| "vop_spec (VInsert i ys) xs =
     (if 0 \<le> i \<and> i \<le> int (length xs) then take (nat i) xs @ ys @ drop (nat i) xs else xs)"
| "vop_spec (VRemove i) xs =
     (if 0 \<le> i \<and> i < int (length xs) then take (nat i) xs @ drop (Suc (nat i)) xs else xs)"
| "vop_spec (VRemoveRange i j) xs =
     (if 0 \<le> i \<and> i \<le> j \<and> j \<le> int (length xs) then take (nat i) xs @ drop (nat j) xs else xs)"
| "vop_spec (VRemoveFast i) xs =
     (if 0 \<le> i \<and> i < int (length xs) then butlast (xs[nat i := last xs]) else xs)"
| "vop_spec (VSet i x) xs = (if 0 \<le> i \<and> i < int (length xs) then xs[nat i := x] else xs)"
| "vop_spec VClear xs = []"
| "vop_spec VReverse xs = rev xs"
| "vop_spec (VSortStable cmp) xs = stable_sort cmp xs"

definition vop_ok :: "'a vop \<Rightarrow> 'a store \<Rightarrow> Vector \<Rightarrow> 'a store \<Rightarrow> Vector \<Rightarrow> bool" where
  "vop_ok op st v st' v' \<longleftrightarrow>
     elems st' (v_datas v') = vop_spec op (elems st (v_datas v)) \<and> slice_wf st' (v_datas v') \<and>
     writes st (v_datas v) st' (v_datas v')"

lemma writes_refl: "writes st s st s"
  by (simp add: writes_def)

lemma put_same:
  assumes "slice_wf st s" and "length xs = sl_len s"
  shows "elems (put st s xs) s = xs \<and> slice_wf (put st s xs) s \<and> writes st s (put st s xs) s"
proof -
  have "sl_len s \<le> sl_cap s" using assms(1) by (auto simp: slice_wf_def split: option.splits)
  then show ?thesis using put_ok[OF assms(1), of "sl_len s" xs] assms(2) by simp
qed

lemma vop_run_ok:
  assumes wf: "slice_wf st (v_datas v)" and r: "vop_run grow z op (st, v) = (st', v')"
  shows "vop_ok op st v st' v'"
proof -
  note len = length_elems[OF wf]
  have cap: "sl_len (v_datas v) \<le> sl_cap (v_datas v)"
    using wf by (auto simp: slice_wf_def split: option.splits)
  show ?thesis
  proof (cases op)
    case (VAppend xs)
    then show ?thesis using r s_append_ok[OF wf]
      by (auto simp: vop_ok_def Vector_Append_def split: prod.splits)
  next
    case (VInsert i xs)
    then show ?thesis using r s_insert_ok[OF wf, of "nat i" grow z xs] len wf
      by (auto simp: vop_ok_def Vector_Insert_def writes_refl split: prod.splits if_splits)
  next
    case (VRemove i)
    then show ?thesis using r s_delete_ok[OF wf, of "nat i" "nat (i + 1)" z] len wf
      by (auto simp: vop_ok_def Vector_Remove_def writes_refl nat_add_distrib split: prod.splits if_splits)
  next
    case (VRemoveRange i j)
    then show ?thesis using r s_delete_ok[OF wf, of "nat i" "nat j" z] len wf
      by (auto simp: vop_ok_def Vector_RemoveRange_def writes_refl split: prod.splits if_splits)
  next
    case (VRemoveFast i)
    let ?s = "v_datas v"
    let ?xs = "(elems st ?s)[nat i := elems st ?s ! (sl_len ?s - 1)]"
    show ?thesis
    proof (cases "i < 0 \<or> int (sl_len ?s) \<le> i")
      case True
      then show ?thesis using VRemoveFast r len wf
        by (auto simp: vop_ok_def Vector_RemoveFast_def writes_refl)
    next
      case False
      then have ne: "elems st ?s \<noteq> []" using len by auto
      have "take (sl_len ?s - 1) ?xs = butlast ?xs" using len by (simp add: butlast_conv_take)
      moreover have "?xs = (elems st ?s)[nat i := last (elems st ?s)]"
        using ne len by (simp add: last_conv_nth)
      ultimately show ?thesis
        using VRemoveFast r False len cap put_ok[OF wf, of "sl_len ?s - 1" ?xs]
        by (auto simp: vop_ok_def Vector_RemoveFast_def Let_def)
    qed
  next
    case (VSet i x)
    then show ?thesis using r len wf put_same[OF wf, of "(elems st (v_datas v))[nat i := x]"]
      by (auto simp: vop_ok_def Vector_Set_def SliceSet_def writes_refl split: if_splits)
  next
    case VClear
    then show ?thesis using r wf
      by (auto simp: vop_ok_def Vector_Clear_def elems_def slice_wf_def writes_def split: option.splits)
  next
    case VReverse
    then show ?thesis using r len put_same[OF wf, of "rev (elems st (v_datas v))"]
      by (auto simp: vop_ok_def Vector_Reverse_def)
  next
    case (VSortStable cmp)
    then show ?thesis using r len put_same[OF wf, of "stable_sort cmp (elems st (v_datas v))"]
      by (auto simp: vop_ok_def Vector_SortStableFunc_def length_stable_sort)
  qed
qed

lemma vops_ok:
  "slice_wf st (v_datas v) \<Longrightarrow> fold (vop_run grow z) ops (st, v) = (st', v') \<Longrightarrow>
     elems st' (v_datas v') = fold vop_spec ops (elems st (v_datas v)) \<and> slice_wf st' (v_datas v') \<and>
     writes st (v_datas v) st' (v_datas v')"
proof (induction ops arbitrary: st v)
  case Nil
  then show ?case by (simp add: writes_refl)
next
  case (Cons op ops)
  obtain st1 v1 where s1: "vop_run grow z op (st, v) = (st1, v1)" by (cases "vop_run grow z op (st, v)")
  have ok: "vop_ok op st v st1 v1" by (rule vop_run_ok[OF Cons.prems(1) s1])
  then have "elems st' (v_datas v') = fold vop_spec ops (elems st1 (v_datas v1)) \<and> slice_wf st' (v_datas v') \<and>
     writes st1 (v_datas v1) st' (v_datas v')"
    using Cons s1 by (intro Cons.IH) (auto simp: vop_ok_def)
  then show ?case using ok by (auto simp: vop_ok_def intro: writes_trans)
qed

text \<open>C9: any sequence of operations on a vector does to its elements what the list operations do,
  out of range included, whether the store is written in place or a new array is allocated, and a
  slice of another array never sees any of it.\<close>

theorem Vector_refines_list:
  assumes "slice_wf st (v_datas v)" and "fold (vop_run grow z) ops (st, v) = (st', v')"
  shows "elems st' (v_datas v') = fold vop_spec ops (elems st (v_datas v)) \<and>
    (\<forall>t. slice_wf st t \<and> sl_arr t \<noteq> sl_arr (v_datas v) \<longrightarrow> elems st' t = elems st t)"
  using vops_ok[OF assms] writes_other by blast

theorem Vector_refines_list_witness:
  "case fold (vop_run (\<lambda>_ n. 2 * n) 0) [VAppend [1, 2, 3], VInsert 1 [9], VRemoveFast 0]
      ([], \<lparr>v_datas = nil_slice\<rparr>) of
     (st', v') \<Rightarrow> elems st' (v_datas v') = [3, 9, 2 :: nat]"
proof -
  obtain st' v' where r: "fold (vop_run (\<lambda>_ n. 2 * n) (0 :: nat)) [VAppend [1, 2, 3], VInsert 1 [9], VRemoveFast 0]
      ([], \<lparr>v_datas = nil_slice\<rparr>) = (st', v')" by fastforce
  show ?thesis
    unfolding r using Vector_refines_list[OF _ r]
    by (simp add: slice_wf_def nil_slice_def elems_def)
qed

text \<open>C34: a clone has the elements of the vector, and no later operation on either of the two changes
  the other.\<close>

theorem Vector_Clone_independent:
  assumes "slice_wf st (v_datas v)" and "Vector_Clone grow z st v = (st1, c)"
  shows "elems st1 (v_datas c) = elems st (v_datas v) \<and> elems st1 (v_datas v) = elems st (v_datas v) \<and>
    (\<forall>st' w. fold (vop_run grow z) ops (st1, c) = (st', w) \<longrightarrow> elems st' (v_datas v) = elems st (v_datas v)) \<and>
    (\<forall>st' w. fold (vop_run grow z) ops (st1, v) = (st', w) \<longrightarrow> elems st' (v_datas c) = elems st (v_datas v))"
proof -
  have cl: "s_clone grow z st (v_datas v) = (st1, v_datas c)"
    using assms(2) by (auto simp: Vector_Clone_def split: prod.splits)
  note ok = s_clone_ok[OF assms(1) cl]
  have v1: "elems st1 (v_datas v) = elems st (v_datas v)" "slice_wf st1 (v_datas v)"
    using ok assms(1) writes_other[of st nil_slice st1 "v_datas c" "v_datas v"]
    by (cases "sl_arr (v_datas v)"; simp add: nil_slice_def)+
  have diff: "sl_arr (v_datas c) = None \<or> sl_arr (v_datas c) \<noteq> sl_arr (v_datas v)"
    using ok assms(1) by (cases "sl_arr (v_datas c)"; cases "sl_arr (v_datas v)") (auto simp: slice_wf_def)
  have none: "elems st' s = []" if "sl_arr s = None" for st' :: "'a store" and s
    using that by (simp add: elems_def)
  have "elems st' (v_datas v) = elems st1 (v_datas v)"
    if "fold (vop_run grow z) ops (st1, c) = (st', w)" for st' w
    using vops_ok[OF _ that] writes_other[of st1 "v_datas c" st' "v_datas w" "v_datas v"] v1(2) ok diff none
    by (metis (no_types))
  moreover have "elems st' (v_datas c) = elems st1 (v_datas c)"
    if "fold (vop_run grow z) ops (st1, v) = (st', w)" for st' w
    using vops_ok[OF v1(2) that] writes_other[of st1 "v_datas v" st' "v_datas w" "v_datas c"] ok diff by blast
  ultimately show ?thesis using ok v1 by simp
qed

theorem Vector_Clone_independent_witness:
  "case Vector_Clone (\<lambda>_ n. n) 0 [[1, 2 :: nat]] \<lparr>v_datas = \<lparr>sl_arr = Some 0, sl_len = 2, sl_cap = 2\<rparr>\<rparr> of
     (st1, c) \<Rightarrow> elems st1 (v_datas c) = [1, 2] \<and>
       elems (fst (fold (vop_run (\<lambda>_ n. n) 0) [VSet 0 7] (st1, c))) \<lparr>sl_arr = Some 0, sl_len = 2, sl_cap = 2\<rparr> = [1, 2]"
proof -
  let ?v = "\<lparr>v_datas = \<lparr>sl_arr = Some 0, sl_len = 2, sl_cap = 2\<rparr>\<rparr>"
  obtain st1 c where r: "Vector_Clone (\<lambda>_ n. n) 0 [[1, 2 :: nat]] ?v = (st1, c)" by fastforce
  obtain st' w where f: "fold (vop_run (\<lambda>_ n. n) 0) [VSet 0 7] (st1, c) = (st', w)" by fastforce
  have wf: "slice_wf [[1, 2 :: nat]] (v_datas ?v)" by (simp add: slice_wf_def)
  have e: "elems [[1, 2 :: nat]] (v_datas ?v) = [1, 2]" by (simp add: elems_def)
  show ?thesis using Vector_Clone_independent[OF wf r, of "[VSet 0 7]"] e
    unfolding r prod.case f by (simp add: f)
qed

end
