(* ===== verification/Threads.thy ===== *)
theory Threads
  imports Prelude
begin

section \<open>Goroutines on a shared state\<close>

text \<open>
  The concurrent components share one frame. A goroutine works off a list of calls; the call it is in
  has a program counter, and one step of it is one atomic access of the shared state: a lock or unlock,
  a read, a write, an atomic operation. \<open>body g c p\<close> is the step of the call \<open>c\<close> at the point \<open>p\<close>:
  \<open>None\<close> where it blocks, otherwise the new state and the next point or the result. Any goroutine
  that is not blocked may take the next step.
\<close>

record ('c, 'p, 'r) thread =
  th_todo :: "'c list"
  th_cur :: "('c \<times> 'p) option"
  th_done :: "('c \<times> 'r) list"

definition thread_start :: "'c list \<Rightarrow> ('c, 'p, 'r) thread" where
  "thread_start cs = \<lparr>th_todo = cs, th_cur = None, th_done = []\<rparr>"

definition finished :: "('c, 'p, 'r) thread \<Rightarrow> bool" where
  "finished t \<longleftrightarrow> th_todo t = [] \<and> th_cur t = None"

type_synonym ('g, 'c, 'p, 'r) body = "'g \<Rightarrow> 'c \<Rightarrow> 'p \<Rightarrow> ('g \<times> ('p + 'r)) option"

fun thread_step :: "('c \<Rightarrow> 'p) \<Rightarrow> ('g, 'c, 'p, 'r) body \<Rightarrow> 'g \<Rightarrow> ('c, 'p, 'r) thread \<Rightarrow>
    ('g \<times> ('c, 'p, 'r) thread) option" where
  "thread_step enter body g t =
     (case th_cur t of
        None \<Rightarrow>
          (case th_todo t of
             [] \<Rightarrow> None
           | c # cs \<Rightarrow> Some (g, t\<lparr>th_todo := cs, th_cur := Some (c, enter c)\<rparr>))
      | Some (c, p) \<Rightarrow>
          (case body g c p of
             None \<Rightarrow> None
           | Some (g', Inl p') \<Rightarrow> Some (g', t\<lparr>th_cur := Some (c, p')\<rparr>)
           | Some (g', Inr r) \<Rightarrow> Some (g', t\<lparr>th_cur := None, th_done := th_done t @ [(c, r)]\<rparr>)))"

inductive pool_step :: "('c \<Rightarrow> 'p) \<Rightarrow> ('g, 'c, 'p, 'r) body \<Rightarrow>
    'g \<times> ('c, 'p, 'r) thread list \<Rightarrow> 'g \<times> ('c, 'p, 'r) thread list \<Rightarrow> bool"
  for enter body where
  step: "\<lbrakk> i < length ts; thread_step enter body g (ts ! i) = Some (g', t) \<rbrakk>
     \<Longrightarrow> pool_step enter body (g, ts) (g', ts[i := t])"

abbreviation pool_reach where
  "pool_reach enter body \<equiv> (pool_step enter body)\<^sup>*\<^sup>*"

text \<open>The run of one schedule, the goroutines named in order; a blocked one is skipped.\<close>

fun run_sched :: "('c \<Rightarrow> 'p) \<Rightarrow> ('g, 'c, 'p, 'r) body \<Rightarrow> nat list \<Rightarrow>
    'g \<times> ('c, 'p, 'r) thread list \<Rightarrow> 'g \<times> ('c, 'p, 'r) thread list" where
  "run_sched enter body [] s = s"
| "run_sched enter body (i # is) (g, ts) =
     (if i < length ts
      then (case thread_step enter body g (ts ! i) of
              None \<Rightarrow> run_sched enter body is (g, ts)
            | Some (g', t) \<Rightarrow> run_sched enter body is (g', ts[i := t]))
      else run_sched enter body is (g, ts))"

lemma run_sched_reach: "pool_reach enter body s (run_sched enter body sched s)"
proof (induction enter body sched s rule: run_sched.induct)
  case (2 enter body i "is" g ts)
  show ?case
  proof (cases "i < length ts")
    case True
    show ?thesis
    proof (cases "thread_step enter body g (ts ! i)")
      case None
      then show ?thesis using 2(1)[OF True None] True by simp
    next
      case (Some gt)
      obtain g' t where gt: "gt = (g', t)" by (cases gt)
      have "pool_step enter body (g, ts) (g', ts[i := t])"
        using True Some gt by (auto intro: pool_step.step)
      then show ?thesis using 2(2)[OF True Some gt[symmetric]] True Some gt
        by (auto intro: converse_rtranclp_into_rtranclp)
    qed
  next
    case False
    then show ?thesis using 2(3)[OF False] by simp
  qed
qed simp

text \<open>A goroutine that has work left and is not blocked can step.\<close>

lemma pool_can_step:
  assumes i: "i < length ts" and "\<not> finished (ts ! i)"
    and free: "\<And>c p. th_cur (ts ! i) = Some (c, p) \<Longrightarrow> body g c p \<noteq> None"
  shows "\<exists>g' ts'. pool_step enter body (g, ts) (g', ts')"
proof -
  have "thread_step enter body g (ts ! i) \<noteq> None"
    using assms(2) free
    by (auto simp: finished_def split: option.splits list.splits sum.splits)
  then obtain g' t where "thread_step enter body g (ts ! i) = Some (g', t)" by auto
  from pool_step.step[OF i this] show ?thesis by blast
qed

subsection \<open>Sums over the goroutines\<close>

definition tsum :: "('t \<Rightarrow> int) \<Rightarrow> 't list \<Rightarrow> int" where
  "tsum f ts = sum_list (map f ts)"

lemma tsum_update:
  "i < length ts \<Longrightarrow> tsum f (ts[i := t]) = tsum f ts - f (ts ! i) + f t"
  by (induction ts arbitrary: i) (auto simp: tsum_def split: nat.splits)

lemma tsum_nonneg: "(\<And>t. 0 \<le> f t) \<Longrightarrow> 0 \<le> tsum f ts"
  by (induction ts) (simp_all add: tsum_def)

lemma tsum_ge: "(\<And>t. 0 \<le> f t) \<Longrightarrow> i < length ts \<Longrightarrow> f (ts ! i) \<le> tsum f ts"
proof (induction ts arbitrary: i)
  case (Cons t ts)
  have "0 \<le> tsum f ts" using Cons.prems(1) by (rule tsum_nonneg)
  then show ?case using Cons by (cases i) (auto simp: tsum_def intro: add_increasing)
qed simp

lemma tsum_two:
  assumes "\<And>t. 0 \<le> f t" and "i < length ts" and "j < length ts" and "i \<noteq> j"
  shows "f (ts ! i) + f (ts ! j) \<le> tsum f ts"
proof -
  have eq: "tsum f ts = (\<Sum>k \<in> {0..<length ts}. f (ts ! k))"
    by (simp add: tsum_def sum_list_sum_nth)
  have "(\<Sum>k \<in> {i, j}. f (ts ! k)) \<le> (\<Sum>k \<in> {0..<length ts}. f (ts ! k))"
    using assms by (intro sum_mono2) auto
  then show ?thesis using eq assms(4) by simp
qed

lemma tsum_zero: "(\<And>t. t \<in> set ts \<Longrightarrow> f t = 0) \<Longrightarrow> tsum f ts = 0"
  by (induction ts) (simp_all add: tsum_def)

lemma distinct_if_count: "(\<And>k. count_list xs k \<le> 1) \<Longrightarrow> distinct xs"
proof (induction xs)
  case (Cons x xs)
  have "count_list xs k \<le> 1" for k using Cons.prems[of k] by (auto split: if_splits)
  moreover have "count_list xs x = 0" using Cons.prems[of x] by simp
  ultimately show ?case using Cons.IH by (simp add: count_list_0_iff)
qed simp

subsection \<open>Invariants of a pool\<close>

text \<open>
  A pool invariant is one that the start of a call, a step inside it and its return keep; it then
  holds in every state the pool can reach.
\<close>

locale pool_invariant =
  fixes enter :: "'c \<Rightarrow> 'p"
    and body :: "('g, 'c, 'p, 'r) body"
    and I :: "'g \<Rightarrow> ('c, 'p, 'r) thread list \<Rightarrow> bool"
  assumes start_call: "\<lbrakk> I g ts; i < length ts; th_cur (ts ! i) = None; th_todo (ts ! i) = c # cs \<rbrakk>
      \<Longrightarrow> I g (ts[i := (ts ! i)\<lparr>th_todo := cs, th_cur := Some (c, enter c)\<rparr>])"
    and go_on: "\<lbrakk> I g ts; i < length ts; th_cur (ts ! i) = Some (c, p); body g c p = Some (g', Inl p') \<rbrakk>
      \<Longrightarrow> I g' (ts[i := (ts ! i)\<lparr>th_cur := Some (c, p')\<rparr>])"
    and return: "\<lbrakk> I g ts; i < length ts; th_cur (ts ! i) = Some (c, p); body g c p = Some (g', Inr r) \<rbrakk>
      \<Longrightarrow> I g' (ts[i := (ts ! i)\<lparr>th_cur := None, th_done := th_done (ts ! i) @ [(c, r)]\<rparr>])"
begin

lemma step_I:
  assumes "pool_step enter body (g, ts) (g', ts')" and "I g ts"
  shows "I g' ts'"
  using assms
proof cases
  case (step i t)
  show ?thesis
  proof (cases "th_cur (ts ! i)")
    case None
    then show ?thesis using step assms(2) start_call[of g ts i]
      by (auto split: list.splits)
  next
    case (Some cp)
    obtain c p where "cp = (c, p)" by (cases cp)
    then show ?thesis using Some step assms(2) go_on[of g ts i c p] return[of g ts i c p]
      by (auto split: option.splits sum.splits)
  qed
qed

lemma reach_I:
  assumes "pool_reach enter body (g, ts) (g', ts')" and "I g ts"
  shows "I g' ts'"
proof -
  have "I (fst s') (snd s')" if "pool_reach enter body s s'" and "I (fst s) (snd s)" for s s'
    using that
  proof (induction rule: rtranclp_induct)
    case (step y z)
    then show ?case using step_I[of "fst y" "snd y" "fst z" "snd z"] by simp
  qed
  from this[OF assms(1)] assms(2) show ?thesis by simp
qed

end

text \<open>
  Termination under every scheduler: \<open>rank c p\<close> bounds the steps a call still takes, and every
  step inside a call lowers it. \<open>pool_work\<close> then bounds the steps of the whole pool.
\<close>

definition thread_work :: "('c \<Rightarrow> 'p) \<Rightarrow> ('c \<Rightarrow> 'p \<Rightarrow> nat) \<Rightarrow> ('c, 'p, 'r) thread \<Rightarrow> int" where
  "thread_work enter rank t =
     int (sum_list (map (\<lambda>c. Suc (Suc (rank c (enter c)))) (th_todo t)) +
       (case th_cur t of None \<Rightarrow> 0 | Some (c, p) \<Rightarrow> Suc (rank c p)))"

lemma thread_work_nonneg: "0 \<le> thread_work enter rank t"
  by (simp add: thread_work_def)

locale pool_terminates =
  fixes enter :: "'c \<Rightarrow> 'p"
    and body :: "('g, 'c, 'p, 'r) body"
    and rank :: "'c \<Rightarrow> 'p \<Rightarrow> nat"
  assumes rank_down: "body g c p = Some (g', Inl p') \<Longrightarrow> rank c p' < rank c p"
begin

lemma work_step:
  assumes "pool_step enter body (g, ts) (g', ts')"
  shows "tsum (thread_work enter rank) ts' < tsum (thread_work enter rank) ts"
  using assms
proof cases
  case (step i t)
  then have "thread_work enter rank t < thread_work enter rank (ts ! i)"
    using rank_down[of g _ _ g']
    by (auto simp: thread_work_def split: list.splits option.splits sum.splits prod.splits)
  then show ?thesis using step by (simp add: tsum_update)
qed

lemma steps_bounded:
  assumes "(pool_step enter body ^^ n) (g, ts) (g', ts')"
  shows "int n \<le> tsum (thread_work enter rank) ts"
proof -
  have "int n + tsum (thread_work enter rank) (snd s') \<le> tsum (thread_work enter rank) (snd s)"
    if "(pool_step enter body ^^ n) s s'" for s s'
    using that
  proof (induction n arbitrary: s')
    case (Suc n)
    then obtain y where "(pool_step enter body ^^ n) s y" and st: "pool_step enter body y s'" by auto
    then show ?case using Suc.IH[of y] work_step[of "fst y" "snd y" "fst s'" "snd s'"] by simp
  qed simp
  from this[OF assms] tsum_nonneg[of "thread_work enter rank" ts'] thread_work_nonneg
  show ?thesis by force
qed

end

end
