(* ===== verification/Sharded_Map.thy ===== *)
theory Sharded_Map
  imports Threads
begin

unbundle bit_operations_syntax

section \<open>shardedmap.ShardedMap\<close>

text \<open>
  \<open>rivetxcore/shardedmap/sharded_map.go\<close>: a set of 64-bit keys in a power of two of shards, each
  behind its read-write lock, with an atomic counter of the keys. \<open>int\<close> is 64 bits, as on every
  platform the repository builds for.
\<close>

subsection \<open>The number of shards\<close>

partial_function (option) nextPowerOfTwo_loop :: "64 word \<Rightarrow> 64 word \<Rightarrow> 64 word option" where
  "nextPowerOfTwo_loop p n = (if p <s n then nextPowerOfTwo_loop (push_bit 1 p) n else Some p)"

declare nextPowerOfTwo_loop.simps [code]

definition nextPowerOfTwo :: "64 word \<Rightarrow> 64 word option" where
  "nextPowerOfTwo n = (if n \<le>s 1 then Some 1 else nextPowerOfTwo_loop 1 n)"

subsection \<open>The map and its locks\<close>

text \<open>\<open>sync.RWMutex\<close>: any number of readers or one writer.\<close>

record RWMutex =
  rw_readers :: nat
  rw_writer :: bool

definition RLock :: "RWMutex \<Rightarrow> RWMutex option" where
  "RLock l = (if rw_writer l then None else Some (l\<lparr>rw_readers := Suc (rw_readers l)\<rparr>))"
definition RUnlock :: "RWMutex \<Rightarrow> RWMutex" where
  "RUnlock l = l\<lparr>rw_readers := rw_readers l - 1\<rparr>"
definition WLock :: "RWMutex \<Rightarrow> RWMutex option" where
  "WLock l = (if rw_writer l \<or> 0 < rw_readers l then None else Some (l\<lparr>rw_writer := True\<rparr>))"
definition WUnlock :: "RWMutex \<Rightarrow> RWMutex" where
  "WUnlock l = l\<lparr>rw_writer := False\<rparr>"

record ShardedMap =
  sm_mask :: "64 word"
  sm_locks :: "RWMutex list"
  sm_maps :: "64 word set list"
  sm_size :: "64 word"

definition NewShardedMap :: "64 word \<Rightarrow> ShardedMap option" where
  "NewShardedMap size_arg =
     (case nextPowerOfTwo size_arg of
        None \<Rightarrow> None
      | Some actualSize \<Rightarrow>
          Some \<lparr>sm_mask = actualSize - 1,
            sm_locks = replicate (unat actualSize) \<lparr>rw_readers = 0, rw_writer = False\<rparr>,
            sm_maps = replicate (unat actualSize) {}, sm_size = 0\<rparr>)"

definition getShard :: "ShardedMap \<Rightarrow> 64 word \<Rightarrow> int" where
  "getShard s key = sint (key AND sm_mask s)"

subsection \<open>The operations, one atomic step at a time\<close>

datatype sm_call = Load "64 word" | LoadOrStore "64 word" | LoadAndDelete "64 word" | Size

datatype sm_pc =
    At_rlock | At_read | At_runlock bool
  | At_lock | At_check | At_write | At_count | At_unlock bool
  | At_size

datatype sm_ret = RBool bool | RInt "64 word" | RPanic go_panic

text \<open>The index of the shard is the index of every access: outside the slices it panics.\<close>

definition with_shard ::
  "ShardedMap \<Rightarrow> 64 word \<Rightarrow> (nat \<Rightarrow> (ShardedMap \<times> (sm_pc + sm_ret)) option) \<Rightarrow>
     (ShardedMap \<times> (sm_pc + sm_ret)) option" where
  "with_shard s key f =
     (let idx = getShard s key
      in if idx < 0 \<or> int (length (sm_locks s)) \<le> idx \<or> int (length (sm_maps s)) \<le> idx
         then Some (s, Inr (RPanic IndexRange))
         else f (nat idx))"

definition set_lock :: "ShardedMap \<Rightarrow> nat \<Rightarrow> RWMutex \<Rightarrow> ShardedMap" where
  "set_lock s idx l = s\<lparr>sm_locks := (sm_locks s)[idx := l]\<rparr>"

definition ShardedMap_Load :: "ShardedMap \<Rightarrow> 64 word \<Rightarrow> sm_pc \<Rightarrow> (ShardedMap \<times> (sm_pc + sm_ret)) option" where
  "ShardedMap_Load s key p =
     with_shard s key (\<lambda>idx.
       case p of
         At_rlock \<Rightarrow> map_option (\<lambda>l. (set_lock s idx l, Inl At_read)) (RLock (sm_locks s ! idx))
       | At_read \<Rightarrow> Some (s, Inl (At_runlock (key \<in> sm_maps s ! idx)))
       | At_runlock ok \<Rightarrow> Some (set_lock s idx (RUnlock (sm_locks s ! idx)), Inr (RBool ok))
       | _ \<Rightarrow> None)"

definition ShardedMap_LoadOrStore ::
  "ShardedMap \<Rightarrow> 64 word \<Rightarrow> sm_pc \<Rightarrow> (ShardedMap \<times> (sm_pc + sm_ret)) option" where
  "ShardedMap_LoadOrStore s key p =
     with_shard s key (\<lambda>idx.
       case p of
         At_rlock \<Rightarrow> map_option (\<lambda>l. (set_lock s idx l, Inl At_read)) (RLock (sm_locks s ! idx))
       | At_read \<Rightarrow> Some (s, Inl (At_runlock (key \<in> sm_maps s ! idx)))
       | At_runlock ok \<Rightarrow>
           Some (set_lock s idx (RUnlock (sm_locks s ! idx)), if ok then Inr (RBool True) else Inl At_lock)
       | At_lock \<Rightarrow> map_option (\<lambda>l. (set_lock s idx l, Inl At_check)) (WLock (sm_locks s ! idx))
       | At_check \<Rightarrow> Some (s, Inl (if key \<in> sm_maps s ! idx then At_unlock True else At_write))
       | At_write \<Rightarrow>
           Some (s\<lparr>sm_maps := (sm_maps s)[idx := insert key (sm_maps s ! idx)]\<rparr>, Inl At_count)
       | At_count \<Rightarrow> Some (s\<lparr>sm_size := sm_size s + 1\<rparr>, Inl (At_unlock False))
       | At_unlock ok \<Rightarrow> Some (set_lock s idx (WUnlock (sm_locks s ! idx)), Inr (RBool ok))
       | _ \<Rightarrow> None)"

definition ShardedMap_LoadAndDelete ::
  "ShardedMap \<Rightarrow> 64 word \<Rightarrow> sm_pc \<Rightarrow> (ShardedMap \<times> (sm_pc + sm_ret)) option" where
  "ShardedMap_LoadAndDelete s key p =
     with_shard s key (\<lambda>idx.
       case p of
         At_rlock \<Rightarrow> map_option (\<lambda>l. (set_lock s idx l, Inl At_read)) (RLock (sm_locks s ! idx))
       | At_read \<Rightarrow> Some (s, Inl (At_runlock (key \<in> sm_maps s ! idx)))
       | At_runlock ok \<Rightarrow>
           Some (set_lock s idx (RUnlock (sm_locks s ! idx)), if ok then Inl At_lock else Inr (RBool False))
       | At_lock \<Rightarrow> map_option (\<lambda>l. (set_lock s idx l, Inl At_check)) (WLock (sm_locks s ! idx))
       | At_check \<Rightarrow> Some (s, Inl (if key \<in> sm_maps s ! idx then At_write else At_unlock False))
       | At_write \<Rightarrow> Some (s\<lparr>sm_maps := (sm_maps s)[idx := sm_maps s ! idx - {key}]\<rparr>, Inl At_count)
       | At_count \<Rightarrow> Some (s\<lparr>sm_size := sm_size s - 1\<rparr>, Inl (At_unlock True))
       | At_unlock ok \<Rightarrow> Some (set_lock s idx (WUnlock (sm_locks s ! idx)), Inr (RBool ok))
       | _ \<Rightarrow> None)"

definition ShardedMap_Size :: "ShardedMap \<Rightarrow> sm_pc \<Rightarrow> (ShardedMap \<times> (sm_pc + sm_ret)) option" where
  "ShardedMap_Size s p = (case p of At_size \<Rightarrow> Some (s, Inr (RInt (sm_size s))) | _ \<Rightarrow> None)"

fun sm_enter :: "sm_call \<Rightarrow> sm_pc" where
  "sm_enter Size = At_size"
| "sm_enter _ = At_rlock"

fun sm_body :: "(ShardedMap, sm_call, sm_pc, sm_ret) body" where
  "sm_body s (Load k) p = ShardedMap_Load s k p"
| "sm_body s (LoadOrStore k) p = ShardedMap_LoadOrStore s k p"
| "sm_body s (LoadAndDelete k) p = ShardedMap_LoadAndDelete s k p"
| "sm_body s Size p = ShardedMap_Size s p"

end
