(* ===== verification/Sharded_Map_Spec.thy ===== *)
theory Sharded_Map_Spec
  imports Sharded_Map
begin

unbundle bit_operations_syntax

section \<open>The sharded map under every interleaving\<close>

text \<open>
  The invariant of a map shared by goroutines: what each lock counts, what a goroutine inside its
  write section knows, the balance of stores and deletes of every key, and the counter.
\<close>

subsection \<open>Contributions of a goroutine\<close>

fun sm_key :: "sm_call \<Rightarrow> 64 word option" where
  "sm_key (Load k) = Some k"
| "sm_key (LoadOrStore k) = Some k"
| "sm_key (LoadAndDelete k) = Some k"
| "sm_key Size = None"

definition shard_of :: "64 word \<Rightarrow> 64 word \<Rightarrow> nat" where
  "shard_of m k = nat (sint (k AND m))"

fun in_read :: "sm_pc \<Rightarrow> bool" where
  "in_read At_read = True"
| "in_read (At_runlock _) = True"
| "in_read _ = False"

fun in_write :: "sm_pc \<Rightarrow> bool" where
  "in_write At_check = True"
| "in_write At_write = True"
| "in_write At_count = True"
| "in_write (At_unlock _) = True"
| "in_write _ = False"

type_synonym sm_thread = "(sm_call, sm_pc, sm_ret) thread"

definition at_shard :: "64 word \<Rightarrow> nat \<Rightarrow> sm_call \<Rightarrow> bool" where
  "at_shard m j c = (case sm_key c of None \<Rightarrow> False | Some k \<Rightarrow> shard_of m k = j)"

definition reading :: "64 word \<Rightarrow> nat \<Rightarrow> sm_thread \<Rightarrow> int" where
  "reading m j t =
     (case th_cur t of None \<Rightarrow> 0 | Some (c, p) \<Rightarrow> if at_shard m j c \<and> in_read p then 1 else 0)"

definition writing :: "64 word \<Rightarrow> nat \<Rightarrow> sm_thread \<Rightarrow> int" where
  "writing m j t =
     (case th_cur t of None \<Rightarrow> 0 | Some (c, p) \<Rightarrow> if at_shard m j c \<and> in_write p then 1 else 0)"

definition pend :: "sm_call \<Rightarrow> bool \<Rightarrow> sm_thread \<Rightarrow> int" where
  "pend c ok t = (if th_cur t = Some (c, At_count) \<or> th_cur t = Some (c, At_unlock ok) then 1 else 0)"

definition returned :: "sm_call \<Rightarrow> bool \<Rightarrow> sm_thread \<Rightarrow> int" where
  "returned c ok t = int (count_list (th_done t) (c, RBool ok))"

definition stored :: "64 word \<Rightarrow> sm_thread \<Rightarrow> int" where
  "stored k t = returned (LoadOrStore k) False t + pend (LoadOrStore k) False t"

definition deleted :: "64 word \<Rightarrow> sm_thread \<Rightarrow> int" where
  "deleted k t = returned (LoadAndDelete k) True t + pend (LoadAndDelete k) True t"

definition uncounted :: "sm_thread \<Rightarrow> int" where
  "uncounted t =
     (case th_cur t of
        Some (LoadOrStore k, At_count) \<Rightarrow> - 1
      | Some (LoadAndDelete k, At_count) \<Rightarrow> 1
      | _ \<Rightarrow> 0)"

subsection \<open>The invariant\<close>

definition shape :: "64 word \<Rightarrow> nat \<Rightarrow> ShardedMap \<Rightarrow> bool" where
  "shape m n s \<longleftrightarrow>
     sm_mask s = m \<and> length (sm_locks s) = n \<and> length (sm_maps s) = n \<and>
     (\<forall>k. 0 \<le> sint (k AND m) \<and> sint (k AND m) < int n)"

definition locks_ok :: "64 word \<Rightarrow> nat \<Rightarrow> ShardedMap \<Rightarrow> sm_thread list \<Rightarrow> bool" where
  "locks_ok m n s ts \<longleftrightarrow>
     (\<forall>j<n. let l = sm_locks s ! j in
        int (rw_readers l) = tsum (reading m j) ts \<and>
        tsum (writing m j) ts = (if rw_writer l then 1 else 0) \<and>
        (rw_writer l \<longrightarrow> rw_readers l = 0))"

fun sm_typed :: "sm_call \<Rightarrow> sm_pc \<Rightarrow> bool" where
  "sm_typed Size p = (p = At_size)"
| "sm_typed (Load k) p = (p = At_rlock \<or> in_read p)"
| "sm_typed _ p = (p \<noteq> At_size)"

fun sm_knows :: "64 word \<Rightarrow> ShardedMap \<Rightarrow> sm_call \<Rightarrow> sm_pc \<Rightarrow> bool" where
  "sm_knows m s (LoadOrStore k) At_write = (k \<notin> sm_maps s ! shard_of m k)"
| "sm_knows m s (LoadAndDelete k) At_write = (k \<in> sm_maps s ! shard_of m k)"
| "sm_knows m s _ _ = True"

definition threads_ok :: "64 word \<Rightarrow> ShardedMap \<Rightarrow> sm_thread list \<Rightarrow> bool" where
  "threads_ok m s ts \<longleftrightarrow>
     (\<forall>i<length ts. \<forall>c p. th_cur (ts ! i) = Some (c, p) \<longrightarrow> sm_typed c p \<and> sm_knows m s c p) \<and>
     (\<forall>i<length ts. \<forall>(c, r) \<in> set (th_done (ts ! i)). \<forall>e. r \<noteq> RPanic e)"

definition history_ok :: "64 word \<Rightarrow> ShardedMap \<Rightarrow> sm_thread list \<Rightarrow> bool" where
  "history_ok m s ts \<longleftrightarrow>
     (\<forall>k. tsum (stored k) ts = tsum (deleted k) ts + (if k \<in> sm_maps s ! shard_of m k then 1 else 0))"

definition maps_ok :: "64 word \<Rightarrow> nat \<Rightarrow> ShardedMap \<Rightarrow> bool" where
  "maps_ok m n s \<longleftrightarrow> (\<forall>j<n. \<forall>k \<in> sm_maps s ! j. shard_of m k = j)"

definition key_count :: "ShardedMap \<Rightarrow> int" where
  "key_count s = sum_list (map (\<lambda>M. int (card M)) (sm_maps s))"

definition size_ok :: "ShardedMap \<Rightarrow> sm_thread list \<Rightarrow> bool" where
  "size_ok s ts \<longleftrightarrow> sm_size s = word_of_int (key_count s + tsum uncounted ts)"

definition sm_inv :: "64 word \<Rightarrow> nat \<Rightarrow> ShardedMap \<Rightarrow> sm_thread list \<Rightarrow> bool" where
  "sm_inv m n s ts \<longleftrightarrow>
     shape m n s \<and> locks_ok m n s ts \<and> threads_ok m s ts \<and> history_ok m s ts \<and> maps_ok m n s \<and> size_ok s ts"

subsection \<open>Steps\<close>

text \<open>Inside the slices, a step is the one of the operation.\<close>

lemma with_shard_in:
  assumes "shape m n s"
  shows "with_shard s k f = f (shard_of m k)"
proof -
  have "0 \<le> sint (k AND m)" "sint (k AND m) < int n" "sm_mask s = m" "length (sm_locks s) = n" "length (sm_maps s) = n"
    using assms by (simp_all add: shape_def)
  then show ?thesis by (simp add: with_shard_def getShard_def shard_of_def Let_def)
qed

lemma shard_of_less: "shape m n s \<Longrightarrow> shard_of m k < n"
  by (auto simp: shape_def shard_of_def nat_less_iff)

text \<open>The transitions, each with its effect on the map.\<close>

inductive sm_trans :: "64 word \<Rightarrow> ShardedMap \<Rightarrow> sm_call \<Rightarrow> sm_pc \<Rightarrow> ShardedMap \<Rightarrow> sm_pc + sm_ret \<Rightarrow> bool"
  for m s where
  rlock: "\<lbrakk> sm_key c = Some k; j = shard_of m k; \<not> rw_writer (sm_locks s ! j);
            l = (sm_locks s ! j)\<lparr>rw_readers := Suc (rw_readers (sm_locks s ! j))\<rparr> \<rbrakk>
     \<Longrightarrow> sm_trans m s c At_rlock (set_lock s j l) (Inl At_read)"
| read: "\<lbrakk> sm_key c = Some k; ok = (k \<in> sm_maps s ! shard_of m k) \<rbrakk>
     \<Longrightarrow> sm_trans m s c At_read s (Inl (At_runlock ok))"
| runlock: "\<lbrakk> sm_key c = Some k; j = shard_of m k; l = (sm_locks s ! j)\<lparr>rw_readers := rw_readers (sm_locks s ! j) - 1\<rparr>;
              x = Inl At_lock \<and> (\<forall>k'. c \<noteq> Load k') \<or> (\<exists>ok'. x = Inr (RBool ok') \<and> (\<forall>k'. c = LoadOrStore k' \<longrightarrow> ok') \<and>
                 (\<forall>k'. c = LoadAndDelete k' \<longrightarrow> \<not> ok')) \<rbrakk>
     \<Longrightarrow> sm_trans m s c (At_runlock ok) (set_lock s j l) x"
| wlock: "\<lbrakk> c = LoadOrStore k \<or> c = LoadAndDelete k; j = shard_of m k; \<not> rw_writer (sm_locks s ! j);
            rw_readers (sm_locks s ! j) = 0; l = (sm_locks s ! j)\<lparr>rw_writer := True\<rparr> \<rbrakk>
     \<Longrightarrow> sm_trans m s c At_lock (set_lock s j l) (Inl At_check)"
| check_write: "\<lbrakk> c = LoadOrStore k \<and> k \<notin> sm_maps s ! shard_of m k \<or> c = LoadAndDelete k \<and> k \<in> sm_maps s ! shard_of m k \<rbrakk>
     \<Longrightarrow> sm_trans m s c At_check s (Inl At_write)"
| check_done: "\<lbrakk> c = LoadOrStore k \<and> ok \<or> c = LoadAndDelete k \<and> \<not> ok \<rbrakk>
     \<Longrightarrow> sm_trans m s c At_check s (Inl (At_unlock ok))"
| insert: "\<lbrakk> j = shard_of m k \<rbrakk>
     \<Longrightarrow> sm_trans m s (LoadOrStore k) At_write (s\<lparr>sm_maps := (sm_maps s)[j := insert k (sm_maps s ! j)]\<rparr>) (Inl At_count)"
| delete: "\<lbrakk> j = shard_of m k \<rbrakk>
     \<Longrightarrow> sm_trans m s (LoadAndDelete k) At_write (s\<lparr>sm_maps := (sm_maps s)[j := sm_maps s ! j - {k}]\<rparr>) (Inl At_count)"
| plus: "sm_trans m s (LoadOrStore k) At_count (s\<lparr>sm_size := sm_size s + 1\<rparr>) (Inl (At_unlock False))"
| minus: "sm_trans m s (LoadAndDelete k) At_count (s\<lparr>sm_size := sm_size s - 1\<rparr>) (Inl (At_unlock True))"
| wunlock: "\<lbrakk> c = LoadOrStore k \<or> c = LoadAndDelete k; j = shard_of m k; l = (sm_locks s ! j)\<lparr>rw_writer := False\<rparr> \<rbrakk>
     \<Longrightarrow> sm_trans m s c (At_unlock ok) (set_lock s j l) (Inr (RBool ok))"
| load_size: "sm_trans m s Size At_size s (Inr (RInt (sm_size s)))"

lemmas sm_ops = ShardedMap_Load_def ShardedMap_LoadOrStore_def ShardedMap_LoadAndDelete_def ShardedMap_Size_def
  RLock_def RUnlock_def WLock_def WUnlock_def

lemma body_trans:
  assumes "shape m n s" and "sm_body s c p = Some (s', x)"
  shows "sm_trans m s c p s' x"
  using assms(2)
  by (cases c; cases p)
    (auto simp: sm_ops with_shard_in[OF assms(1)] split: if_splits intro!: sm_trans.intros)


lemmas tsum_facts = tsum_update reading_def writing_def

lemma reading_nonneg: "0 \<le> reading m j t"
  by (simp add: reading_def split: option.splits)

lemma writing_nonneg: "0 \<le> writing m j t"
  by (simp add: writing_def split: option.splits)

text \<open>What the locks say of a goroutine inside a section.\<close>

lemma reader_counted:
  assumes "locks_ok m n s ts" and "shape m n s" and "i < length ts"
    and "th_cur (ts ! i) = Some (c, p)" and "sm_key c = Some k" and "in_read p"
  shows "0 < rw_readers (sm_locks s ! shard_of m k) \<and> \<not> rw_writer (sm_locks s ! shard_of m k)"
proof -
  have "reading m (shard_of m k) (ts ! i) \<le> tsum (reading m (shard_of m k)) ts"
    by (rule tsum_ge[OF reading_nonneg assms(3)])
  then show ?thesis
    using assms shard_of_less[OF assms(2), of k] by (auto simp: locks_ok_def Let_def reading_def at_shard_def)
qed

lemma writer_alone:
  assumes "locks_ok m n s ts" and "shape m n s" and "i < length ts"
    and "th_cur (ts ! i) = Some (c, p)" and "sm_key c = Some k" and "in_write p"
  shows "rw_writer (sm_locks s ! shard_of m k) \<and>
    (\<forall>i'<length ts. i' \<noteq> i \<longrightarrow> writing m (shard_of m k) (ts ! i') = 0)"
proof -
  let ?w = "writing m (shard_of m k)"
  have one: "?w (ts ! i) = 1" using assms(4-6) by (simp add: writing_def at_shard_def)
  have "?w (ts ! i) \<le> tsum ?w ts" by (rule tsum_ge[OF writing_nonneg assms(3)])
  moreover have sum: "tsum ?w ts = (if rw_writer (sm_locks s ! shard_of m k) then 1 else 0)"
    using assms(1) shard_of_less[OF assms(2), of k] by (simp add: locks_ok_def Let_def)
  ultimately have w: "rw_writer (sm_locks s ! shard_of m k)" using one by (auto split: if_splits)
  have "?w (ts ! i') = 0" if "i' < length ts" "i' \<noteq> i" for i'
  proof -
    have "?w (ts ! i') + ?w (ts ! i) \<le> tsum ?w ts"
      by (rule tsum_two[OF writing_nonneg that(1) assms(3) that(2)])
    then show ?thesis using writing_nonneg[of m "shard_of m k" "ts ! i'"] one sum w by simp
  qed
  then show ?thesis using w by blast
qed

lemma shape_trans: "sm_trans m s c p s' x \<Longrightarrow> shape m n s \<Longrightarrow> shape m n s'"
  by (induction rule: sm_trans.induct) (simp_all add: shape_def set_lock_def)

text \<open>The thread after a step; \<open>None\<close> where the call returned.\<close>

definition th_after :: "sm_thread \<Rightarrow> sm_call \<Rightarrow> sm_pc + sm_ret \<Rightarrow> sm_thread" where
  "th_after t c x =
     (case x of
        Inl p' \<Rightarrow> t\<lparr>th_cur := Some (c, p')\<rparr>
      | Inr r \<Rightarrow> t\<lparr>th_cur := None, th_done := th_done t @ [(c, r)]\<rparr>)"

lemma locks_trans:
  assumes tr: "sm_trans m s c p s' x" and sh: "shape m n s" and lk: "locks_ok m n s ts"
    and i: "i < length ts" and cur: "th_cur (ts ! i) = Some (c, p)"
  shows "locks_ok m n s' (ts[i := th_after (ts ! i) c x])"
proof -
  note rd = reader_counted[OF lk sh i cur]
  note wr = writer_alone[OF lk sh i cur]
  have len: "length (sm_locks s) = n" using sh by (simp add: shape_def)
  show ?thesis
    using tr lk cur rd wr
    by cases (auto simp: locks_ok_def Let_def tsum_update[OF i] reading_def writing_def at_shard_def th_after_def
        set_lock_def nth_list_update len)
qed

text \<open>Only the write of a call changes the balance of a key, and it changes the map alike.\<close>

lemma stored_trans:
  assumes "sm_trans m s c p s' x" and "th_cur t = Some (c, p)"
  shows "stored k (th_after t c x) = stored k t + (if c = LoadOrStore k \<and> p = At_write then 1 else 0)"
  using assms by cases (auto simp: stored_def returned_def pend_def th_after_def)

lemma deleted_trans:
  assumes "sm_trans m s c p s' x" and "th_cur t = Some (c, p)"
  shows "deleted k (th_after t c x) = deleted k t + (if c = LoadAndDelete k \<and> p = At_write then 1 else 0)"
  using assms by cases (auto simp: deleted_def returned_def pend_def th_after_def)

lemma maps_trans:
  assumes "sm_trans m s c p s' x" and "shape m n s"
  shows "k \<in> sm_maps s' ! shard_of m k \<longleftrightarrow>
    (if p = At_write \<and> c = LoadOrStore k then True
     else if p = At_write \<and> c = LoadAndDelete k then False
     else k \<in> sm_maps s ! shard_of m k)"
proof -
  have len: "length (sm_maps s) = n" using assms(2) by (simp add: shape_def)
  show ?thesis using assms(1) shard_of_less[OF assms(2)]
    by cases (auto simp: set_lock_def nth_list_update len)
qed

lemma history_trans:
  assumes tr: "sm_trans m s c p s' x" and sh: "shape m n s"
    and kn: "sm_knows m s c p" and h: "history_ok m s ts"
    and i: "i < length ts" and cur: "th_cur (ts ! i) = Some (c, p)"
  shows "history_ok m s' (ts[i := th_after (ts ! i) c x])"
  unfolding history_ok_def
proof
  fix k
  have "tsum (stored k) ts = tsum (deleted k) ts + (if k \<in> sm_maps s ! shard_of m k then 1 else 0)"
    using h by (simp add: history_ok_def)
  moreover have "p = At_write \<Longrightarrow> c = LoadOrStore k \<Longrightarrow> k \<notin> sm_maps s ! shard_of m k"
    and "p = At_write \<Longrightarrow> c = LoadAndDelete k \<Longrightarrow> k \<in> sm_maps s ! shard_of m k"
    using kn by auto
  ultimately show "tsum (stored k) (ts[i := th_after (ts ! i) c x]) =
      tsum (deleted k) (ts[i := th_after (ts ! i) c x]) + (if k \<in> sm_maps s' ! shard_of m k then 1 else 0)"
    by (auto simp: tsum_update[OF i] stored_trans[OF tr cur] deleted_trans[OF tr cur] maps_trans[OF tr sh])
qed

lemma maps_ok_trans:
  assumes "sm_trans m s c p s' x" and "shape m n s" and "maps_ok m n s"
  shows "maps_ok m n s'"
proof -
  have len: "length (sm_maps s) = n" using assms(2) by (simp add: shape_def)
  show ?thesis using assms(1,3) shard_of_less[OF assms(2)]
    by cases (auto simp: maps_ok_def set_lock_def nth_list_update len split: if_splits)
qed

text \<open>The counter and the cardinalities of the shards.\<close>

lemma key_count_update:
  assumes "j < length (sm_maps s)"
  shows "key_count (s\<lparr>sm_maps := (sm_maps s)[j := M]\<rparr>) = key_count s - int (card (sm_maps s ! j)) + int (card M)"
  using assms tsum_update[of j "sm_maps s" "\<lambda>M. int (card M)" M] by (simp add: key_count_def tsum_def)

lemma key_count_size [simp]: "key_count (s\<lparr>sm_size := x\<rparr>) = key_count s"
  and key_count_lock [simp]: "key_count (set_lock s j l) = key_count s"
  by (simp_all add: key_count_def set_lock_def)

text \<open>\<open>key_delta\<close>: the keys a step adds; \<open>size_delta\<close>: what it adds to the counter.\<close>

fun key_delta :: "sm_call \<Rightarrow> sm_pc \<Rightarrow> int" where
  "key_delta (LoadOrStore k) At_write = 1"
| "key_delta (LoadAndDelete k) At_write = - 1"
| "key_delta _ _ = 0"

fun size_delta :: "sm_call \<Rightarrow> sm_pc \<Rightarrow> int" where
  "size_delta (LoadOrStore k) At_count = 1"
| "size_delta (LoadAndDelete k) At_count = - 1"
| "size_delta _ _ = 0"

lemma uncounted_trans:
  assumes "sm_trans m s c p s' x" and "th_cur t = Some (c, p)"
  shows "uncounted (th_after t c x) = uncounted t + size_delta c p - key_delta c p"
  using assms by cases (auto simp: uncounted_def th_after_def split: sm_call.splits)

lemma size_delta_trans:
  "sm_trans m s c p s' x \<Longrightarrow> sm_size s' = sm_size s + word_of_int (size_delta c p)"
  by (induction rule: sm_trans.induct) (auto simp: set_lock_def elim!: disjE)

lemma key_delta_trans:
  "sm_trans m s c p s' x \<Longrightarrow> shape m n s \<Longrightarrow> sm_knows m s c p \<Longrightarrow> key_count s' = key_count s + key_delta c p"
proof (induction rule: sm_trans.induct)
  case (insert j k)
  then show ?case using shard_of_less[OF insert.prems(1), of k] by (simp add: key_count_update shape_def)
next
  case (delete j k)
  have "k \<in> sm_maps s ! j" using delete by simp
  then have "card (sm_maps s ! j) = Suc (card (sm_maps s ! j - {k}))"
    by (rule card.remove[OF finite])
  then show ?case using shard_of_less[OF delete.prems(1), of k] delete by (simp add: key_count_update shape_def)
qed (simp, simp, simp, elim disjE, simp, simp, elim disjE conjE, simp, simp, elim disjE conjE, simp, simp,
     simp, simp, elim disjE, simp, simp, simp)

lemma size_trans:
  assumes tr: "sm_trans m s c p s' x" and sh: "shape m n s" and z: "size_ok s ts"
    and kn: "sm_knows m s c p" and i: "i < length ts" and cur: "th_cur (ts ! i) = Some (c, p)"
  shows "size_ok s' (ts[i := th_after (ts ! i) c x])"
  using z
  by (simp add: size_ok_def tsum_update[OF i] uncounted_trans[OF tr cur] size_delta_trans[OF tr]
      key_delta_trans[OF tr sh kn] algebra_simps)

text \<open>What a goroutine knows in its write section stays true while the others step.\<close>

lemma knows_stable:
  assumes tr: "sm_trans m s c p s' x" and sh: "shape m n s" and lk: "locks_ok m n s ts"
    and i: "i < length ts" and cur: "th_cur (ts ! i) = Some (c, p)"
    and j: "j < length ts" "j \<noteq> i" and cur': "th_cur (ts ! j) = Some (c', p')"
    and kn: "sm_knows m s c' p'"
  shows "sm_knows m s' c' p'"
proof (cases "p' = At_write \<and> (\<exists>k'. c' = LoadOrStore k' \<or> c' = LoadAndDelete k')")
  case False
  then show ?thesis by (cases "(m, s', c', p')" rule: sm_knows.cases) auto
next
  case True
  then obtain k' where c': "c' = LoadOrStore k' \<or> c' = LoadAndDelete k'" and p': "p' = At_write" by blast
  have "\<not> (p = At_write \<and> (c = LoadOrStore k' \<or> c = LoadAndDelete k'))"
  proof
    assume p: "p = At_write \<and> (c = LoadOrStore k' \<or> c = LoadAndDelete k')"
    then have "sm_key c = Some k'" and "in_write p" by auto
    from writer_alone[OF lk sh i cur this] j have "writing m (shard_of m k') (ts ! j) = 0" by blast
    then show False using cur' c' p' by (auto simp: writing_def at_shard_def)
  qed
  then show ?thesis using kn c' p' maps_trans[OF tr sh, of k'] by auto
qed

lemma threads_trans:
  assumes tr: "sm_trans m s c p s' x" and sh: "shape m n s" and lk: "locks_ok m n s ts"
    and th: "threads_ok m s ts" and i: "i < length ts" and cur: "th_cur (ts ! i) = Some (c, p)"
  shows "threads_ok m s' (ts[i := th_after (ts ! i) c x])"
proof -
  have ty: "sm_typed c p" using th i cur by (simp add: threads_ok_def)
  have own: "\<And>p'. x = Inl p' \<Longrightarrow> sm_typed c p' \<and> sm_knows m s' c p'"
    using tr ty by cases (cases c; auto simp: set_lock_def)+
  have fin: "\<And>r e. x = Inr r \<Longrightarrow> r \<noteq> RPanic e" using tr by cases auto
  have dn: "\<forall>e. r \<noteq> RPanic e" if "j < length ts" "(c', r) \<in> set (th_done (ts ! j))" for j c' r
    using th that by (fastforce simp: threads_ok_def)
  show ?thesis unfolding threads_ok_def
  proof (intro conjI allI impI ballI, goal_cases)
    case (1 j c' p')
    then show ?case using own th by (cases "j = i") (auto simp: th_after_def i threads_ok_def split: sum.splits)
  next
    case (2 j c' p')
    then show ?case
      using own knows_stable[OF tr sh lk i cur, of j c' p'] th
      by (cases "j = i") (auto simp: th_after_def i threads_ok_def split: sum.splits)
  next
    case (3 j y)
    then show ?case using fin dn i by (cases "j = i") (fastforce simp: th_after_def split: sum.splits)+
  qed
qed

end
