(* ===== verification/Sharded_Map_Properties.thy ===== *)
theory Sharded_Map_Properties
  imports Sharded_Map_Spec
begin

unbundle bit_operations_syntax

section \<open>Properties of shardedmap\<close>

text \<open>The number of shards, and what the invariant of \<open>Sharded_Map_Spec\<close> says of a map under every
  interleaving of its calls: balance, exclusion and termination.\<close>

subsection \<open>The number of shards\<close>

lemma sint_two_power: "k \<le> 62 \<Longrightarrow> sint (2 ^ k :: 64 word) = 2 ^ k"
proof -
  assume k: "k \<le> 62"
  then have "(2 :: int) ^ k \<le> 2 ^ 62" by (intro power_increasing) auto
  moreover have "(0 :: int) \<le> 2 ^ k" by simp
  ultimately have "sint (word_of_int (2 ^ k) :: 64 word) = 2 ^ k"
    by (simp only: sint_sbintrunc', intro signed_take_bit_int_eq_self) (simp_all add: order_trans[of _ 0])
  then show ?thesis by simp
qed

lemma unat_two_power: "k \<le> 62 \<Longrightarrow> unat (2 ^ k :: 64 word) = 2 ^ k"
proof -
  assume "k \<le> 62"
  then have "unat (word_of_nat (2 ^ k) :: 64 word) = 2 ^ k"
    by (simp only: unsigned_of_nat) (simp add: take_bit_nat_eq_self)
  then show ?thesis by simp
qed

lemma push_two_power: "push_bit 1 (2 ^ k :: 64 word) = 2 ^ Suc k"
  by (simp add: push_bit_eq_mult)

lemma loop_finds:
  assumes "sint n \<le> 2 ^ 62" and "k \<le> 62" and "\<forall>j<k. 2 ^ j < sint n"
  shows "\<exists>k'\<le>62. nextPowerOfTwo_loop (2 ^ k) n = Some (2 ^ k') \<and> sint n \<le> 2 ^ k' \<and> (\<forall>j<k'. 2 ^ j < sint n)"
  using assms(2,3)
proof (induction "62 - k" arbitrary: k)
  case 0
  then have k: "k = 62" by simp
  then have "\<not> (2 ^ k <s n)" using assms(1) sint_two_power[of 62] by (simp add: word_sless_alt)
  then show ?case using 0 k assms(1)
    by (intro exI[of _ 62]) (simp add: nextPowerOfTwo_loop.simps)
next
  case (Suc d)
  show ?case
  proof (cases "2 ^ k <s n")
    case True
    then have "2 ^ k < sint n" using sint_two_power[OF Suc.prems(1)] by (simp add: word_sless_alt)
    then have "\<forall>j<Suc k. 2 ^ j < sint n" using Suc.prems(2) less_Suc_eq by auto
    moreover have "d = 62 - Suc k" and "Suc k \<le> 62" using Suc.hyps(2) by simp_all
    ultimately show ?thesis
      using Suc.hyps(1)[of "Suc k"] True by (simp only: nextPowerOfTwo_loop.simps[of "2 ^ k"] push_two_power if_True)
  next
    case False
    then show ?thesis using Suc.prems sint_two_power[OF Suc.prems(1)]
      by (intro exI[of _ k]) (simp add: nextPowerOfTwo_loop.simps word_sless_alt)
  qed
qed

lemma loop_zero_stuck: "nextPowerOfTwo_loop p n = Some r \<Longrightarrow> p = 0 \<longrightarrow> \<not> 0 <s n"
  by (erule nextPowerOfTwo_loop.raw_induct[rotated]) (auto split: if_splits)

lemma loop_overflows:
  assumes "2 ^ 62 < sint n" and "k \<le> 63"
  shows "nextPowerOfTwo_loop (2 ^ k) n = None"
  using assms(2)
proof (induction "63 - k" arbitrary: k)
  case 0
  then have k: "k = 63" by simp
  have full: "(18446744073709551616 :: 64 word) = 0" by simp
  have "(2 ^ 63 :: 64 word) <s n" using assms(1) by (simp add: word_sless_alt)
  moreover have "push_bit 1 (2 ^ 63 :: 64 word) = 0" by simp
  moreover have "0 <s n" using assms(1) by (simp add: word_sless_alt)
  ultimately show ?case
    using loop_zero_stuck[of 0 n] k
    by (subst nextPowerOfTwo_loop.simps, cases "nextPowerOfTwo_loop 0 n") (simp_all add: full)
next
  case (Suc d)
  then have "k \<le> 62" by simp
  then have "(2 :: int) ^ k \<le> 2 ^ 62" by (intro power_increasing) auto
  then have "2 ^ k <s n" using sint_two_power[OF \<open>k \<le> 62\<close>] assms(1) by (simp add: word_sless_alt)
  then show ?case using Suc.hyps(1)[of "Suc k"] Suc.hyps(2) \<open>k \<le> 62\<close>
    by (simp only: nextPowerOfTwo_loop.simps[of "2 ^ k"] push_two_power if_True)
qed

lemma nextPowerOfTwo_ok:
  assumes "sint n \<le> 2 ^ 62"
  shows "\<exists>k\<le>62. nextPowerOfTwo n = Some (2 ^ k) \<and> sint n \<le> 2 ^ k \<and> (\<forall>j<k. 2 ^ j < sint n)"
proof (cases "n \<le>s 1")
  case True
  then have "sint n \<le> 1" by (simp add: word_sle_eq)
  then show ?thesis using True by (auto simp: nextPowerOfTwo_def intro!: exI[of _ 0])
next
  case False
  then show ?thesis using loop_finds[of n 0] assms by (auto simp: nextPowerOfTwo_def word_sle_eq)
qed

lemma nextPowerOfTwo_stuck: "2 ^ 62 < sint n \<Longrightarrow> nextPowerOfTwo n = None"
  using loop_overflows[of n 0] by (auto simp: nextPowerOfTwo_def word_sle_eq)

text \<open>C35: up to \<open>2 ^ 62\<close> the number of shards is the least power of two that is at least the size
  asked for (1 for a size of at most 1); above it the shifted value overflows to the negative
  numbers and then to 0, and the loop never ends.\<close>

theorem nextPowerOfTwo_spec:
  "(sint n \<le> 2 ^ 62 \<longrightarrow>
     (\<exists>k\<le>62. nextPowerOfTwo n = Some (2 ^ k) \<and> sint n \<le> 2 ^ k \<and> (\<forall>j<k. 2 ^ j < sint n))) \<and>
   (2 ^ 62 < sint n \<longrightarrow> nextPowerOfTwo n = None)"
  using nextPowerOfTwo_ok nextPowerOfTwo_stuck by blast

theorem nextPowerOfTwo_spec_witness:
  "(\<exists>k\<le>62. nextPowerOfTwo 1000 = Some (2 ^ k) \<and> (1000 :: int) \<le> 2 ^ k \<and> (\<forall>j<k. 2 ^ j < (1000 :: int))) \<and>
   nextPowerOfTwo (2 ^ 62 + 1) = None"
  using nextPowerOfTwo_spec[of 1000] nextPowerOfTwo_spec[of "2 ^ 62 + 1"] by simp

subsection \<open>A new map\<close>

lemma mask_two_power:
  assumes "k \<le> 62"
  shows "0 \<le> sint (x AND (2 ^ k - 1) :: 64 word) \<and> sint (x AND (2 ^ k - 1) :: 64 word) < 2 ^ k"
proof -
  have "x AND (2 ^ k - 1) = take_bit k x" by (simp add: take_bit_eq_mask mask_eq_exp_minus_1)
  moreover have u: "uint (take_bit k x) < 2 ^ k" by (simp add: unsigned_take_bit_eq)
  moreover have "(2 :: int) ^ k \<le> 2 ^ 62" using assms by (intro power_increasing) auto
  then have "sint (take_bit k x) = uint (take_bit k x)"
    using u by (simp only: sint_uint, intro signed_take_bit_int_eq_self) (simp_all add: order_trans[of _ 0])
  ultimately show ?thesis by simp
qed

lemma new_inv:
  assumes "sint sz \<le> 2 ^ 62"
  shows "\<exists>k\<le>62. \<exists>s. NewShardedMap sz = Some s \<and> sm_inv (2 ^ k - 1) (2 ^ k) s (map thread_start css) \<and>
    sm_maps s = replicate (2 ^ k) {}"
proof -
  obtain k where k: "k \<le> 62" "nextPowerOfTwo sz = Some (2 ^ k)" using nextPowerOfTwo_ok[OF assms] by blast
  define s where "s = \<lparr>sm_mask = 2 ^ k - 1, sm_locks = replicate (2 ^ k) \<lparr>rw_readers = 0, rw_writer = False\<rparr>,
      sm_maps = replicate (2 ^ k) {}, sm_size = 0\<rparr>"
  have n: "unat (2 ^ k :: 64 word) = 2 ^ k" by (rule unat_two_power[OF k(1)])
  have N: "NewShardedMap sz = Some s" using k n by (simp add: NewShardedMap_def s_def)
  let ?ts = "map thread_start css :: sm_thread list"
  have z: "tsum f ?ts = 0" if "\<And>cs. f (thread_start cs :: sm_thread) = 0" for f
    using that by (intro tsum_zero) auto
  have sh: "shape (2 ^ k - 1) (2 ^ k) s" using mask_two_power[OF k(1)] by (simp add: shape_def s_def)
  have "sm_inv (2 ^ k - 1) (2 ^ k) s ?ts"
    using sh shard_of_less[OF sh]
    by (simp add: sm_inv_def locks_ok_def threads_ok_def history_ok_def maps_ok_def size_ok_def
        z reading_def writing_def stored_def deleted_def returned_def pend_def uncounted_def thread_start_def)
      (simp add: s_def key_count_def sum_list_replicate)
  then show ?thesis using N k(1) by (auto simp: s_def)
qed

subsection \<open>Invariant, balance and counter\<close>

lemma sm_inv_step:
  assumes "sm_inv m n s ts" and i: "i < length ts" and cur: "th_cur (ts ! i) = Some (c, p)"
    and "sm_body s c p = Some (s', x)"
  shows "sm_inv m n s' (ts[i := th_after (ts ! i) c x])"
proof -
  have sh: "shape m n s" and lk: "locks_ok m n s ts" and th: "threads_ok m s ts" and h: "history_ok m s ts"
    and mo: "maps_ok m n s" and z: "size_ok s ts"
    using assms(1) by (simp_all add: sm_inv_def)
  note tr = body_trans[OF sh assms(4)]
  have kn: "sm_knows m s c p" using th i cur by (simp add: threads_ok_def)
  show ?thesis
    unfolding sm_inv_def
    using shape_trans[OF tr sh] locks_trans[OF tr sh lk i cur] threads_trans[OF tr sh lk th i cur]
      history_trans[OF tr sh kn h i cur] maps_ok_trans[OF tr sh mo] size_trans[OF tr sh z kn i cur] by blast
qed

lemma sm_inv_start:
  assumes inv: "sm_inv m n s ts" and i: "i < length ts" and cur: "th_cur (ts ! i) = None"
  shows "sm_inv m n s (ts[i := (ts ! i)\<lparr>th_todo := cs, th_cur := Some (c, sm_enter c)\<rparr>])"
proof -
  let ?t = "(ts ! i)\<lparr>th_todo := cs, th_cur := Some (c, sm_enter c)\<rparr>"
  have same: "reading m j ?t = reading m j (ts ! i)" "writing m j ?t = writing m j (ts ! i)"
    "stored k ?t = stored k (ts ! i)" "deleted k ?t = deleted k (ts ! i)" "uncounted ?t = uncounted (ts ! i)" for j k
    using cur by (cases c; simp add: reading_def writing_def stored_def deleted_def returned_def pend_def uncounted_def)+
  have "sm_typed c (sm_enter c) \<and> sm_knows m s c (sm_enter c)" by (cases c) simp_all
  then have "threads_ok m s (ts[i := ?t])"
    using inv i by (auto simp: sm_inv_def threads_ok_def nth_list_update)
  then show ?thesis using inv
    by (simp add: sm_inv_def locks_ok_def history_ok_def size_ok_def tsum_update[OF i] same)
qed

interpretation sm_pool: pool_invariant sm_enter sm_body "sm_inv m n" for m n
proof
  fix s ts i c p s' p'
  assume "sm_inv m n s ts" "i < length ts" "th_cur (ts ! i) = Some (c, p)" "sm_body s c p = Some (s', Inl p')"
  from sm_inv_step[OF this] show "sm_inv m n s' (ts[i := (ts ! i)\<lparr>th_cur := Some (c, p')\<rparr>])"
    by (simp add: th_after_def)
next
  fix s ts i c p s' r
  assume "sm_inv m n s ts" "i < length ts" "th_cur (ts ! i) = Some (c, p)" "sm_body s c p = Some (s', Inr r)"
  from sm_inv_step[OF this]
  show "sm_inv m n s' (ts[i := (ts ! i)\<lparr>th_cur := None, th_done := th_done (ts ! i) @ [(c, r)]\<rparr>])"
    by (simp add: th_after_def)
qed (rule sm_inv_start)

text \<open>The calls of a kind that returned a boolean, over all goroutines.\<close>

definition returns :: "sm_call \<Rightarrow> bool \<Rightarrow> sm_thread list \<Rightarrow> int" where
  "returns c ok ts = tsum (\<lambda>t. int (count_list (th_done t) (c, RBool ok))) ts"

lemma quiet_sums:
  assumes "\<forall>t \<in> set ts. th_cur t = None"
  shows "tsum (stored k) ts = returns (LoadOrStore k) False ts"
    and "tsum (deleted k) ts = returns (LoadAndDelete k) True ts"
    and "tsum uncounted ts = 0"
  using assms
  by (auto simp: tsum_def returns_def stored_def deleted_def pend_def returned_def uncounted_def
      intro!: arg_cong[where f = sum_list] intro: tsum_zero[unfolded tsum_def])

text \<open>C4: whatever the interleaving of the calls on a new map, when no call is running a key has been
  stored (\<open>LoadOrStore\<close> returning \<open>false\<close>) as often as it was deleted (\<open>LoadAndDelete\<close> returning
  \<open>true\<close>), once more if it is in the map, so of concurrent stores of a key exactly one wins; the
  counter is the number of keys in the shards, modulo \<open>2 ^ 64\<close>.\<close>

theorem ShardedMap_balance:
  assumes "sint sz \<le> 2 ^ 62" and "NewShardedMap sz = Some s"
    and "pool_reach sm_enter sm_body (s, map thread_start css) (s', ts)"
    and "\<forall>t \<in> set ts. th_cur t = None"
  shows "returns (LoadOrStore k) False ts = returns (LoadAndDelete k) True ts +
      (if k \<in> sm_maps s' ! nat (getShard s' k) then 1 else 0) \<and>
    sm_size s' = word_of_int (\<Sum>M\<leftarrow>sm_maps s'. int (card M))"
proof -
  obtain m n where "sm_inv m n s (map thread_start css)" using new_inv[OF assms(1), of css] assms(2) by auto
  then have inv: "sm_inv m n s' ts" by (rule sm_pool.reach_I[OF assms(3)])
  then have "getShard s' k = sint (k AND m)" by (simp add: sm_inv_def shape_def getShard_def)
  then show ?thesis using inv quiet_sums[OF assms(4)]
    by (simp add: sm_inv_def history_ok_def size_ok_def shard_of_def key_count_def)
qed

lemma map_of_four: "NewShardedMap 4 = Some \<lparr>sm_mask = 3,
    sm_locks = replicate 4 \<lparr>rw_readers = 0, rw_writer = False\<rparr>, sm_maps = replicate 4 {}, sm_size = 0\<rparr>"
  by (simp add: NewShardedMap_def nextPowerOfTwo_def nextPowerOfTwo_loop.simps word_sless_alt word_sle_eq)

theorem ShardedMap_balance_witness:
  "case run_sched sm_enter sm_body ([0, 1, 0, 1, 0, 1, 0, 1] @ replicate 6 0 @ replicate 6 1)
      (the (NewShardedMap 4), map thread_start [[LoadOrStore 5], [LoadOrStore 5]]) of
     (s', ts) \<Rightarrow> returns (LoadOrStore 5) False ts = 1 \<and> sm_size s' = 1"
proof -
  let ?css = "[[LoadOrStore 5], [LoadOrStore 5]]"
  let ?sched = "[0, 1, 0, 1, 0, 1, 0, 1] @ replicate 6 0 @ replicate 6 (1 :: nat)"
  obtain s' ts where r: "run_sched sm_enter sm_body ?sched (the (NewShardedMap 4), map thread_start ?css) = (s', ts)"
    by fastforce
  have re: "pool_reach sm_enter sm_body (the (NewShardedMap 4), map thread_start ?css) (s', ts)"
    using run_sched_reach[of sm_enter sm_body "(the (NewShardedMap 4), map thread_start ?css)" ?sched] r by simp
  have f: "(\<forall>t \<in> set ts. th_cur t = None) \<and> sm_maps s' = [{}, {5}, {}, {}] \<and> sm_mask s' = 3 \<and> returns (LoadAndDelete 5) True ts = 0"
    using r
    by (simp add: map_of_four thread_start_def sm_ops with_shard_def getShard_def set_lock_def numeral_eq_Suc)
      (auto simp: returns_def tsum_def)
  have "sint (4 :: 64 word) \<le> 2 ^ 62" and "NewShardedMap 4 = Some (the (NewShardedMap 4))"
    by (simp_all add: map_of_four)
  from ShardedMap_balance[OF this re, of 5] f show ?thesis
    unfolding r by (simp add: getShard_def)
qed

subsection \<open>The locks\<close>

text \<open>C36: in every state that is reached no call has panicked, a goroutine in the write section of a
  shard is the only one in any section of it, and the keys of a shard are those the mask sends
  there.\<close>

theorem ShardedMap_exclusion:
  assumes "sint sz \<le> 2 ^ 62" and "NewShardedMap sz = Some s"
    and "pool_reach sm_enter sm_body (s, map thread_start css) (s', ts)"
  shows "(\<forall>t \<in> set ts. \<forall>(c, r) \<in> set (th_done t). \<forall>e. r \<noteq> RPanic e) \<and>
    (\<forall>i<length ts. \<forall>j<length ts. \<forall>c p k c' p' k'. i \<noteq> j \<and>
       th_cur (ts ! i) = Some (c, p) \<and> in_write p \<and> sm_key c = Some k \<and>
       th_cur (ts ! j) = Some (c', p') \<and> sm_key c' = Some k' \<and> getShard s' k = getShard s' k'
       \<longrightarrow> \<not> in_read p' \<and> \<not> in_write p') \<and>
    (\<forall>j<length (sm_maps s'). \<forall>k \<in> sm_maps s' ! j. getShard s' k = int j)"
proof -
  obtain m n where "sm_inv m n s (map thread_start css)" using new_inv[OF assms(1), of css] assms(2) by auto
  then have inv: "sm_inv m n s' ts" by (rule sm_pool.reach_I[OF assms(3)])
  then have sh: "shape m n s'" and lk: "locks_ok m n s' ts" and mo: "maps_ok m n s'" by (simp_all add: sm_inv_def)
  have g: "getShard s' k = int (shard_of m k)" for k using sh by (simp add: shape_def getShard_def shard_of_def)
  have "\<not> in_read p' \<and> \<not> in_write p'"
    if a: "i < length ts" "j < length ts" "i \<noteq> j" "th_cur (ts ! i) = Some (c, p)" "in_write p" "sm_key c = Some k"
      "th_cur (ts ! j) = Some (c', p')" "sm_key c' = Some k'" "getShard s' k = getShard s' k'" for i j c p k c' p' k'
  proof -
    have w: "rw_writer (sm_locks s' ! shard_of m k)" "writing m (shard_of m k) (ts ! j) = 0"
      using writer_alone[OF lk sh a(1,4,6,5)] a(2,3) by auto
    have "\<not> in_read p'" using reader_counted[OF lk sh a(2,7,8)] w(1) a(9) g by auto
    moreover have "\<not> in_write p'" using w(2) a(7-9) g by (auto simp: writing_def at_shard_def split: if_splits)
    ultimately show ?thesis by simp
  qed
  moreover have "\<forall>t \<in> set ts. \<forall>(c, r) \<in> set (th_done t). \<forall>e. r \<noteq> RPanic e"
    using inv unfolding sm_inv_def threads_ok_def by (metis in_set_conv_nth)
  ultimately show ?thesis using mo sh g by (auto simp: maps_ok_def shape_def)
qed

theorem ShardedMap_exclusion_witness:
  "case run_sched sm_enter sm_body [0, 1, 0, 1, 0, 1, 0, 1, 0]
      (the (NewShardedMap 4), map thread_start [[LoadOrStore 5], [LoadOrStore 9]]) of
     (s', ts) \<Rightarrow> th_cur (ts ! 0) = Some (LoadOrStore 5, At_check) \<and> \<not> in_write (snd (the (th_cur (ts ! 1))))"
proof -
  let ?css = "[[LoadOrStore 5], [LoadOrStore 9]]"
  let ?sched = "[0, 1, 0, 1, 0, 1, 0, 1, 0 :: nat]"
  obtain s' ts where r: "run_sched sm_enter sm_body ?sched (the (NewShardedMap 4), map thread_start ?css) = (s', ts)"
    by fastforce
  have re: "pool_reach sm_enter sm_body (the (NewShardedMap 4), map thread_start ?css) (s', ts)"
    using run_sched_reach[of sm_enter sm_body "(the (NewShardedMap 4), map thread_start ?css)" ?sched] r by simp
  have f: "length ts = 2 \<and> th_cur (ts ! 0) = Some (LoadOrStore 5, At_check) \<and>
      (\<exists>p. th_cur (ts ! 1) = Some (LoadOrStore 9, p)) \<and> sm_mask s' = 3"
    using r
    by (simp add: map_of_four thread_start_def sm_ops with_shard_def getShard_def set_lock_def numeral_eq_Suc) auto
  then obtain p where p: "th_cur (ts ! 1) = Some (LoadOrStore 9, p)" by blast
  have "sint (4 :: 64 word) \<le> 2 ^ 62" and "NewShardedMap 4 = Some (the (NewShardedMap 4))"
    by (simp_all add: map_of_four)
  from conjunct1[OF conjunct2[OF ShardedMap_exclusion[OF this re]], rule_format, of 0 1 "LoadOrStore 5" At_check 5
        "LoadOrStore 9" p 9] f p
  have "\<not> in_write p" by (simp add: getShard_def)
  then show ?thesis using f p unfolding r by simp
qed

subsection \<open>Progress\<close>

fun sm_rank :: "sm_call \<Rightarrow> sm_pc \<Rightarrow> nat" where
  "sm_rank c At_rlock = 7"
| "sm_rank c At_read = 6"
| "sm_rank c (At_runlock ok) = 5"
| "sm_rank c At_lock = 4"
| "sm_rank c At_check = 3"
| "sm_rank c At_write = 2"
| "sm_rank c At_count = 1"
| "sm_rank c (At_unlock ok) = 0"
| "sm_rank c At_size = 0"

interpretation sm_pool: pool_terminates sm_enter sm_body sm_rank
proof
  fix s c p s' p'
  assume "sm_body s c p = Some (s', Inl p')"
  then show "sm_rank c p' < sm_rank c p"
    by (cases c; cases p) (auto simp: sm_ops with_shard_def Let_def split: if_splits)
qed

lemma sm_blocked:
  assumes sh: "shape m n s" and ty: "sm_typed c p" and "sm_body s c p = None"
  shows "\<exists>k. sm_key c = Some k \<and> (p = At_rlock \<or> p = At_lock) \<and>
    (rw_writer (sm_locks s ! shard_of m k) \<or> 0 < rw_readers (sm_locks s ! shard_of m k))"
  using assms(2,3)
  by (cases c; cases p) (auto simp: sm_ops with_shard_in[OF sh] split: if_splits)

lemma tsum_some:
  assumes "tsum f ts \<noteq> 0"
  shows "\<exists>i<length ts. f (ts ! i) \<noteq> 0"
proof (rule ccontr)
  assume "\<not> ?thesis"
  then have "tsum f ts = 0" by (intro tsum_zero) (auto simp: in_set_conv_nth)
  then show False using assms by simp
qed

lemma sm_progress:
  assumes inv: "sm_inv m n s ts" and nf: "\<not> list_all finished ts"
  shows "\<exists>s' ts'. pool_step sm_enter sm_body (s, ts) (s', ts')"
proof -
  have sh: "shape m n s" and lk: "locks_ok m n s ts" and th: "threads_ok m s ts"
    using inv by (simp_all add: sm_inv_def)
  obtain i where i: "i < length ts" "\<not> finished (ts ! i)" using nf by (auto simp: list_all_length)
  show ?thesis
  proof (cases "\<exists>c p. th_cur (ts ! i) = Some (c, p) \<and> sm_body s c p = None")
    case False
    then show ?thesis by (intro pool_can_step[OF i]) auto
  next
    case True
    then obtain c p where cp: "th_cur (ts ! i) = Some (c, p)" "sm_body s c p = None" by blast
    have "sm_typed c p" using th i(1) cp by (simp add: threads_ok_def)
    from sm_blocked[OF sh this cp(2)] obtain k where
      "rw_writer (sm_locks s ! shard_of m k) \<or> 0 < rw_readers (sm_locks s ! shard_of m k)" by blast
    then have "tsum (reading m (shard_of m k)) ts \<noteq> 0 \<or> tsum (writing m (shard_of m k)) ts \<noteq> 0"
      using lk shard_of_less[OF sh, of k] by (auto simp: locks_ok_def Let_def)
    then obtain j where j: "j < length ts"
      "reading m (shard_of m k) (ts ! j) \<noteq> 0 \<or> writing m (shard_of m k) (ts ! j) \<noteq> 0"
      using tsum_some by blast
    then obtain c' p' where c': "th_cur (ts ! j) = Some (c', p')" "in_read p' \<or> in_write p'"
      by (auto simp: reading_def writing_def split: option.splits if_splits)
    then have "sm_typed c' p'" using th j(1) by (simp add: threads_ok_def)
    moreover have "p' \<noteq> At_rlock" "p' \<noteq> At_lock" using c'(2) by auto
    ultimately have "sm_body s c' p' \<noteq> None" using sm_blocked[OF sh, of c' p'] by metis
    moreover have "\<not> finished (ts ! j)" using c'(1) by (simp add: finished_def)
    ultimately show ?thesis using c'(1) by (intro pool_can_step[OF j(1)]) auto
  qed
qed

text \<open>C37: no interleaving of calls deadlocks or runs on: every goroutine takes at most nine steps for a
  call, and the pool can step until all calls have returned.\<close>

theorem ShardedMap_terminates:
  assumes "sint sz \<le> 2 ^ 62" and "NewShardedMap sz = Some s"
    and "(pool_step sm_enter sm_body ^^ n) (s, map thread_start css) (s', ts)"
  shows "n \<le> 9 * sum_list (map length css) \<and>
    (list_all finished ts \<or> (\<exists>s'' ts''. pool_step sm_enter sm_body (s', ts) (s'', ts'')))"
proof -
  obtain m k where "sm_inv m k s (map thread_start css)" using new_inv[OF assms(1), of css] assms(2) by auto
  moreover have "pool_reach sm_enter sm_body (s, map thread_start css) (s', ts)"
    using assms(3) by (rule relpowp_imp_rtranclp)
  ultimately have "sm_inv m k s' ts" using sm_pool.reach_I by blast
  then have "list_all finished ts \<or> (\<exists>s'' ts''. pool_step sm_enter sm_body (s', ts) (s'', ts''))"
    using sm_progress by blast
  moreover have w: "thread_work sm_enter sm_rank (thread_start cs :: sm_thread) \<le> 9 * int (length cs)" for cs
  proof (induction cs)
    case (Cons c cs)
    then show ?case by (cases c) (simp_all add: thread_work_def thread_start_def)
  qed (simp add: thread_work_def thread_start_def)
  have "tsum (thread_work sm_enter sm_rank) (map thread_start css :: sm_thread list) \<le> 9 * int (sum_list (map length css))"
    using w by (induction css) (auto simp: tsum_def algebra_simps intro: add_mono)
  then have "int n \<le> int (9 * sum_list (map length css))" using sm_pool.steps_bounded[OF assms(3)] by simp
  then have "n \<le> 9 * sum_list (map length css)" by (simp only: of_nat_le_iff)
  ultimately show ?thesis by blast
qed

theorem ShardedMap_terminates_witness:
  "\<exists>s. NewShardedMap 4 = Some s \<and>
     (\<exists>s'' ts''. pool_step sm_enter sm_body (s, map thread_start [[LoadOrStore 5]]) (s'', ts''))"
proof -
  have "(pool_step sm_enter sm_body ^^ 0) (the (NewShardedMap 4), map thread_start [[LoadOrStore 5]])
      (the (NewShardedMap 4), map thread_start [[LoadOrStore 5]])" by simp
  from ShardedMap_terminates[OF _ _ this, of 4] show ?thesis
    by (simp add: map_of_four finished_def thread_start_def)
qed

end
