(* ===== verification/Linked_Map.thy ===== *)
theory Linked_Map
  imports Threads
begin

section \<open>linkedmap.LinkedMap\<close>

text \<open>
  \<open>rivetxcore/linkedmap/linked_map.go\<close>: a \<open>sync.Map\<close>, whose operations are atomic, with the list
  of its keys in the order they were added, behind a mutex; above \<open>maxSize\<close> the oldest key goes.
\<close>

record ('k, 'v) LinkedMap =
  lm_map :: "'k \<rightharpoonup> 'v"
  lm_mutex :: bool
  lm_keys :: "'k list"
  lm_maxSize :: int

definition NewLinkedMap :: "int \<Rightarrow> ('k, 'v) LinkedMap" where
  "NewLinkedMap maxSize = \<lparr>lm_map = Map.empty, lm_mutex = False, lm_keys = [], lm_maxSize = maxSize\<rparr>"

datatype ('k, 'v) lm_call = LmAdd 'k 'v | LmLoad 'k

datatype 'k lm_pc = LmEnter | LmLock | LmPush | LmEvict | LmDelete 'k | LmUnlock

datatype 'v lm_ret = LmAdded bool | LmLoaded "'v option"

fun LinkedMap_Add :: "('k, 'v) LinkedMap \<Rightarrow> 'k \<Rightarrow> 'v \<Rightarrow> 'k lm_pc \<Rightarrow>
    (('k, 'v) LinkedMap \<times> ('k lm_pc + 'v lm_ret)) option" where
  "LinkedMap_Add m key val LmEnter =
     (if lm_map m key \<noteq> None then Some (m, Inr (LmAdded False))
      else Some (m\<lparr>lm_map := (lm_map m)(key \<mapsto> val)\<rparr>, Inl LmLock))"
| "LinkedMap_Add m key val LmLock =
     (if lm_mutex m then None else Some (m\<lparr>lm_mutex := True\<rparr>, Inl LmPush))"
| "LinkedMap_Add m key val LmPush = Some (m\<lparr>lm_keys := lm_keys m @ [key]\<rparr>, Inl LmEvict)"
| "LinkedMap_Add m key val LmEvict =
     (if 0 < lm_maxSize m \<and> lm_maxSize m < int (length (lm_keys m)) \<and> lm_keys m \<noteq> []
      then Some (m\<lparr>lm_keys := tl (lm_keys m)\<rparr>, Inl (LmDelete (hd (lm_keys m))))
      else Some (m, Inl LmUnlock))"
| "LinkedMap_Add m key val (LmDelete removed) =
     Some (m\<lparr>lm_map := (lm_map m)(removed := None)\<rparr>, Inl LmUnlock)"
| "LinkedMap_Add m key val LmUnlock = Some (m\<lparr>lm_mutex := False\<rparr>, Inr (LmAdded True))"

definition LinkedMap_Load :: "('k, 'v) LinkedMap \<Rightarrow> 'k \<Rightarrow> 'v option" where
  "LinkedMap_Load m key = lm_map m key"

fun lm_body :: "(('k, 'v) LinkedMap, ('k, 'v) lm_call, 'k lm_pc, 'v lm_ret) body" where
  "lm_body m (LmAdd key val) p = LinkedMap_Add m key val p"
| "lm_body m (LmLoad key) LmEnter = Some (m, Inr (LmLoaded (LinkedMap_Load m key)))"
| "lm_body m (LmLoad key) _ = None"

subsection \<open>The invariant\<close>

type_synonym ('k, 'v) lm_thread = "(('k, 'v) lm_call, 'k lm_pc, 'v lm_ret) thread"

text \<open>A key that is in the map but not in the list: stored and not yet pushed, or removed from the
  list and not yet deleted.\<close>

fun off_list :: "'k \<Rightarrow> ('k, 'v) lm_call \<Rightarrow> 'k lm_pc \<Rightarrow> int" where
  "off_list k (LmAdd k' v) LmLock = (if k' = k then 1 else 0)"
| "off_list k (LmAdd k' v) LmPush = (if k' = k then 1 else 0)"
| "off_list k (LmAdd k' v) (LmDelete r) = (if r = k then 1 else 0)"
| "off_list k _ _ = 0"

fun over_full :: "('k, 'v) lm_call \<Rightarrow> 'k lm_pc \<Rightarrow> int" where
  "over_full (LmAdd k v) LmEvict = 1"
| "over_full _ _ = 0"

fun holds_mutex :: "('k, 'v) lm_call \<Rightarrow> 'k lm_pc \<Rightarrow> int" where
  "holds_mutex (LmAdd k v) LmPush = 1"
| "holds_mutex (LmAdd k v) LmEvict = 1"
| "holds_mutex (LmAdd k v) (LmDelete r) = 1"
| "holds_mutex (LmAdd k v) LmUnlock = 1"
| "holds_mutex _ _ = 0"

definition running :: "('c \<Rightarrow> 'p \<Rightarrow> int) \<Rightarrow> ('c, 'p, 'r) thread \<Rightarrow> int" where
  "running f t = (case th_cur t of None \<Rightarrow> 0 | Some (c, p) \<Rightarrow> f c p)"

definition lm_inv :: "int \<Rightarrow> ('k, 'v) LinkedMap \<Rightarrow> ('k, 'v) lm_thread list \<Rightarrow> bool" where
  "lm_inv maxSize m ts \<longleftrightarrow>
     lm_maxSize m = maxSize \<and>
     (\<forall>k. int (count_list (lm_keys m) k) + tsum (running (off_list k)) ts = (if lm_map m k = None then 0 else 1)) \<and>
     (0 < maxSize \<longrightarrow> int (length (lm_keys m)) \<le> maxSize + tsum (running over_full) ts) \<and>
     tsum (running holds_mutex) ts = (if lm_mutex m then 1 else 0)"

text \<open>A step changes each of the three counts as it changes the map.\<close>

fun out_delta :: "'q + 'r \<Rightarrow> ('q \<Rightarrow> int) \<Rightarrow> int" where
  "out_delta (Inl p) f = f p"
| "out_delta (Inr r) f = 0"

lemma count_list_tl: "xs \<noteq> [] \<Longrightarrow> int (count_list (tl xs) k) = int (count_list xs k) - (if hd xs = k then 1 else 0)"
  by (cases xs) auto

lemma nonnegs: "0 \<le> over_full c p" "0 \<le> holds_mutex c p" "0 \<le> off_list k c p"
proof -
  show "0 \<le> over_full c p" by (cases "(c, p)" rule: over_full.cases) simp_all
  show "0 \<le> holds_mutex c p" by (cases "(c, p)" rule: holds_mutex.cases) simp_all
  show "0 \<le> off_list k c p" by (cases "(k, c, p)" rule: off_list.cases) simp_all
qed

lemma running_nonneg: "(\<And>c p. 0 \<le> f c p) \<Longrightarrow> 0 \<le> running f t"
  by (simp add: running_def split: option.splits)

lemma tsum_running:
  assumes "i < length ts" and "th_cur (ts ! i) = Some (c, p)"
  shows "tsum (running f) (ts[i := (ts ! i)\<lparr>th_cur := Some (c, p')\<rparr>]) = tsum (running f) ts - f c p + f c p'"
    and "tsum (running f) (ts[i := (ts ! i)\<lparr>th_cur := None, th_done := d\<rparr>]) = tsum (running f) ts - f c p"
  using assms by (simp_all add: tsum_update running_def)

lemma lm_step:
  assumes inv: "lm_inv maxSize m ts" and i: "i < length ts" and cur: "th_cur (ts ! i) = Some (c, p)"
    and st: "lm_body m c p = Some (m', x)"
  shows "lm_maxSize m' = maxSize"
    and "int (count_list (lm_keys m') k) + (tsum (running (off_list k)) ts - off_list k c p + out_delta x (off_list k c)) =
      (if lm_map m' k = None then 0 else 1)"
    and "0 < maxSize \<longrightarrow>
      int (length (lm_keys m')) \<le> maxSize + (tsum (running over_full) ts - over_full c p + out_delta x (over_full c))"
    and "tsum (running holds_mutex) ts - holds_mutex c p + out_delta x (holds_mutex c) = (if lm_mutex m' then 1 else 0)"
proof -
  have c: "int (count_list (lm_keys m) k) + tsum (running (off_list k)) ts = (if lm_map m k = None then 0 else 1)" for k
    using inv by (simp add: lm_inv_def)
  have l: "0 < maxSize \<longrightarrow> int (length (lm_keys m)) \<le> maxSize + tsum (running over_full) ts"
    and h: "tsum (running holds_mutex) ts = (if lm_mutex m then 1 else 0)" and z: "lm_maxSize m = maxSize"
    using inv by (simp_all add: lm_inv_def)
  have here: "f c p \<le> tsum (running f) ts" if "\<And>c p. 0 \<le> f c p" for f
  proof -
    have "running f (ts ! i) \<le> tsum (running f) ts"
      using that by (intro tsum_ge[OF _ i] running_nonneg)
    then show ?thesis using cur by (simp add: running_def)
  qed
  have o: "0 \<le> tsum (running over_full) ts - over_full c p" using here[of over_full, OF nonnegs(1)] by simp
  have hm: "holds_mutex c p \<le> (if lm_mutex m then 1 else 0)" using here[of holds_mutex, OF nonnegs(2)] h by simp
  have off: "off_list k c p = 1 \<Longrightarrow> lm_map m k \<noteq> None" for k
    using here[of "off_list k", OF nonnegs(3)] c[of k] by (auto split: if_splits)
  show "lm_maxSize m' = maxSize" using st z
    by (cases "(m, c, p)" rule: lm_body.cases; cases p) (auto split: if_splits)
  show "int (count_list (lm_keys m') k) + (tsum (running (off_list k)) ts - off_list k c p + out_delta x (off_list k c)) =
      (if lm_map m' k = None then 0 else 1)"
    using st c[of k] off[of k]
    by (cases "(m, c, p)" rule: lm_body.cases; cases p) (auto simp: count_list_tl split: if_splits)
  show "0 < maxSize \<longrightarrow>
      int (length (lm_keys m')) \<le> maxSize + (tsum (running over_full) ts - over_full c p + out_delta x (over_full c))"
    using st l o z
    by (cases "(m, c, p)" rule: lm_body.cases; cases p) (auto split: if_splits)
  show "tsum (running holds_mutex) ts - holds_mutex c p + out_delta x (holds_mutex c) = (if lm_mutex m' then 1 else 0)"
    using st h hm
    by (cases "(m, c, p)" rule: lm_body.cases; cases p) (auto split: if_splits)
qed

interpretation lm_pool: pool_invariant "\<lambda>_. LmEnter" lm_body "lm_inv maxSize" for maxSize
proof
  fix m :: "('c, 'd) LinkedMap" and ts i and c :: "('c, 'd) lm_call" and cs
  assume inv: "lm_inv maxSize m ts" and i: "i < length ts" and cur: "th_cur (ts ! i) = None"
  have z: "off_list k c LmEnter = 0" "over_full c LmEnter = 0" "holds_mutex c LmEnter = 0" for k by (cases c; simp)+
  have same: "tsum (running f) (ts[i := (ts ! i)\<lparr>th_todo := cs, th_cur := Some (c, LmEnter)\<rparr>]) = tsum (running f) ts"
    if "f c LmEnter = 0" for f
    using that i cur by (simp add: tsum_update running_def)
  show "lm_inv maxSize m (ts[i := (ts ! i)\<lparr>th_todo := cs, th_cur := Some (c, LmEnter)\<rparr>])"
    using inv by (simp add: lm_inv_def same z)
next
  fix m :: "('c, 'd) LinkedMap" and ts i c p m' p'
  assume a: "lm_inv maxSize m ts" "i < length ts" "th_cur (ts ! i) = Some (c, p)" "lm_body m c p = Some (m', Inl p')"
  show "lm_inv maxSize m' (ts[i := (ts ! i)\<lparr>th_cur := Some (c, p')\<rparr>])"
    unfolding lm_inv_def tsum_running[OF a(2,3)] using lm_step[OF a] by (simp add: algebra_simps)
next
  fix m :: "('c, 'd) LinkedMap" and ts i c p m' r
  assume a: "lm_inv maxSize m ts" "i < length ts" "th_cur (ts ! i) = Some (c, p)" "lm_body m c p = Some (m', Inr r)"
  show "lm_inv maxSize m' (ts[i := (ts ! i)\<lparr>th_cur := None, th_done := th_done (ts ! i) @ [(c, r)]\<rparr>])"
    unfolding lm_inv_def tsum_running[OF a(2,3)] using lm_step[OF a] by simp
qed


subsection \<open>Bound and agreement\<close>

lemma new_lm_inv: "lm_inv maxSize (NewLinkedMap maxSize) (map thread_start css)"
proof -
  have z: "tsum (running f) (map thread_start css) = 0" for f
    by (intro tsum_zero) (auto simp: running_def thread_start_def)
  show ?thesis by (simp add: lm_inv_def NewLinkedMap_def z)
qed

text \<open>C16: whatever the interleaving of calls on a new map with a positive \<open>maxSize\<close>, the list of
  keys is never longer than \<open>maxSize\<close> plus one, and when no call is running it holds every key
  of the map exactly once, no other, and at most \<open>maxSize\<close> of them.\<close>

theorem LinkedMap_bounded:
  assumes "0 < maxSize" and "pool_reach (\<lambda>_. LmEnter) lm_body (NewLinkedMap maxSize, map thread_start css) (m, ts)"
  shows "int (length (lm_keys m)) \<le> maxSize + 1 \<and>
    ((\<forall>t \<in> set ts. th_cur t = None) \<longrightarrow>
       distinct (lm_keys m) \<and> set (lm_keys m) = dom (lm_map m) \<and> int (length (lm_keys m)) \<le> maxSize)"
proof -
  have inv: "lm_inv maxSize m ts" by (rule lm_pool.reach_I[OF assms(2) new_lm_inv])
  have l: "int (length (lm_keys m)) \<le> maxSize + tsum (running over_full) ts"
    using inv assms(1) by (simp add: lm_inv_def)
  have "over_full c p \<le> holds_mutex c p" for c :: "('a, 'b) lm_call" and p
    by (cases "(c, p)" rule: over_full.cases) (simp_all add: nonnegs)
  then have "running over_full t \<le> running holds_mutex t" for t :: "('a, 'b) lm_thread"
    by (simp add: running_def split: option.splits)
  then have "tsum (running over_full) ts \<le> tsum (running holds_mutex) ts"
    unfolding tsum_def by (intro sum_list_mono)
  also have "\<dots> \<le> 1" using inv by (simp add: lm_inv_def)
  finally have "int (length (lm_keys m)) \<le> maxSize + 1" using l by simp
  moreover have "distinct (lm_keys m) \<and> set (lm_keys m) = dom (lm_map m) \<and> int (length (lm_keys m)) \<le> maxSize"
    if "\<forall>t \<in> set ts. th_cur t = None"
  proof -
    have z: "tsum (running f) ts = 0" for f using that by (intro tsum_zero) (simp add: running_def)
    have c: "int (count_list (lm_keys m) k) = (if lm_map m k = None then 0 else 1)" for k
      using inv by (simp add: lm_inv_def z)
    then have "count_list (lm_keys m) k \<le> 1" for k by (metis of_nat_le_iff of_nat_1 le_refl zero_le_one)
    then have "distinct (lm_keys m)" by (rule distinct_if_count)
    moreover have "k \<in> set (lm_keys m) \<longleftrightarrow> k \<in> dom (lm_map m)" for k
      using c[of k] count_list_0_iff[of "lm_keys m" k] by (auto simp: dom_def split: if_splits)
    ultimately show ?thesis using l z by auto
  qed
  ultimately show ?thesis by blast
qed

theorem LinkedMap_bounded_witness:
  "case run_sched (\<lambda>_. LmEnter) lm_body (replicate 30 0 @ replicate 30 1)
      (NewLinkedMap 2, map thread_start [[LmAdd 1 True, LmAdd 2 True], [LmAdd 3 False, LmAdd 2 False]]) of
     (m, ts) \<Rightarrow> lm_keys m = [2, 3 :: nat] \<and> dom (lm_map m) = {2, 3}"
proof -
  let ?css = "[[LmAdd (1 :: nat) True, LmAdd 2 True], [LmAdd 3 False, LmAdd 2 False]]"
  let ?sched = "replicate 30 0 @ replicate 30 (1 :: nat)"
  obtain m ts where r: "run_sched (\<lambda>_. LmEnter) lm_body ?sched (NewLinkedMap 2, map thread_start ?css) = (m, ts)"
    by fastforce
  have re: "pool_reach (\<lambda>_. LmEnter) lm_body (NewLinkedMap 2, map thread_start ?css) (m, ts)"
    using run_sched_reach[of "\<lambda>_. LmEnter" lm_body "(NewLinkedMap 2, map thread_start ?css)" ?sched] r by simp
  have f: "(\<forall>t \<in> set ts. th_cur t = None) \<and> lm_keys m = [2, 3]"
    using r by (simp add: NewLinkedMap_def thread_start_def numeral_eq_Suc) auto
  then show ?thesis using LinkedMap_bounded[OF _ re] unfolding r by auto
qed

end
