(* ===== verification/Arc_Swap.thy ===== *)
theory Arc_Swap
  imports Threads
begin

section \<open>arcswap.ArcSwap\<close>

text \<open>
  \<open>rivetxcore/arcswap/arc_swap.go\<close>: an atomic pointer. A pointer is an address, \<open>None\<close> is nil;
  every access of it is one step. \<open>LoadOrStore\<close> loads and, where it finds nil, tries to swap its own
  pointer in, again and again.
\<close>

record ArcSwap =
  as_ptr :: "nat option"

definition NewArcSwap :: "nat option \<Rightarrow> ArcSwap" where
  "NewArcSwap initial = \<lparr>as_ptr = initial\<rparr>"

definition ArcSwap_Load :: "ArcSwap \<Rightarrow> nat option" where
  "ArcSwap_Load as = as_ptr as"
definition ArcSwap_Store :: "ArcSwap \<Rightarrow> nat option \<Rightarrow> ArcSwap" where
  "ArcSwap_Store as newVal = as\<lparr>as_ptr := newVal\<rparr>"
definition ArcSwap_Swap :: "ArcSwap \<Rightarrow> nat option \<Rightarrow> ArcSwap \<times> nat option" where
  "ArcSwap_Swap as newVal = (as\<lparr>as_ptr := newVal\<rparr>, as_ptr as)"
definition ArcSwap_CompareAndSwap :: "ArcSwap \<Rightarrow> nat option \<Rightarrow> nat option \<Rightarrow> ArcSwap \<times> bool" where
  "ArcSwap_CompareAndSwap as old new =
     (if as_ptr as = old then (as\<lparr>as_ptr := new\<rparr>, True) else (as, False))"

datatype as_call =
    AsLoad | AsStore "nat option" | AsSwap "nat option" | AsCAS "nat option" "nat option"
  | AsLoadOrStore "nat option"

datatype as_pc = AsEnter | AsTry

datatype as_ret = AsUnit | AsPtr "nat option" | AsBool bool | AsGot "nat option" bool

fun ArcSwap_LoadOrStore :: "ArcSwap \<Rightarrow> nat option \<Rightarrow> as_pc \<Rightarrow> (ArcSwap \<times> (as_pc + as_ret)) option" where
  "ArcSwap_LoadOrStore as newVal AsEnter =
     (let current = ArcSwap_Load as
      in if current \<noteq> None then Some (as, Inr (AsGot current False)) else Some (as, Inl AsTry))"
| "ArcSwap_LoadOrStore as newVal AsTry =
     (case ArcSwap_CompareAndSwap as None newVal of
        (as', True) \<Rightarrow> Some (as', Inr (AsGot newVal True))
      | (as', False) \<Rightarrow> Some (as', Inl AsEnter))"

fun as_body :: "(ArcSwap, as_call, as_pc, as_ret) body" where
  "as_body as (AsLoadOrStore newVal) p = ArcSwap_LoadOrStore as newVal p"
| "as_body as AsLoad p = Some (as, Inr (AsPtr (ArcSwap_Load as)))"
| "as_body as (AsStore newVal) p = Some (ArcSwap_Store as newVal, Inr AsUnit)"
| "as_body as (AsSwap newVal) p = (case ArcSwap_Swap as newVal of (as', old) \<Rightarrow> Some (as', Inr (AsPtr old)))"
| "as_body as (AsCAS old new) p =
     (case ArcSwap_CompareAndSwap as old new of (as', b) \<Rightarrow> Some (as', Inr (AsBool b)))"

subsection \<open>Agreement on the first pointer\<close>

type_synonym as_thread = "(as_call, as_pc, as_ret) thread"

text \<open>Calls that leave a pointer that is set as it is.\<close>

fun as_init_call :: "as_call \<Rightarrow> bool" where
  "as_init_call AsLoad = True"
| "as_init_call (AsLoadOrStore (Some p)) = True"
| "as_init_call _ = False"

definition got_ok :: "nat option \<Rightarrow> as_call \<times> as_ret \<Rightarrow> bool" where
  "got_ok cur cr \<longleftrightarrow>
     (case cr of
        (AsLoadOrStore v, AsGot q b) \<Rightarrow> q = cur \<and> cur \<noteq> None \<and> (b \<longrightarrow> q = v)
      | (AsLoad, AsPtr q) \<Rightarrow> q = None \<or> q = cur
      | _ \<Rightarrow> False)"

definition winners :: "as_thread \<Rightarrow> int" where
  "winners t = int (length (filter (\<lambda>(c, r). \<exists>q. r = AsGot q True) (th_done t)))"

definition as_inv :: "ArcSwap \<Rightarrow> as_thread list \<Rightarrow> bool" where
  "as_inv as ts \<longleftrightarrow>
     (\<forall>t \<in> set ts. list_all as_init_call (th_todo t) \<and>
        (\<forall>c p. th_cur t = Some (c, p) \<longrightarrow> as_init_call c) \<and>
        (\<forall>cr \<in> set (th_done t). got_ok (as_ptr as) cr)) \<and>
     tsum winners ts = (if as_ptr as = None then 0 else 1)"


lemma as_inv_update:
  assumes "as_inv as ts" and "i < length ts"
    and keep: "as_ptr as' = as_ptr as \<or> as_ptr as = None"
    and "list_all as_init_call (th_todo t)" and "\<And>c p. th_cur t = Some (c, p) \<Longrightarrow> as_init_call c"
    and "th_done t = th_done (ts ! i) @ rs" and "\<And>cr. cr \<in> set rs \<Longrightarrow> got_ok (as_ptr as') cr"
    and w: "winners t = winners (ts ! i) + (if as_ptr as' = as_ptr as then 0 else 1)"
    and ne: "as_ptr as' \<noteq> as_ptr as \<Longrightarrow> as_ptr as' \<noteq> None"
  shows "as_inv as' (ts[i := t])"
proof -
  have up: "got_ok (as_ptr as') cr" if "got_ok (as_ptr as) cr" for cr
    using that keep ne by (cases cr) (auto simp: got_ok_def split: as_call.splits as_ret.splits)
  have old: "u \<in> set ts \<Longrightarrow> cr \<in> set (th_done u) \<Longrightarrow> got_ok (as_ptr as') cr" for u cr
    using assms(1) up by (auto simp: as_inv_def)
  have "tsum winners (ts[i := t]) = (if as_ptr as' = None then 0 else 1)"
    using assms(1,2) w keep ne by (auto simp: as_inv_def tsum_update)
  moreover have "list_all as_init_call (th_todo u) \<and> (\<forall>c p. th_cur u = Some (c, p) \<longrightarrow> as_init_call c) \<and>
      (\<forall>cr \<in> set (th_done u). got_ok (as_ptr as') cr)" if "u \<in> set (ts[i := t])" for u
  proof -
    from that have "u = t \<or> u \<in> set ts" using set_update_subset_insert by fast
    then show ?thesis
    proof
      assume "u = t"
      then show ?thesis using assms(2,4-7) old[of "ts ! i"] by auto
    next
      assume "u \<in> set ts"
      then show ?thesis using assms(1) old by (auto simp: as_inv_def)
    qed
  qed
  ultimately show ?thesis by (simp add: as_inv_def)
qed

lemma as_inv_thread:
  assumes "as_inv as ts" and "i < length ts"
  shows "list_all as_init_call (th_todo (ts ! i))" and "th_cur (ts ! i) = Some (c, p) \<Longrightarrow> as_init_call c"
  using assms by (auto simp: as_inv_def dest!: bspec[OF _ nth_mem])

interpretation as_pool: pool_invariant "\<lambda>_. AsEnter" as_body as_inv
proof
  fix as ts i c cs
  assume a: "as_inv as ts" "i < length ts" "th_cur (ts ! i) = None" "th_todo (ts ! i) = c # cs"
  from as_inv_thread(1)[OF a(1,2)] have "list_all as_init_call (c # cs)" by (simp only: a(4))
  then show "as_inv as (ts[i := (ts ! i)\<lparr>th_todo := cs, th_cur := Some (c, AsEnter)\<rparr>])"
    by (intro as_inv_update[OF a(1,2), where rs = "[]"]) (auto simp: winners_def)
next
  fix as ts i c p as' p'
  assume a: "as_inv as ts" "i < length ts" "th_cur (ts ! i) = Some (c, p)" "as_body as c p = Some (as', Inl p')"
  then have "as_init_call c" "list_all as_init_call (th_todo (ts ! i))" by (auto dest: as_inv_thread)
  moreover have "as' = as" using a(4)
    by (cases c; cases p) (auto simp: ArcSwap_CompareAndSwap_def ArcSwap_Swap_def Let_def split: if_splits)
  ultimately show "as_inv as' (ts[i := (ts ! i)\<lparr>th_cur := Some (c, p')\<rparr>])"
    by (intro as_inv_update[OF a(1,2), where rs = "[]"]) (auto simp: winners_def)
next
  fix as ts i c p as' r
  assume a: "as_inv as ts" "i < length ts" "th_cur (ts ! i) = Some (c, p)" "as_body as c p = Some (as', Inr r)"
  then have c: "as_init_call c" and td: "list_all as_init_call (th_todo (ts ! i))" by (auto dest: as_inv_thread)
  have "(as_ptr as' = as_ptr as \<and> (\<forall>q. r \<noteq> AsGot q True) \<or> as_ptr as = None \<and> as_ptr as' \<noteq> None \<and> (\<exists>q. r = AsGot q True)) \<and>
      got_ok (as_ptr as') (c, r)"
    using a(4) c
    by (cases "(as, c, p)" rule: as_body.cases; cases p; cases c rule: as_init_call.cases)
      (auto simp: ArcSwap_CompareAndSwap_def ArcSwap_Load_def Let_def got_ok_def split: if_splits)
  then show "as_inv as' (ts[i := (ts ! i)\<lparr>th_cur := None, th_done := th_done (ts ! i) @ [(c, r)]\<rparr>])"
    using td by (intro as_inv_update[OF a(1,2), where rs = "[(c, r)]"]) (auto simp: winners_def)
qed

text \<open>C38: goroutines that only load, or initialise the pointer with \<open>LoadOrStore\<close> of a pointer that is
  not nil, agree: every \<open>LoadOrStore\<close> returns the pointer that is stored in the end, the one that
  reports \<open>true\<close> returns its own, and exactly one does when any has returned.\<close>

theorem ArcSwap_LoadOrStore_agrees:
  assumes "\<forall>cs \<in> set css. list_all as_init_call cs"
    and "pool_reach (\<lambda>_. AsEnter) as_body (NewArcSwap None, map thread_start css) (as, ts)"
  shows "(\<forall>t \<in> set ts. \<forall>(c, r) \<in> set (th_done t). \<forall>v q b. c = AsLoadOrStore v \<and> r = AsGot q b \<longrightarrow>
      q = ArcSwap_Load as \<and> q \<noteq> None \<and> (b \<longrightarrow> q = v)) \<and>
    (\<Sum>t\<leftarrow>ts. length (filter (\<lambda>(c, r). \<exists>q. r = AsGot q True) (th_done t))) =
      (if ArcSwap_Load as = None then 0 else 1)"
proof -
  have z: "tsum winners (map thread_start css) = 0"
    by (intro tsum_zero) (auto simp: winners_def thread_start_def)
  have "as_inv (NewArcSwap None) (map thread_start css)"
    using assms(1) z by (auto simp: as_inv_def NewArcSwap_def thread_start_def)
  then have inv: "as_inv as ts" by (rule as_pool.reach_I[OF assms(2)])
  have "tsum winners ts = int (\<Sum>t\<leftarrow>ts. length (filter (\<lambda>(c, r). \<exists>q. r = AsGot q True) (th_done t)))"
    by (induction ts) (simp_all add: tsum_def winners_def)
  then have "(\<Sum>t\<leftarrow>ts. length (filter (\<lambda>(c, r). \<exists>q. r = AsGot q True) (th_done t))) =
      (if ArcSwap_Load as = None then 0 else 1)"
    using inv by (simp add: as_inv_def ArcSwap_Load_def split: if_splits)
  then show ?thesis using inv by (fastforce simp: as_inv_def got_ok_def ArcSwap_Load_def)
qed

theorem ArcSwap_LoadOrStore_agrees_witness:
  "case run_sched (\<lambda>_. AsEnter) as_body [0, 1, 0, 1, 0, 1, 1]
      (NewArcSwap None, map thread_start [[AsLoadOrStore (Some 1)], [AsLoadOrStore (Some 2)]]) of
     (as, ts) \<Rightarrow> th_done (ts ! 1) = [(AsLoadOrStore (Some 2), AsGot (Some 1) False)] \<and> ArcSwap_Load as = Some 1"
proof -
  let ?css = "[[AsLoadOrStore (Some 1)], [AsLoadOrStore (Some 2)]]"
  let ?sched = "[0, 1, 0, 1, 0, 1, 1 :: nat]"
  obtain as ts where r: "run_sched (\<lambda>_. AsEnter) as_body ?sched (NewArcSwap None, map thread_start ?css) = (as, ts)"
    by fastforce
  have re: "pool_reach (\<lambda>_. AsEnter) as_body (NewArcSwap None, map thread_start ?css) (as, ts)"
    using run_sched_reach[of "\<lambda>_. AsEnter" as_body "(NewArcSwap None, map thread_start ?css)" ?sched] r by simp
  have f: "as_ptr as = Some 1 \<and> (\<exists>q b. th_done (ts ! 1) = [(AsLoadOrStore (Some 2), AsGot q b)]) \<and> length ts = 2"
    using r by (simp add: NewArcSwap_def thread_start_def ArcSwap_Load_def ArcSwap_CompareAndSwap_def Let_def) auto
  then have "ts ! 1 \<in> set ts" by simp
  then show ?thesis using ArcSwap_LoadOrStore_agrees[OF _ re] f unfolding r by (fastforce simp: ArcSwap_Load_def)
qed

end
