(* ===== verification/Gox_Stat.thy ===== *)
theory Gox_Stat
  imports Prelude "HOL-Library.List_Lexorder" "HOL-Library.Char_ord"
begin

section \<open>Counters of gox\<close>

text \<open>
  \<open>rivetxcore/gox/stat.go\<close>: named pairs of 64-bit counters, what was started and what was ended. The
  map of the code holds pointers that never change once stored, so here it holds the pair.
\<close>

record StatNumContext =
  sc_StartNum :: "64 word"
  sc_EndNum :: "64 word"

type_synonym stats = "string \<rightharpoonup> StatNumContext"

definition zeroContext :: StatNumContext where
  "zeroContext = \<lparr>sc_StartNum = 0, sc_EndNum = 0\<rparr>"

definition StatNumDataGet :: "stats \<Rightarrow> string \<Rightarrow> stats \<times> StatNumContext" where
  "StatNumDataGet st key = (case st key of None \<Rightarrow> (st(key \<mapsto> zeroContext), zeroContext) | Some d \<Rightarrow> (st, d))"

definition stat_update :: "(StatNumContext \<Rightarrow> StatNumContext) \<Rightarrow> stats \<Rightarrow> string \<Rightarrow> stats" where
  "stat_update f st key = (case StatNumDataGet st key of (st', d) \<Rightarrow> st'(key \<mapsto> f d))"

definition StatNumStartAddN :: "stats \<Rightarrow> string \<Rightarrow> 64 word \<Rightarrow> stats" where
  "StatNumStartAddN st key num = stat_update (\<lambda>d. d\<lparr>sc_StartNum := sc_StartNum d + num\<rparr>) st key"
definition StatNumEndAddN :: "stats \<Rightarrow> string \<Rightarrow> 64 word \<Rightarrow> stats" where
  "StatNumEndAddN st key num = stat_update (\<lambda>d. d\<lparr>sc_EndNum := sc_EndNum d + num\<rparr>) st key"
definition StatNumStartAdd :: "stats \<Rightarrow> string \<Rightarrow> stats" where
  "StatNumStartAdd st key = stat_update (\<lambda>d. d\<lparr>sc_StartNum := sc_StartNum d + 1\<rparr>) st key"
definition StatNumEndAdd :: "stats \<Rightarrow> string \<Rightarrow> stats" where
  "StatNumEndAdd st key = stat_update (\<lambda>d. d\<lparr>sc_EndNum := sc_EndNum d + 1\<rparr>) st key"
definition StatNumStartSet :: "stats \<Rightarrow> string \<Rightarrow> 64 word \<Rightarrow> stats" where
  "StatNumStartSet st key num = stat_update (\<lambda>d. d\<lparr>sc_StartNum := num\<rparr>) st key"
definition StatNumEndSet :: "stats \<Rightarrow> string \<Rightarrow> 64 word \<Rightarrow> stats" where
  "StatNumEndSet st key num = stat_update (\<lambda>d. d\<lparr>sc_EndNum := num\<rparr>) st key"

definition StatNumData :: "stats \<Rightarrow> string \<Rightarrow> stats \<times> 64 word \<times> 64 word" where
  "StatNumData st key = (case StatNumDataGet st key of (st', d) \<Rightarrow> (st', sc_StartNum d, sc_EndNum d))"

text \<open>One round of the reporting goroutine: the registered functions in order, each on the state of the
  program, then the rows of the counters by key; \<open>order\<close> is the order in which the map is ranged.\<close>

definition StatFuncAdd :: "('s \<Rightarrow> 's) list \<Rightarrow> ('s \<Rightarrow> 's) \<Rightarrow> ('s \<Rightarrow> 's) list" where
  "StatFuncAdd fs f = fs @ [f]"

definition stat_funcs_round :: "('s \<Rightarrow> 's) list \<Rightarrow> 's \<Rightarrow> 's" where
  "stat_funcs_round fs s = fold (\<lambda>f. f) fs s"

definition stat_rows :: "stats \<Rightarrow> string list \<Rightarrow> (string \<times> 64 word \<times> 64 word \<times> 64 word) list" where
  "stat_rows st order =
     sort_key fst (map (\<lambda>k. let d = the (st k) in (k, sc_StartNum d, sc_EndNum d, sc_StartNum d - sc_EndNum d)) order)"

subsection \<open>What a counter reads\<close>

definition stat_of :: "stats \<Rightarrow> string \<Rightarrow> StatNumContext" where
  "stat_of st key = (case st key of None \<Rightarrow> zeroContext | Some d \<Rightarrow> d)"

lemma stat_of_update [simp]:
  "stat_of (stat_update f st key) k = (if k = key then f (stat_of st key) else stat_of st k)"
  by (simp add: stat_update_def StatNumDataGet_def stat_of_def split: option.splits)

lemmas stat_defs = StatNumStartAdd_def StatNumEndAdd_def StatNumStartAddN_def StatNumEndAddN_def
  StatNumStartSet_def StatNumEndSet_def

end
