(* ===== verification/Msg_Pool.thy ===== *)
theory Msg_Pool
  imports Gox_Stat
begin

section \<open>msgPool.Msg\<close>

text \<open>
  \<open>rivetxcore/msgPool/msg.go\<close>: messages with a reference count, kept in pools by the size of their
  buffer. Messages are addresses of a heap. A \<open>sync.Pool\<close> may hand out any message it holds or a new
  one: the first argument of \<open>GetMsg\<close> says which. Log lines are left out, the counters are not.
\<close>

definition msgPoolsBlock :: int where "msgPoolsBlock = 64"
definition msgPools_len :: int where "msgPools_len = 16384"

record Msg =
  m_RefCount :: "32 word"
  m_Size :: int
  m_Cap :: int
  m_Datas :: "byte list"
  m_Pool :: "int option"

record MsgState =
  mp_heap :: "Msg list"
  mp_pools :: "int \<Rightarrow> nat list"
  mp_open :: bool
  mp_stats :: stats

definition msg_at :: "MsgState \<Rightarrow> nat \<Rightarrow> Msg" where
  "msg_at s a = mp_heap s ! a"
definition set_msg :: "MsgState \<Rightarrow> nat \<Rightarrow> Msg \<Rightarrow> MsgState" where
  "set_msg s a x = s\<lparr>mp_heap := (mp_heap s)[a := x]\<rparr>"
definition stat_end :: "MsgState \<Rightarrow> string \<Rightarrow> MsgState" where
  "stat_end s key = s\<lparr>mp_stats := StatNumEndAdd (mp_stats s) key\<rparr>"
definition stat_start :: "MsgState \<Rightarrow> string \<Rightarrow> MsgState" where
  "stat_start s key = s\<lparr>mp_stats := StatNumStartAdd (mp_stats s) key\<rparr>"

definition SetMsgPoolFlag :: "MsgState \<Rightarrow> bool \<Rightarrow> MsgState" where
  "SetMsgPoolFlag s isOpen = s\<lparr>mp_open := isOpen\<rparr>"

text \<open>A call returns the state with its result: what was counted before a panic stays, since the
  goroutines of gox recover.\<close>

type_synonym 'a mres = "MsgState \<times> 'a go"

text \<open>A negative capacity panics in \<open>make\<close>.\<close>

definition NewMsg :: "MsgState \<Rightarrow> int \<Rightarrow> int option \<Rightarrow> nat mres" where
  "NewMsg s cap pool =
     (if cap < 0 then (s, Inl MakeSliceCap)
      else (s\<lparr>mp_heap := mp_heap s @ [\<lparr>m_RefCount = 0, m_Size = 0, m_Cap = cap,
                m_Datas = replicate (nat cap) 0, m_Pool = pool\<rparr>]\<rparr>, Inr (length (mp_heap s))))"

definition NewMsgFromBytes :: "MsgState \<Rightarrow> byte list \<Rightarrow> MsgState \<times> nat" where
  "NewMsgFromBytes s data =
     (s\<lparr>mp_heap := mp_heap s @ [\<lparr>m_RefCount = 1, m_Size = int (length data), m_Cap = int (length data),
         m_Datas = data, m_Pool = None\<rparr>]\<rparr>, length (mp_heap s))"

definition Msg_Init :: "MsgState \<Rightarrow> nat \<Rightarrow> int \<Rightarrow> unit mres" where
  "Msg_Init s a sz =
     (if m_Cap (msg_at s a) < sz then (stat_end s ''etcp_msg_err_Init'', Inl MsgInitSize)
      else (stat_start (set_msg s a ((msg_at s a)\<lparr>m_Size := sz, m_RefCount := 1\<rparr>)) ''etcp_msg'', Inr ()))"

text \<open>\<open>Get\<close> of a pool: the message at position \<open>k\<close> of those it holds, or a new one.\<close>

definition pool_Get :: "nat option \<Rightarrow> MsgState \<Rightarrow> int \<Rightarrow> nat mres" where
  "pool_Get choice s index =
     (let held = mp_pools s index; fresh = NewMsg s ((index + 1) * msgPoolsBlock) (Some index)
      in case choice of
           None \<Rightarrow> fresh
         | Some k \<Rightarrow>
             if k < length held
             then (s\<lparr>mp_pools := (mp_pools s)(index := take k held @ drop (Suc k) held)\<rparr>, Inr (held ! k))
             else fresh)"

definition init_msg :: "int \<Rightarrow> MsgState \<Rightarrow> nat \<Rightarrow> nat mres" where
  "init_msg sz s a = (case Msg_Init s a sz of (s', r) \<Rightarrow> (s', map_sum id (\<lambda>_. a) r))"

definition GetMsg :: "nat option \<Rightarrow> MsgState \<Rightarrow> int \<Rightarrow> nat mres" where
  "GetMsg choice s sz =
     (let index = (sz + msgPoolsBlock - 1) sdiv msgPoolsBlock
      in if \<not> mp_open s \<or> msgPools_len \<le> index
         then (case NewMsg s ((index + 1) * msgPoolsBlock) None of
                 (s', Inl p) \<Rightarrow> (s', Inl p)
               | (s', Inr a) \<Rightarrow> init_msg sz s' a)
         else if index < 0 then (s, Inl IndexRange)
         else (case pool_Get choice s index of
                 (s', Inl p) \<Rightarrow> (s', Inl p)
               | (s', Inr a) \<Rightarrow>
                   if 0 <s m_RefCount (msg_at s' a)
                   then (stat_end s' ''etcp_msg_err_Get'', Inl MsgRefCount)
                   else init_msg sz s' a))"

definition Msg_GetData :: "MsgState \<Rightarrow> nat \<Rightarrow> byte list mres" where
  "Msg_GetData s a =
     (let x = msg_at s a
      in if m_RefCount x \<le>s 0 then (stat_end s ''etcp_msg_err_GetData'', Inl MsgRefCount)
         else if m_Size x < 0 \<or> int (length (m_Datas x)) < m_Size x then (s, Inl SliceBounds)
         else (s, Inr (take (nat (m_Size x)) (m_Datas x))))"

definition Msg_Clone :: "MsgState \<Rightarrow> nat \<Rightarrow> nat mres" where
  "Msg_Clone s a =
     (let x = msg_at s a
      in if m_RefCount x \<le>s 0 then (stat_end s ''etcp_msg_err_Clone'', Inl MsgRefCount)
         else (set_msg s a (x\<lparr>m_RefCount := m_RefCount x + 1\<rparr>), Inr a))"

definition Msg_Put :: "MsgState \<Rightarrow> nat \<Rightarrow> unit mres" where
  "Msg_Put s a =
     (let x = msg_at s a; n = m_RefCount x - 1; s1 = set_msg s a (x\<lparr>m_RefCount := n\<rparr>)
      in if n = 0
         then (let s2 = stat_end s1 ''etcp_msg''
               in case m_Pool x of
                    None \<Rightarrow> (s2, Inr ())
                  | Some i \<Rightarrow> (s2\<lparr>mp_pools := (mp_pools s2)(i := mp_pools s2 i @ [a])\<rparr>, Inr ()))
         else if n <s 0 then (stat_end s1 ''etcp_msg_err_put'', Inl MsgRefCount)
         else (s1, Inr ()))"

subsection \<open>Users that keep to their references\<close>

text \<open>
  An operation of a user names the message by its address. \<open>refs\<close> counts the references the users
  hold: one from \<open>GetMsg\<close>, one more from every \<open>Clone\<close>, one less from every \<open>Put\<close>.
\<close>

datatype msg_op = OpGet "nat option" int | OpClone nat | OpPut nat | OpGetData nat

fun op_ok :: "(nat \<Rightarrow> nat) \<Rightarrow> msg_op \<Rightarrow> bool" where
  "op_ok refs (OpGet _ sz) = (0 \<le> sz \<and> sz \<le> 2 ^ 62)"
| "op_ok refs (OpClone a) = (0 < refs a \<and> refs a < 2 ^ 31 - 1)"
| "op_ok refs (OpPut a) = (0 < refs a)"
| "op_ok refs (OpGetData a) = (0 < refs a)"

fun run_op :: "MsgState \<times> (nat \<Rightarrow> nat) \<Rightarrow> msg_op \<Rightarrow> (MsgState \<times> (nat \<Rightarrow> nat)) go" where
  "run_op (s, refs) (OpGet choice sz) =
     (case GetMsg choice s sz of (s', r) \<Rightarrow> map_sum id (\<lambda>a. (s', refs(a := Suc (refs a)))) r)"
| "run_op (s, refs) (OpClone a) = (case Msg_Clone s a of (s', r) \<Rightarrow> map_sum id (\<lambda>_. (s', refs(a := Suc (refs a)))) r)"
| "run_op (s, refs) (OpPut a) = (case Msg_Put s a of (s', r) \<Rightarrow> map_sum id (\<lambda>_. (s', refs(a := refs a - 1))) r)"
| "run_op (s, refs) (OpGetData a) = (case Msg_GetData s a of (s', r) \<Rightarrow> map_sum id (\<lambda>_. (s', refs)) r)"

text \<open>The run of the operations, up to the first one that its user may not do.\<close>

fun run_ops :: "MsgState \<times> (nat \<Rightarrow> nat) \<Rightarrow> msg_op list \<Rightarrow> (MsgState \<times> (nat \<Rightarrow> nat)) go" where
  "run_ops st [] = Inr st"
| "run_ops st (op # ops) =
     (if op_ok (snd st) op
      then (case run_op st op of Inl p \<Rightarrow> Inl p | Inr st' \<Rightarrow> run_ops st' ops)
      else Inr st)"

definition msg_inv :: "MsgState \<Rightarrow> (nat \<Rightarrow> nat) \<Rightarrow> bool" where
  "msg_inv s refs \<longleftrightarrow>
     (\<forall>a. length (mp_heap s) \<le> a \<longrightarrow> refs a = 0) \<and>
     (\<forall>a<length (mp_heap s). let x = msg_at s a in
        refs a < 2 ^ 31 \<and> m_RefCount x = word_of_nat (refs a) \<and>
        int (length (m_Datas x)) = m_Cap x \<and> 0 \<le> m_Size x \<and> m_Size x \<le> m_Cap x \<and>
        (\<forall>i. m_Pool x = Some i \<longrightarrow> m_Cap x = (i + 1) * msgPoolsBlock)) \<and>
     (\<forall>i. distinct (mp_pools s i) \<and>
        (\<forall>a \<in> set (mp_pools s i). a < length (mp_heap s) \<and> refs a = 0 \<and> m_Pool (msg_at s a) = Some i))"


lemma sint_refs: "n < 2 ^ 31 \<Longrightarrow> sint (word_of_nat n :: 32 word) = int n"
  by (simp add: sint_uint unsigned_of_nat take_bit_nat_eq_self take_bit_int_eq_self signed_take_bit_int_eq_self
      flip: of_nat_take_bit)

lemma msg_held:
  assumes "msg_inv s refs" and "0 < refs a"
  shows "a < length (mp_heap s)" and "m_RefCount (msg_at s a) = word_of_nat (refs a)"
    and "sint (m_RefCount (msg_at s a)) = int (refs a)" and "refs a < 2 ^ 31"
    and "\<And>i. a \<notin> set (mp_pools s i)"
proof -
  show l: "a < length (mp_heap s)" using assms by (metis msg_inv_def not_le less_irrefl)
  then show r: "m_RefCount (msg_at s a) = word_of_nat (refs a)" and b: "refs a < 2 ^ 31"
    using assms(1) by (simp_all add: msg_inv_def Let_def)
  show "sint (m_RefCount (msg_at s a)) = int (refs a)" using r b by (simp add: sint_refs)
  show "\<And>i. a \<notin> set (mp_pools s i)" using assms by (auto simp: msg_inv_def)
qed

lemma stats_only [simp]:
  "msg_inv (s\<lparr>mp_stats := x\<rparr>) refs = msg_inv s refs"
  "msg_inv (stat_end s k) refs = msg_inv s refs" "msg_inv (stat_start s k) refs = msg_inv s refs"
  by (simp_all add: msg_inv_def msg_at_def stat_end_def stat_start_def)

text \<open>Only the count and the size of one message change.\<close>

lemma set_msg_inv:
  assumes inv: "msg_inv s refs" and a: "a < length (mp_heap s)"
    and n: "n < 2 ^ 31" and z: "0 \<le> z" "z \<le> m_Cap (msg_at s a)"
    and free: "0 < n \<Longrightarrow> (\<forall>i. a \<notin> set (mp_pools s i))"
  shows "msg_inv (set_msg s a ((msg_at s a)\<lparr>m_Size := z, m_RefCount := word_of_nat n\<rparr>)) (refs(a := n))"
  using assms by (auto simp: msg_inv_def Let_def set_msg_def msg_at_def nth_list_update)

lemma set_count_inv:
  assumes inv: "msg_inv s refs" and a: "a < length (mp_heap s)" and n: "n < 2 ^ 31"
    and free: "\<forall>i. a \<notin> set (mp_pools s i)"
  shows "msg_inv (set_msg s a ((msg_at s a)\<lparr>m_RefCount := word_of_nat n\<rparr>)) (refs(a := n))"
proof -
  have "0 \<le> m_Size (msg_at s a)" "m_Size (msg_at s a) \<le> m_Cap (msg_at s a)"
    using inv a by (simp_all add: msg_inv_def Let_def)
  from set_msg_inv[OF inv a n this] free show ?thesis by simp
qed

lemma new_msg_inv:
  assumes "msg_inv s refs" and "0 \<le> cap" and "\<And>i. pool = Some i \<Longrightarrow> cap = (i + 1) * msgPoolsBlock"
  shows "case NewMsg s cap pool of (s', r) \<Rightarrow> r = Inr (length (mp_heap s)) \<and> msg_inv s' refs \<and>
    length (mp_heap s) < length (mp_heap s') \<and> m_Cap (msg_at s' (length (mp_heap s))) = cap \<and>
    mp_pools s' = mp_pools s"
  using assms by (auto simp: NewMsg_def msg_inv_def Let_def msg_at_def nth_append less_Suc_eq; fastforce)


text \<open>What a pool hands out: a message nobody holds, in no pool, large enough.\<close>

definition handed :: "MsgState \<Rightarrow> (nat \<Rightarrow> nat) \<Rightarrow> nat \<Rightarrow> int \<Rightarrow> bool" where
  "handed s refs a cap \<longleftrightarrow> msg_inv s refs \<and> a < length (mp_heap s) \<and> refs a = 0 \<and> m_Cap (msg_at s a) = cap \<and>
     (\<forall>i. a \<notin> set (mp_pools s i))"

lemma new_msg_handed:
  assumes inv: "msg_inv s refs" and "0 \<le> cap" and "\<And>i. pool = Some i \<Longrightarrow> cap = (i + 1) * msgPoolsBlock"
  shows "\<exists>s' a. NewMsg s cap pool = (s', Inr a) \<and> handed s' refs a cap"
proof -
  obtain s' r where n: "NewMsg s cap pool = (s', r)" by fastforce
  then have "r = Inr (length (mp_heap s)) \<and> msg_inv s' refs \<and> length (mp_heap s) < length (mp_heap s') \<and>
      m_Cap (msg_at s' (length (mp_heap s))) = cap \<and> mp_pools s' = mp_pools s"
    using new_msg_inv[of s refs cap pool] assms by auto
  moreover have "refs (length (mp_heap s)) = 0" using inv by (auto simp: msg_inv_def)
  moreover have "length (mp_heap s) \<notin> set (mp_pools s i)" for i using inv by (fastforce simp: msg_inv_def)
  ultimately show ?thesis using n by (simp add: handed_def)
qed

lemma pool_Get_handed:
  assumes inv: "msg_inv s refs" and i: "0 \<le> index"
  shows "\<exists>s' a. pool_Get choice s index = (s', Inr a) \<and> handed s' refs a ((index + 1) * msgPoolsBlock)"
proof (cases "\<exists>k. choice = Some k \<and> k < length (mp_pools s index)")
  case True
  then obtain k where k: "choice = Some k" "k < length (mp_pools s index)" by blast
  let ?held = "mp_pools s index" and ?a = "mp_pools s index ! k"
  let ?rest = "take k ?held @ drop (Suc k) ?held"
  let ?s = "s\<lparr>mp_pools := (mp_pools s)(index := ?rest)\<rparr>"
  have d: "distinct ?held" and mem: "?a \<in> set ?held" using inv k(2) by (simp_all add: msg_inv_def)
  have split: "?held = take k ?held @ ?a # drop (Suc k) ?held" using k(2) by (rule id_take_nth_drop)
  then have "distinct (take k ?held @ ?a # drop (Suc k) ?held)" using d by simp
  then have rest: "distinct ?rest" "?a \<notin> set ?rest" by auto
  have sub: "set ?rest \<subseteq> set ?held" by (auto dest: in_set_takeD in_set_dropD)
  have a: "?a < length (mp_heap s)" "refs ?a = 0" "m_Pool (msg_at s ?a) = Some index"
    using inv mem by (simp_all add: msg_inv_def)
  have "m_Cap (msg_at s ?a) = (index + 1) * msgPoolsBlock" using inv a by (simp add: msg_inv_def Let_def)
  moreover have "msg_inv ?s refs" using inv rest(1) sub by (auto simp: msg_inv_def msg_at_def)
  moreover have "?a \<notin> set (mp_pools ?s j)" for j
    using inv rest(2) a(3) by (cases "j = index") (auto simp: msg_inv_def)
  ultimately have "handed ?s refs ?a ((index + 1) * msgPoolsBlock)"
    using a by (simp add: handed_def msg_at_def)
  then show ?thesis using k by (auto simp: pool_Get_def Let_def)
next
  case False
  then have "pool_Get choice s index = NewMsg s ((index + 1) * msgPoolsBlock) (Some index)"
    by (auto simp: pool_Get_def Let_def split: option.splits)
  then show ?thesis using new_msg_handed[OF inv, of "(index + 1) * msgPoolsBlock" "Some index"] i
    by (simp add: msgPoolsBlock_def)
qed

lemma init_msg_ok:
  assumes h: "handed s refs a cap" and "0 \<le> sz" and "sz \<le> cap"
  shows "\<exists>s'. init_msg sz s a = (s', Inr a) \<and> msg_inv s' (refs(a := 1)) \<and>
    (\<exists>d. Msg_GetData s' a = (s', Inr d) \<and> int (length d) = sz)"
proof -
  let ?s = "set_msg s a ((msg_at s a)\<lparr>m_Size := sz, m_RefCount := 1\<rparr>)"
  have inv: "msg_inv s refs" and a: "a < length (mp_heap s)" and c: "m_Cap (msg_at s a) = cap"
    and free: "\<forall>i. a \<notin> set (mp_pools s i)"
    using h by (simp_all add: handed_def)
  have i: "msg_inv ?s (refs(a := 1))"
    using set_msg_inv[OF inv a, of 1 sz] c free assms(2,3) by simp
  have "int (length (m_Datas (msg_at s a))) = cap" using inv a c by (simp add: msg_inv_def Let_def)
  moreover have x: "msg_at (stat_start ?s k) a = (msg_at s a)\<lparr>m_Size := sz, m_RefCount := 1\<rparr>" for k
    using a by (simp add: set_msg_def stat_start_def msg_at_def)
  ultimately have "Msg_GetData (stat_start ?s k) a = (stat_start ?s k, Inr (take (nat sz) (m_Datas (msg_at s a))))" for k
    using assms(2,3) by (simp add: Msg_GetData_def Let_def x word_sle_eq)
  then show ?thesis
    using i c assms(2,3) \<open>int (length (m_Datas (msg_at s a))) = cap\<close>
    by (auto simp: init_msg_def Msg_Init_def min_def nat_le_iff)
qed

lemma GetMsg_ok:
  assumes inv: "msg_inv s refs" and sz: "0 \<le> sz"
  shows "\<exists>s' a. GetMsg choice s sz = (s', Inr a) \<and> refs a = 0 \<and> msg_inv s' (refs(a := 1)) \<and>
    (\<exists>d. Msg_GetData s' a = (s', Inr d) \<and> int (length d) = sz)"
proof -
  let ?i = "(sz + msgPoolsBlock - 1) sdiv msgPoolsBlock"
  have d: "?i = (sz + 63) div 64" using sz by (simp add: msgPoolsBlock_def signed_divide_int_def sgn_if)
  then have i: "0 \<le> ?i" and c: "sz \<le> (?i + 1) * msgPoolsBlock" using sz by (simp_all add: msgPoolsBlock_def)
  show ?thesis
  proof (cases "\<not> mp_open s \<or> msgPools_len \<le> ?i")
    case True
    obtain s1 a where n: "NewMsg s ((?i + 1) * msgPoolsBlock) None = (s1, Inr a)" "handed s1 refs a ((?i + 1) * msgPoolsBlock)"
      using new_msg_handed[OF inv, of "(?i + 1) * msgPoolsBlock" None] i by (auto simp: msgPoolsBlock_def)
    from init_msg_ok[OF n(2) sz c] n(2) True n(1) show ?thesis
      by (auto simp: GetMsg_def Let_def handed_def)
  next
    case False
    obtain s1 a where n: "pool_Get choice s ?i = (s1, Inr a)" "handed s1 refs a ((?i + 1) * msgPoolsBlock)"
      using pool_Get_handed[OF inv i] by blast
    then have "m_RefCount (msg_at s1 a) = 0" by (simp add: handed_def msg_inv_def Let_def)
    with init_msg_ok[OF n(2) sz c] n(2) False n(1) i show ?thesis
      by (auto simp: GetMsg_def Let_def handed_def word_sless_alt)
  qed
qed


lemma word_of_nat_minus_one: "0 < n \<Longrightarrow> word_of_nat n - 1 = (word_of_nat (n - 1) :: 32 word)"
  by (cases n) simp_all

lemma Clone_ok:
  assumes inv: "msg_inv s refs" and r: "0 < refs a" "refs a < 2 ^ 31 - 1"
  shows "\<exists>s'. Msg_Clone s a = (s', Inr a) \<and> msg_inv s' (refs(a := Suc (refs a)))"
proof -
  note h = msg_held[OF inv r(1)]
  have "msg_inv (set_msg s a ((msg_at s a)\<lparr>m_RefCount := word_of_nat (Suc (refs a))\<rparr>)) (refs(a := Suc (refs a)))"
    using r h(5) by (intro set_count_inv[OF inv h(1)]) auto
  moreover have "m_RefCount (msg_at s a) + 1 = word_of_nat (Suc (refs a))" using h(2) by (simp add: add.commute)
  ultimately show ?thesis using h(3) r by (simp add: Msg_Clone_def Let_def word_sle_eq add.commute)
qed

lemma Put_ok:
  assumes inv: "msg_inv s refs" and r: "0 < refs a"
  shows "\<exists>s'. Msg_Put s a = (s', Inr ()) \<and> msg_inv s' (refs(a := refs a - 1))"
proof -
  note h = msg_held[OF inv r]
  let ?x = "msg_at s a" and ?n = "m_RefCount (msg_at s a) - 1"
  have n: "?n = word_of_nat (refs a - 1)" unfolding h(2) using r by (rule word_of_nat_minus_one)
  let ?s1 = "set_msg s a (?x\<lparr>m_RefCount := ?n\<rparr>)"
  have i1: "msg_inv ?s1 (refs(a := refs a - 1))"
    unfolding n using h(4,5) by (intro set_count_inv[OF inv h(1)]) auto
  have sn: "sint ?n = int (refs a - 1)" unfolding n using h(4) by (intro sint_refs) auto
  show ?thesis
  proof (cases "refs a = 1")
    case True
    let ?s2 = "stat_end ?s1 ''etcp_msg''"
    have i2: "msg_inv ?s2 (refs(a := refs a - 1))" using i1 by simp
    have "msg_inv (?s2\<lparr>mp_pools := (mp_pools ?s2)(i := mp_pools ?s2 i @ [a])\<rparr>) (refs(a := refs a - 1))"
      if "m_Pool ?x = Some i" for i
    proof -
      have "a \<notin> set (mp_pools ?s2 i)" "m_Pool (msg_at ?s2 a) = Some i" "a < length (mp_heap ?s2)"
        using h(1,5) that by (simp_all add: stat_end_def set_msg_def msg_at_def)
      then show ?thesis using i2 True by (auto simp: msg_inv_def msg_at_def)
    qed
    then show ?thesis using True n i2 by (auto simp: Msg_Put_def Let_def split: option.splits)
  next
    case False
    then have "?n \<noteq> 0" using sn r by (metis sint_0 of_nat_eq_0_iff diff_is_0_eq le_antisym Suc_leI One_nat_def)
    moreover have "\<not> ?n <s 0" using sn by (simp add: word_sless_alt)
    ultimately show ?thesis using i1 by (simp add: Msg_Put_def Let_def)
  qed
qed

lemma GetData_ok:
  assumes inv: "msg_inv s refs" and r: "0 < refs a"
  shows "\<exists>d. Msg_GetData s a = (s, Inr d)"
proof -
  note h = msg_held[OF inv r]
  have "0 \<le> m_Size (msg_at s a)" "m_Size (msg_at s a) \<le> int (length (m_Datas (msg_at s a)))"
    using inv h(1) by (simp_all add: msg_inv_def Let_def)
  then show ?thesis using h(3) r by (auto simp: Msg_GetData_def Let_def word_sle_eq)
qed

lemma run_op_ok:
  assumes inv: "msg_inv s refs" and ok: "op_ok refs op"
  shows "\<exists>s' refs'. run_op (s, refs) op = Inr (s', refs') \<and> msg_inv s' refs'"
proof (cases op)
  case (OpGet choice sz)
  then obtain s' a where "GetMsg choice s sz = (s', Inr a)" "refs a = 0" "msg_inv s' (refs(a := 1))"
    using GetMsg_ok[OF inv, of sz choice] ok by auto
  then show ?thesis using OpGet by simp
next
  case (OpClone a)
  then show ?thesis using Clone_ok[OF inv, of a] ok by auto
next
  case (OpPut a)
  then show ?thesis using Put_ok[OF inv, of a] ok by auto
next
  case (OpGetData a)
  then show ?thesis using GetData_ok[OF inv, of a] ok inv by auto
qed

lemma run_ops_ok:
  "msg_inv s refs \<Longrightarrow> \<exists>s' refs'. run_ops (s, refs) ops = Inr (s', refs') \<and> msg_inv s' refs'"
proof (induction ops arbitrary: s refs)
  case (Cons op ops)
  then show ?case using run_op_ok[OF Cons.prems, of op] by fastforce
qed simp

definition new_pools :: "bool \<Rightarrow> MsgState" where
  "new_pools op = \<lparr>mp_heap = [], mp_pools = \<lambda>_. [], mp_open = op, mp_stats = Map.empty\<rparr>"

lemma new_pools_inv: "msg_inv (new_pools op) (\<lambda>_. 0)"
  by (simp add: msg_inv_def new_pools_def)



end
