(* ===== verification/Gox_Spawn.thy ===== *)
theory Gox_Spawn
  imports Gox_Stat
begin

section \<open>Goroutines and channels of gox\<close>

text \<open>
  \<open>rivetxcore/gox/go.go\<close>: \<open>Spawn\<close>, the pooled channels, and the goroutines that work off a queue
  (\<open>UniqSpawns\<close>, \<open>ListSpawns\<close>) or a clock (\<open>TimerSpawns\<close>). A function of the caller is its result:
  a panic, or the error it returns. The message and the \<open>IgnorePrint\<close> flag of an error are data of
  the model, since the error types come from outside the repository.
\<close>

record go_error =
  er_text :: string
  er_ignore :: bool

type_synonym func_result = "go_error option go"

datatype log_level = Warn | Error

subsection \<open>Logging an error\<close>

text \<open>The error of a goroutine: a time-out of the network is a warning. The 30 bytes at the end of the
  message are searched. \<open>stack\<close> is the flag that asks for the stack in the message.\<close>

definition contains :: "string \<Rightarrow> string \<Rightarrow> bool" where
  "contains s sub \<longleftrightarrow> list_ex (\<lambda>i. take (length sub) (drop i s) = sub) [0 ..< Suc (length s)]"

definition spawn_log :: "bool \<Rightarrow> go_error option \<Rightarrow> (log_level \<times> bool) option" where
  "spawn_log stack err =
     (case err of
        None \<Rightarrow> None
      | Some e \<Rightarrow>
          (let ignoreErr = ''i/o timeout'';
               n = length (er_text e);
               needFind = (if 30 < n then drop (n - 30) (er_text e) else er_text e)
           in if er_ignore e then None
              else if length ignoreErr \<le> length needFind \<and> contains needFind ignoreErr
              then Some (Warn, stack)
              else Some (Error, stack)))"

text \<open>The error of a function a queue runs.\<close>

definition func_log :: "bool \<Rightarrow> go_error option \<Rightarrow> (log_level \<times> bool) option" where
  "func_log stack err =
     (case err of
        None \<Rightarrow> None
      | Some e \<Rightarrow> if er_ignore e then None else Some (Error, stack))"

text \<open>One goroutine of \<open>Spawn\<close>: the counters, the id it gets, and what it logs; a panic is recovered.\<close>

definition SessionId :: "64 word \<Rightarrow> 64 word \<times> 64 word" where
  "SessionId n = (n + 1, n + 1)"

definition Spawn :: "bool \<Rightarrow> stats \<Rightarrow> 64 word \<Rightarrow> (64 word \<Rightarrow> func_result) \<Rightarrow>
    stats \<times> 64 word \<times> (log_level \<times> bool) option" where
  "Spawn stack st session spawnFunc =
     (let st1 = StatNumStartAdd st ''Spawn'';
          (session', spawnId) = SessionId session;
          log = (case spawnFunc spawnId of Inl p \<Rightarrow> None | Inr err \<Rightarrow> spawn_log stack err)
      in (StatNumEndAdd st1 ''Spawn'', session', log))"

subsection \<open>Pooled channels\<close>

record 'a Chan =
  ch_buf :: "'a list"
  ch_cap :: int
  ch_pool :: "int option"

type_synonym 'a chan_pools = "int \<Rightarrow> 'a Chan list"

definition chanPools_len :: int where "chanPools_len = 4097"

definition NewChan :: "int \<Rightarrow> int option \<Rightarrow> 'a Chan" where
  "NewChan n pool = \<lparr>ch_buf = [], ch_cap = (if n < 0 then 0 else n), ch_pool = pool\<rparr>"

definition Chan_Put :: "'a chan_pools \<Rightarrow> 'a Chan \<Rightarrow> 'a chan_pools" where
  "Chan_Put ps ch = (case ch_pool ch of None \<Rightarrow> ps | Some i \<Rightarrow> ps(i := ps i @ [ch]))"

text \<open>The receives until the channel is empty.\<close>

fun drain :: "'a list \<Rightarrow> 'a list" where
  "drain [] = []"
| "drain (x # xs) = drain xs"

text \<open>\<open>choice\<close> picks the channel the pool hands out, or a new one.\<close>

definition GetChan :: "nat option \<Rightarrow> 'a chan_pools \<Rightarrow> int \<Rightarrow> 'a chan_pools \<times> 'a Chan" where
  "GetChan choice ps n =
     (let k = (if n < 0 then 0 else n)
      in if chanPools_len \<le> k then (ps, NewChan k None)
         else (let (ps', ch) =
                     (case choice of
                        Some j \<Rightarrow>
                          if j < length (ps k) then (ps(k := take j (ps k) @ drop (Suc j) (ps k)), ps k ! j)
                          else (ps, NewChan k (Some k))
                      | None \<Rightarrow> (ps, NewChan k (Some k)))
               in (ps', ch\<lparr>ch_buf := drain (ch_buf ch)\<rparr>)))"

subsection \<open>TimerSpawns\<close>

text \<open>The goroutine of a timer: the results of its function in order, each after a tick, but the first
  one where \<open>isFirstCall\<close> is set. The result is the number of ticks waited for, the number of calls
  and the log; with the results used up the goroutine waits. A panic ends it, since only \<open>Spawn\<close>
  recovers.\<close>

type_synonym timer_result = "(bool \<times> go_error option) go"

fun TimerSpawns_loop :: "bool \<Rightarrow> bool \<Rightarrow> bool \<Rightarrow> timer_result list \<Rightarrow> nat \<times> nat \<times> (log_level \<times> bool) list" where
  "TimerSpawns_loop stack isFirst isFirstCall [] = (if isFirst \<and> isFirstCall then 0 else 1, 0, [])"
| "TimerSpawns_loop stack isFirst isFirstCall (r # rs) =
     (let ticks = (if isFirst \<and> isFirstCall then 0 else 1)
      in case r of
           Inl p \<Rightarrow> (ticks, 1, [])
         | Inr (isQuit, err) \<Rightarrow>
             (let logs = (case func_log stack err of None \<Rightarrow> [] | Some l \<Rightarrow> [l])
              in if isQuit then (ticks, 1, logs)
                 else (case TimerSpawns_loop stack False isFirstCall rs of
                         (t, c, ls) \<Rightarrow> (ticks + t, Suc c, logs @ ls))))"

definition TimerSpawns_Run :: "bool \<Rightarrow> bool \<Rightarrow> timer_result list \<Rightarrow> nat \<times> nat \<times> (log_level \<times> bool) list" where
  "TimerSpawns_Run stack isFirstCall rs = TimerSpawns_loop stack True isFirstCall rs"

subsection \<open>Workers\<close>

text \<open>
  What the queues of gox promise: a step of the system hands over what waits in front, or accepts
  something at the back, and does nothing else to the items. Then at any time the items that were
  taken, followed by those that wait, are the items that were submitted, in their order.
\<close>

locale fifo_worker =
  fixes step :: "'s \<Rightarrow> 's \<Rightarrow> bool"
    and taken :: "'s \<Rightarrow> 'x list"
    and waiting :: "'s \<Rightarrow> 'x list"
    and submitted :: "'s \<Rightarrow> 'x list"
  assumes step_fifo: "step s s' \<Longrightarrow>
    \<exists>xs. taken s' @ waiting s' = taken s @ waiting s @ xs \<and> submitted s' = submitted s @ xs"
begin

lemma in_order:
  assumes "step\<^sup>*\<^sup>* s s'" and "taken s @ waiting s = submitted s"
  shows "taken s' @ waiting s' = submitted s'"
  using assms(1)
proof (induction rule: rtranclp_induct)
  case base
  show ?case by (rule assms(2))
next
  case (step y z)
  then show ?case using step_fifo[OF step.hyps(2)] by auto
qed

end

end
