(* ===== verification/Gox_Batch.thy ===== *)
theory Gox_Batch
  imports Gox_Spawn
begin

section \<open>BatchSpawns\<close>

text \<open>
  \<open>rivetxcore/gox/go.go\<close>: producers append to a slice behind a mutex and wake one goroutine, which takes
  the whole slice and hands it to a function. The wake-ups are flags in a channel of ten. The state
  holds where the goroutine is, what its function has been called with and, for the statements, all
  that was added.
\<close>

definition BatchDataFlush :: "8 word" where "BatchDataFlush = 0"
definition BatchDataClose :: "8 word" where "BatchDataClose = 1"

datatype 'a batch_pc =
    BWait                               \<comment> \<open>the outer select\<close>
  | BDrain "8 word"                     \<comment> \<open>the inner select\<close>
  | BTake "8 word"                      \<comment> \<open>before the mutex\<close>
  | BCall "8 word" "'a list"            \<comment> \<open>before the call of the function\<close>
  | BQuit

record 'a BatchData =
  bd_datas :: "'a list"
  bd_chan :: "8 word list"
  bd_size :: int
  bd_pc :: "'a batch_pc"
  bd_wakes :: nat                       \<comment> \<open>producers between the mutex and the send\<close>
  bd_calls :: "'a list list"
  bd_added :: "'a list"

definition chan_cap :: nat where "chan_cap = 10"

definition NewBatchData :: "int \<Rightarrow> 'a BatchData" where
  "NewBatchData batchSize =
     \<lparr>bd_datas = [], bd_chan = [], bd_size = (if batchSize \<le> 0 then 10 else batchSize), bd_pc = BWait,
      bd_wakes = 0, bd_calls = [], bd_added = []\<rparr>"

text \<open>\<open>Add\<close>: under the mutex, then the send that is given up where the channel is full.\<close>

definition BatchSpawns_Add :: "'a BatchData \<Rightarrow> 'a \<Rightarrow> 'a BatchData" where
  "BatchSpawns_Add b x =
     (let b' = b\<lparr>bd_datas := bd_datas b @ [x], bd_added := bd_added b @ [x]\<rparr>
      in if int (length (bd_datas b')) = bd_size b then b'\<lparr>bd_wakes := Suc (bd_wakes b)\<rparr> else b')"

definition BatchSpawns_wake :: "'a BatchData \<Rightarrow> 'a BatchData" where
  "BatchSpawns_wake b =
     (if length (bd_chan b) < chan_cap
      then b\<lparr>bd_chan := bd_chan b @ [BatchDataFlush], bd_wakes := bd_wakes b - 1\<rparr>
      else b\<lparr>bd_wakes := bd_wakes b - 1\<rparr>)"

text \<open>\<open>Flush\<close> and \<open>Close\<close>: a send, or after five seconds nothing; \<open>late\<close> says which the select took.\<close>

definition BatchSpawns_send :: "bool \<Rightarrow> 8 word \<Rightarrow> 'a BatchData \<Rightarrow> 'a BatchData option" where
  "BatchSpawns_send late flag b =
     (if late then Some b
      else if length (bd_chan b) < chan_cap then Some (b\<lparr>bd_chan := bd_chan b @ [flag]\<rparr>)
      else None)"

definition BatchSpawns_Flush :: "bool \<Rightarrow> 'a BatchData \<Rightarrow> 'a BatchData option" where
  "BatchSpawns_Flush late b = BatchSpawns_send late BatchDataFlush b"
definition BatchSpawns_Close :: "bool \<Rightarrow> 'a BatchData \<Rightarrow> 'a BatchData option" where
  "BatchSpawns_Close late b = BatchSpawns_send late BatchDataClose b"

text \<open>One step of the goroutine of \<open>Run\<close>. \<open>tick\<close>: the outer select takes the ticker. \<open>res\<close> is the result
  of the function; where it panics the goroutine ends.\<close>

definition BatchSpawns_Run :: "bool \<Rightarrow> func_result \<Rightarrow> 'a BatchData \<Rightarrow> 'a BatchData option" where
  "BatchSpawns_Run tick res b =
     (case bd_pc b of
        BWait \<Rightarrow>
          if tick then Some (b\<lparr>bd_pc := BTake BatchDataFlush\<rparr>)
          else (case bd_chan b of
                  [] \<Rightarrow> None
                | flag # cs \<Rightarrow> Some (b\<lparr>bd_chan := cs, bd_pc := BDrain flag\<rparr>))
      | BDrain flag \<Rightarrow>
          (case bd_chan b of
             [] \<Rightarrow> Some (b\<lparr>bd_pc := BTake flag\<rparr>)
           | flag' # cs \<Rightarrow> Some (b\<lparr>bd_chan := cs, bd_pc := BDrain flag'\<rparr>))
      | BTake flag \<Rightarrow> Some (b\<lparr>bd_pc := BCall flag (bd_datas b), bd_datas := []\<rparr>)
      | BCall flag datas \<Rightarrow>
          Some (b\<lparr>bd_calls := bd_calls b @ [datas],
                  bd_pc := (case res of
                              Inl p \<Rightarrow> BQuit
                            | Inr err \<Rightarrow> if flag = BatchDataClose then BQuit else BWait)\<rparr>)
      | BQuit \<Rightarrow> None)"

inductive batch_step :: "'a BatchData \<Rightarrow> 'a BatchData \<Rightarrow> bool" where
  add: "batch_step b (BatchSpawns_Add b x)"
| wake: "0 < bd_wakes b \<Longrightarrow> batch_step b (BatchSpawns_wake b)"
| flush: "BatchSpawns_Flush late b = Some b' \<Longrightarrow> batch_step b b'"
| close: "BatchSpawns_Close late b = Some b' \<Longrightarrow> batch_step b b'"
| run: "BatchSpawns_Run tick res b = Some b' \<Longrightarrow> batch_step b b'"

inductive_cases batch_stepE: "batch_step b b'"

subsection \<open>Nothing is lost and no wake-up is missed\<close>

definition in_call :: "'a batch_pc \<Rightarrow> 'a list" where
  "in_call p = (case p of BCall flag datas \<Rightarrow> datas | _ \<Rightarrow> [])"

definition will_take :: "'a batch_pc \<Rightarrow> bool" where
  "will_take p \<longleftrightarrow> (case p of BDrain flag \<Rightarrow> True | BTake flag \<Rightarrow> True | _ \<Rightarrow> False)"

definition batch_taken :: "'a BatchData \<Rightarrow> 'a list" where
  "batch_taken b = concat (bd_calls b) @ in_call (bd_pc b)"

interpretation batch: fifo_worker batch_step batch_taken bd_datas bd_added
proof
  fix b b' :: "'a BatchData"
  assume "batch_step b b'"
  then show "\<exists>xs. batch_taken b' @ bd_datas b' = batch_taken b @ bd_datas b @ xs \<and> bd_added b' = bd_added b @ xs"
  proof cases
    case (add x)
    then show ?thesis by (intro exI[of _ "[x]"]) (simp add: batch_taken_def BatchSpawns_Add_def Let_def)
  next
    case (run tick res)
    then show ?thesis
      by (intro exI[of _ "[]"], cases "bd_pc b")
        (auto simp: batch_taken_def in_call_def BatchSpawns_Run_def split: if_splits list.splits sum.splits)
  qed (auto simp: batch_taken_def BatchSpawns_wake_def BatchSpawns_Flush_def BatchSpawns_Close_def
      BatchSpawns_send_def split: if_splits)
qed

definition batch_inv :: "'a BatchData \<Rightarrow> bool" where
  "batch_inv b \<longleftrightarrow>
     0 < bd_size b \<and> length (bd_chan b) \<le> chan_cap \<and>
     (bd_size b \<le> int (length (bd_datas b)) \<longrightarrow>
        0 < bd_wakes b \<or> bd_chan b \<noteq> [] \<or> will_take (bd_pc b))"

lemma new_batch_inv: "batch_inv (NewBatchData n)"
  by (simp add: batch_inv_def NewBatchData_def)

lemma add_inv: "batch_inv b \<Longrightarrow> batch_inv (BatchSpawns_Add b x)"
  by (auto simp: batch_inv_def BatchSpawns_Add_def Let_def)

lemma wake_inv: "batch_inv b \<Longrightarrow> 0 < bd_wakes b \<Longrightarrow> batch_inv (BatchSpawns_wake b)"
  by (auto simp: batch_inv_def BatchSpawns_wake_def chan_cap_def)

lemma send_inv: "batch_inv b \<Longrightarrow> BatchSpawns_send late flag b = Some b' \<Longrightarrow> batch_inv b'"
  by (auto simp: batch_inv_def BatchSpawns_send_def split: if_splits)

lemma run_inv: "batch_inv b \<Longrightarrow> BatchSpawns_Run tick res b = Some b' \<Longrightarrow> batch_inv b'"
  by (cases "bd_pc b")
    (auto simp: batch_inv_def BatchSpawns_Run_def will_take_def split: if_splits list.splits sum.splits)

lemma batch_step_inv: "batch_step b b' \<Longrightarrow> batch_inv b \<Longrightarrow> batch_inv b'"
  by (erule batch_stepE)
    (auto simp: BatchSpawns_Flush_def BatchSpawns_Close_def intro: add_inv wake_inv send_inv run_inv)

lemma batch_reach_inv: "batch_step\<^sup>*\<^sup>* b b' \<Longrightarrow> batch_inv b \<Longrightarrow> batch_inv b'"
  by (induction rule: rtranclp_induct) (auto intro: batch_step_inv)

text \<open>C14: in every interleaving the function of a batch gets each item that was added exactly once and in
  the order it was added, as far as it has been taken; and while a full batch waits, a wake-up of the
  goroutine is on its way.\<close>

theorem BatchSpawns_in_order:
  assumes "batch_step\<^sup>*\<^sup>* (NewBatchData n) b"
  shows "concat (bd_calls b) @ in_call (bd_pc b) @ bd_datas b = bd_added b \<and>
    (bd_size b \<le> int (length (bd_datas b)) \<longrightarrow> 0 < bd_wakes b \<or> bd_chan b \<noteq> [] \<or> will_take (bd_pc b))"
  using batch_reach_inv[OF assms new_batch_inv] batch.in_order[OF assms]
  by (simp add: batch_inv_def batch_taken_def NewBatchData_def in_call_def)

theorem BatchSpawns_in_order_witness:
  "\<exists>b. batch_step\<^sup>*\<^sup>* (NewBatchData 2) b \<and> bd_added b = [7, 8 :: nat] \<and> concat (bd_calls b) @ in_call (bd_pc b) = [7, 8]"
proof -
  let ?b1 = "BatchSpawns_Add (NewBatchData 2) (7 :: nat)"
  let ?b2 = "BatchSpawns_Add ?b1 8"
  let ?b3 = "the (BatchSpawns_Run True (Inr None) ?b2)"
  let ?b4 = "the (BatchSpawns_Run True (Inr None) ?b3)"
  note d = BatchSpawns_Add_def NewBatchData_def BatchSpawns_Run_def Let_def
  have "batch_step (NewBatchData 2) ?b1" and "batch_step ?b1 ?b2" by (rule batch_step.add)+
  moreover have "batch_step ?b2 ?b3" and "batch_step ?b3 ?b4"
    by (rule batch_step.run[of True "Inr None"]; simp add: d)+
  ultimately have r: "batch_step\<^sup>*\<^sup>* (NewBatchData 2) ?b4" by (meson rtranclp.rtrancl_into_rtrancl rtranclp.rtrancl_refl)
  have "bd_added ?b4 = [7, 8]" "bd_datas ?b4 = []" by (simp_all add: d)
  with conjunct1[OF BatchSpawns_in_order[OF r]] r show ?thesis by (intro exI[of _ ?b4]) simp
qed

subsection \<open>A close that is followed by a flush\<close>

text \<open>The goroutine keeps only the last flag it drains, so a flush that arrives behind a close takes its
  place: every item is still handed over, but the goroutine goes back to waiting.\<close>

fun run_alone :: "nat \<Rightarrow> 'a BatchData \<Rightarrow> 'a BatchData" where
  "run_alone 0 b = b"
| "run_alone (Suc n) b = (case BatchSpawns_Run False (Inr None) b of None \<Rightarrow> b | Some b' \<Rightarrow> run_alone n b')"

lemma drain_flags:
  "bd_pc b = BDrain flag \<Longrightarrow>
     run_alone (length (bd_chan b) + 3) b =
       b\<lparr>bd_chan := [], bd_datas := [], bd_calls := bd_calls b @ [bd_datas b],
         bd_pc := (if last (flag # bd_chan b) = BatchDataClose then BQuit else BWait)\<rparr>"
proof (induction "bd_chan b" arbitrary: b flag)
  case Nil
  then have "bd_chan b = []" by simp
  then show ?case using Nil
    by (cases "flag = BatchDataClose") (simp_all add: BatchSpawns_Run_def numeral_3_eq_3)
next
  case (Cons c cs)
  let ?b = "b\<lparr>bd_chan := cs, bd_pc := BDrain c\<rparr>"
  have n: "length (bd_chan b) + 3 = Suc (length cs + 3)" using Cons.hyps(2)[symmetric] by simp
  have "run_alone (length (bd_chan b) + 3) b = run_alone (length cs + 3) ?b"
    unfolding n run_alone.simps using Cons.prems Cons.hyps(2)[symmetric] by (simp add: BatchSpawns_Run_def)
  then show ?case using Cons.hyps(1)[of ?b c] Cons.hyps(2)[symmetric] by simp
qed

lemma BatchSpawns_Close_lost:
  assumes "bd_pc b = BWait" and "bd_chan b = [BatchDataClose, BatchDataFlush]"
  shows "bd_pc (run_alone 5 b) = BWait \<and> bd_chan (run_alone 5 b) = [] \<and>
    bd_calls (run_alone 5 b) = bd_calls b @ [bd_datas b]"
proof -
  let ?b = "b\<lparr>bd_chan := [BatchDataFlush], bd_pc := BDrain BatchDataClose\<rparr>"
  have "run_alone 5 b = run_alone (length (bd_chan ?b) + 3) ?b"
    using assms by (simp add: BatchSpawns_Run_def eval_nat_numeral)
  then show ?thesis using drain_flags[of ?b BatchDataClose] by (simp add: BatchDataFlush_def BatchDataClose_def)
qed

end
