(* ===== verification/Gox_Queue.thy ===== *)
theory Gox_Queue
  imports Gox_Spawn Threads
begin

section \<open>UniqSpawns, ListSpawns and the tables of names\<close>

text \<open>
  \<open>rivetxcore/gox/go.go\<close>: two goroutines that work off a channel, and the maps that start one goroutine
  for a name. A function is a number, \<open>res\<close> is what it returns; the channel a caller of \<open>UniqSpawns\<close>
  waits on is a number, too.
\<close>

subsection \<open>UniqSpawns\<close>

record UniqData =
  ud_func :: nat
  ud_wait :: "nat option"

datatype uniq_pc = URecv | UCall UniqData | UDone

record UniqSpawns =
  us_chan :: "UniqData list"
  us_pc :: uniq_pc
  us_next :: nat
  us_signals :: "nat list"              \<comment> \<open>the waiting channels that were sent to, in order\<close>
  us_ran :: "UniqData list"
  us_added :: "UniqData list"

definition uniq_cap :: nat where "uniq_cap = 1000"

definition NewUniqSpawns :: UniqSpawns where
  "NewUniqSpawns = \<lparr>us_chan = [], us_pc = URecv, us_next = 0, us_signals = [], us_ran = [], us_added = []\<rparr>"

text \<open>\<open>Add\<close> blocks while the channel is full; then the caller waits on its own channel, if it asked to.\<close>

definition UniqSpawns_Add :: "bool \<Rightarrow> nat \<Rightarrow> UniqSpawns \<Rightarrow> UniqSpawns option" where
  "UniqSpawns_Add isWait f us =
     (let d = \<lparr>ud_func = f, ud_wait = (if isWait then Some (us_next us) else None)\<rparr>
      in if length (us_chan us) < uniq_cap
         then Some (us\<lparr>us_chan := us_chan us @ [d], us_next := Suc (us_next us), us_added := us_added us @ [d]\<rparr>)
         else None)"

definition UniqSpawns_Add_returns :: "UniqData \<Rightarrow> UniqSpawns \<Rightarrow> bool" where
  "UniqSpawns_Add_returns d us = (case ud_wait d of None \<Rightarrow> True | Some w \<Rightarrow> w \<in> set (us_signals us))"

text \<open>The goroutine of \<open>Run\<close>; \<open>quit\<close>: the select takes the end of the context. A panic is recovered
  inside the loop, behind the send to the waiting channel.\<close>

definition UniqSpawns_Run :: "(nat \<Rightarrow> func_result) \<Rightarrow> bool \<Rightarrow> UniqSpawns \<Rightarrow> UniqSpawns option" where
  "UniqSpawns_Run res quit us =
     (case us_pc us of
        URecv \<Rightarrow>
          if quit then Some (us\<lparr>us_pc := UDone\<rparr>)
          else (case us_chan us of
                  [] \<Rightarrow> None
                | d # ds \<Rightarrow> Some (us\<lparr>us_chan := ds, us_pc := UCall d\<rparr>))
      | UCall d \<Rightarrow>
          (case res (ud_func d) of
             Inl p \<Rightarrow> Some (us\<lparr>us_pc := URecv, us_ran := us_ran us @ [d]\<rparr>)
           | Inr err \<Rightarrow>
               Some (us\<lparr>us_pc := URecv, us_ran := us_ran us @ [d],
                        us_signals := us_signals us @ (case ud_wait d of None \<Rightarrow> [] | Some w \<Rightarrow> [w])\<rparr>))
      | UDone \<Rightarrow> None)"

inductive uniq_step :: "(nat \<Rightarrow> func_result) \<Rightarrow> UniqSpawns \<Rightarrow> UniqSpawns \<Rightarrow> bool" for res where
  add: "UniqSpawns_Add isWait f us = Some us' \<Longrightarrow> uniq_step res us us'"
| run: "UniqSpawns_Run res quit us = Some us' \<Longrightarrow> uniq_step res us us'"

inductive_cases uniq_stepE: "uniq_step res us us'"

definition uniq_taken :: "UniqSpawns \<Rightarrow> UniqData list" where
  "uniq_taken us = us_ran us @ (case us_pc us of UCall d \<Rightarrow> [d] | _ \<Rightarrow> [])"

interpretation uniq: fifo_worker "uniq_step res" uniq_taken us_chan us_added for res
proof
  fix us us'
  assume "uniq_step res us us'"
  then show "\<exists>xs. uniq_taken us' @ us_chan us' = uniq_taken us @ us_chan us @ xs \<and> us_added us' = us_added us @ xs"
    by (cases rule: uniq_stepE)
      (auto simp: uniq_taken_def UniqSpawns_Add_def UniqSpawns_Run_def Let_def
        split: if_splits uniq_pc.splits list.splits sum.splits)
qed

text \<open>Who is signalled: the waiting callers of the functions that returned.\<close>

definition signalled :: "(nat \<Rightarrow> func_result) \<Rightarrow> UniqData list \<Rightarrow> nat list" where
  "signalled res ds =
     concat (map (\<lambda>d. case (res (ud_func d), ud_wait d) of (Inr err, Some w) \<Rightarrow> [w] | _ \<Rightarrow> []) ds)"

definition uniq_inv :: "(nat \<Rightarrow> func_result) \<Rightarrow> UniqSpawns \<Rightarrow> bool" where
  "uniq_inv res us \<longleftrightarrow>
     us_signals us = signalled res (us_ran us) \<and>
     distinct (concat (map (\<lambda>d. case ud_wait d of None \<Rightarrow> [] | Some w \<Rightarrow> [w]) (us_added us))) \<and>
     (\<forall>d \<in> set (us_added us). \<forall>w. ud_wait d = Some w \<longrightarrow> w < us_next us)"

lemma uniq_add_inv:
  assumes a: "UniqSpawns_Add isWait f us = Some us'" and inv: "uniq_inv res us"
  shows "uniq_inv res us'"
proof -
  let ?d = "\<lparr>ud_func = f, ud_wait = (if isWait then Some (us_next us) else None)\<rparr>"
  have us': "us_signals us' = us_signals us" "us_ran us' = us_ran us" "us_added us' = us_added us @ [?d]"
    "us_next us' = Suc (us_next us)"
    using a by (auto simp: UniqSpawns_Add_def Let_def split: if_splits)
  have "us_next us \<notin> set (concat (map (\<lambda>d. case ud_wait d of None \<Rightarrow> [] | Some w \<Rightarrow> [w]) (us_added us)))"
  proof -
    have "us_next us \<notin> set (case ud_wait d of None \<Rightarrow> [] | Some w \<Rightarrow> [w])" if "d \<in> set (us_added us)" for d
      using inv that by (cases "ud_wait d") (auto simp: uniq_inv_def)
    then show ?thesis by auto
  qed
  then show ?thesis using inv by (simp add: uniq_inv_def us' less_Suc_eq)
qed

lemma uniq_run_inv: "UniqSpawns_Run res quit us = Some us' \<Longrightarrow> uniq_inv res us \<Longrightarrow> uniq_inv res us'"
  by (cases "us_pc us")
    (auto simp: uniq_inv_def signalled_def UniqSpawns_Run_def split: if_splits list.splits sum.splits option.splits)

lemma uniq_step_inv: "uniq_step res us us' \<Longrightarrow> uniq_inv res us \<Longrightarrow> uniq_inv res us'"
  by (erule uniq_stepE) (auto intro: uniq_add_inv uniq_run_inv)

lemma uniq_reach_inv: "(uniq_step res)\<^sup>*\<^sup>* us us' \<Longrightarrow> uniq_inv res us \<Longrightarrow> uniq_inv res us'"
  by (induction rule: rtranclp_induct) (auto intro: uniq_step_inv)


text \<open>C39: the functions of \<open>UniqSpawns\<close> run one at a time and in the order they were added; the caller of
  each one that returns is signalled exactly once, and the caller of one that panics never is, so
  its \<open>Add\<close> never returns.\<close>

theorem UniqSpawns_serial:
  assumes "(uniq_step res)\<^sup>*\<^sup>* NewUniqSpawns us"
  shows "us_ran us @ (case us_pc us of UCall d \<Rightarrow> [d] | _ \<Rightarrow> []) @ us_chan us = us_added us \<and>
    us_signals us = signalled res (us_ran us) \<and> distinct (us_signals us) \<and>
    (\<forall>d \<in> set (us_ran us). ud_wait d \<noteq> None \<longrightarrow>
       (UniqSpawns_Add_returns d us \<longleftrightarrow> (\<exists>err. res (ud_func d) = Inr err)))"
proof -
  have inv: "uniq_inv res us"
    by (rule uniq_reach_inv[OF assms]) (simp add: uniq_inv_def NewUniqSpawns_def signalled_def)
  have o: "uniq_taken us @ us_chan us = us_added us"
    by (rule uniq.in_order[OF assms]) (simp add: NewUniqSpawns_def uniq_taken_def)
  define waits where "waits = (\<lambda>d :: UniqData. case ud_wait d of None \<Rightarrow> [] | Some w \<Rightarrow> [w])"
  define sig where "sig = (\<lambda>d :: UniqData. case (res (ud_func d), ud_wait d) of (Inr err, Some w) \<Rightarrow> [w] | _ \<Rightarrow> [])"
  have s: "signalled res ds = concat (map sig ds)" for ds by (simp add: signalled_def sig_def)
  obtain rest where "us_added us = us_ran us @ rest" using o[symmetric] by (auto simp: uniq_taken_def)
  then have d: "distinct (concat (map waits (us_ran us)))" using inv by (simp add: uniq_inv_def waits_def)
  have sub: "set (sig x) \<subseteq> set (waits x)" for x
    by (auto simp: sig_def waits_def split: sum.splits option.splits)
  have sd: "distinct (sig x)" for x by (auto simp: sig_def split: sum.splits option.splits)
  have dist: "distinct (concat (map sig ds)) \<and> set (concat (map sig ds)) \<subseteq> set (concat (map waits ds))"
    if "distinct (concat (map waits ds))" for ds
    using that
  proof (induction ds)
    case (Cons x xs)
    then show ?case using sub[of x] sd[of x] by auto
  qed simp
  have own: "w \<in> set (concat (map sig ds)) \<longleftrightarrow> (\<exists>err. res (ud_func x) = Inr err)"
    if "distinct (concat (map waits ds))" "x \<in> set ds" "ud_wait x = Some w" for ds x w
    using that
  proof (induction ds)
    case (Cons y ys)
    show ?case
    proof (cases "w \<in> set (waits y)")
      case True
      then have y: "ud_wait y = Some w" by (auto simp: waits_def split: option.splits)
      have "w \<notin> set (concat (map waits ys))" using Cons.prems(1) True by auto
      then have "x = y \<or> x \<notin> set ys" "w \<notin> set (concat (map sig ys))"
        using Cons.prems(3) dist[of ys] Cons.prems(1) by (auto simp: waits_def)
      then show ?thesis using Cons.prems(2,3) y by (auto simp: sig_def dest: sym split: sum.splits)
    next
      case False
      then have "x \<noteq> y" using Cons.prems(3) by (auto simp: waits_def)
      moreover have "w \<notin> set (sig y)" using False sub[of y] by auto
      ultimately show ?thesis using Cons by auto
    qed
  qed simp
  have "us_signals us = concat (map sig (us_ran us))" using inv by (simp add: uniq_inv_def s)
  then show ?thesis using o dist[OF d] own[OF d] s
    by (auto simp: uniq_taken_def UniqSpawns_Add_returns_def)
qed

theorem UniqSpawns_serial_witness:
  "\<exists>us. (uniq_step (\<lambda>_. Inl NilDeref))\<^sup>*\<^sup>* NewUniqSpawns us \<and> us_pc us = URecv \<and>
     (\<exists>d \<in> set (us_added us). ud_wait d \<noteq> None \<and> d \<in> set (us_ran us) \<and> \<not> UniqSpawns_Add_returns d us)"
proof -
  let ?res = "\<lambda>_. Inl NilDeref :: func_result"
  let ?d = "\<lparr>ud_func = 5, ud_wait = Some 0\<rparr>"
  let ?u1 = "the (UniqSpawns_Add True 5 NewUniqSpawns)"
  let ?u2 = "the (UniqSpawns_Run ?res False ?u1)"
  let ?u3 = "the (UniqSpawns_Run ?res False ?u2)"
  note d = UniqSpawns_Add_def NewUniqSpawns_def UniqSpawns_Run_def Let_def uniq_cap_def
  have "uniq_step ?res NewUniqSpawns ?u1" by (rule uniq_step.add[of True 5]) (simp add: d)
  moreover have "uniq_step ?res ?u1 ?u2" "uniq_step ?res ?u2 ?u3"
    by (rule uniq_step.run[of _ False]; simp add: d)+
  ultimately have r: "(uniq_step ?res)\<^sup>*\<^sup>* NewUniqSpawns ?u3" by (meson rtranclp.rtrancl_into_rtrancl rtranclp.rtrancl_refl)
  have f: "us_ran ?u3 = [?d]" "us_added ?u3 = [?d]" "us_pc ?u3 = URecv" by (simp_all add: d)
  have "\<not> UniqSpawns_Add_returns ?d ?u3" using UniqSpawns_serial[OF r] f by simp
  then show ?thesis using r f by (intro exI[of _ ?u3]) simp
qed

subsection \<open>ListSpawns\<close>

text \<open>The items of the channel; \<open>None\<close> is the nil that \<open>Close\<close> sends. A channel without a buffer takes an
  item only while the goroutine is there to receive it.\<close>

datatype 'a list_pc = LRecv | LCall "'a option" | LQuit

record 'a ListData =
  ls_chan :: "'a option list"
  ls_size :: nat
  ls_pc :: "'a list_pc"
  ls_calls :: "'a option list"
  ls_sent :: "'a option list"

definition NewListData :: "nat \<Rightarrow> 'a ListData" where
  "NewListData n = \<lparr>ls_chan = [], ls_size = n, ls_pc = LRecv, ls_calls = [], ls_sent = []\<rparr>"

definition list_send :: "'a option \<Rightarrow> 'a ListData \<Rightarrow> 'a ListData option" where
  "list_send x l =
     (if length (ls_chan l) < ls_size l \<or> ls_size l = 0 \<and> ls_chan l = [] \<and> ls_pc l = LRecv
      then Some (l\<lparr>ls_chan := ls_chan l @ [x], ls_sent := ls_sent l @ [x]\<rparr>)
      else None)"

definition ListSpawns_Add :: "'a option \<Rightarrow> 'a ListData \<Rightarrow> 'a ListData option" where
  "ListSpawns_Add x l = (if x = None then Some l else list_send x l)"
definition ListSpawns_Close :: "'a ListData \<Rightarrow> 'a ListData option" where
  "ListSpawns_Close l = list_send None l"

definition ListSpawns_Run :: "func_result \<Rightarrow> 'a ListData \<Rightarrow> 'a ListData option" where
  "ListSpawns_Run res l =
     (case ls_pc l of
        LRecv \<Rightarrow>
          (case ls_chan l of
             [] \<Rightarrow> None
           | x # xs \<Rightarrow> Some (l\<lparr>ls_chan := xs, ls_pc := LCall x\<rparr>))
      | LCall x \<Rightarrow>
          Some (l\<lparr>ls_calls := ls_calls l @ [x],
                  ls_pc := (case res of Inl p \<Rightarrow> LQuit | Inr err \<Rightarrow> if x = None then LQuit else LRecv)\<rparr>)
      | LQuit \<Rightarrow> None)"

inductive list_step :: "'a ListData \<Rightarrow> 'a ListData \<Rightarrow> bool" where
  add: "ListSpawns_Add x l = Some l' \<Longrightarrow> list_step l l'"
| close: "ListSpawns_Close l = Some l' \<Longrightarrow> list_step l l'"
| run: "ListSpawns_Run res l = Some l' \<Longrightarrow> list_step l l'"

inductive_cases list_stepE: "list_step l l'"

definition list_taken :: "'a ListData \<Rightarrow> 'a option list" where
  "list_taken l = ls_calls l @ (case ls_pc l of LCall x \<Rightarrow> [x] | _ \<Rightarrow> [])"

interpretation listq: fifo_worker list_step list_taken ls_chan ls_sent
proof
  fix l l' :: "'a ListData"
  assume "list_step l l'"
  then show "\<exists>xs. list_taken l' @ ls_chan l' = list_taken l @ ls_chan l @ xs \<and> ls_sent l' = ls_sent l @ xs"
    by (cases rule: list_stepE)
      (auto simp: list_taken_def ListSpawns_Add_def ListSpawns_Close_def list_send_def ListSpawns_Run_def
        split: if_splits list_pc.splits list.splits sum.splits)
qed

text \<open>A close ends the goroutine: the nil is the last call.\<close>

definition list_inv :: "'a ListData \<Rightarrow> bool" where
  "list_inv l \<longleftrightarrow> None \<notin> set (butlast (ls_calls l)) \<and> (ls_pc l \<noteq> LQuit \<longrightarrow> None \<notin> set (ls_calls l))"

lemma list_step_inv: "list_step l l' \<Longrightarrow> list_inv l \<Longrightarrow> list_inv l'"
  by (erule list_stepE)
    (auto simp: list_inv_def ListSpawns_Add_def ListSpawns_Close_def list_send_def ListSpawns_Run_def
      split: if_splits list_pc.splits list.splits sum.splits)

lemma ListSpawns_in_order:
  assumes "list_step\<^sup>*\<^sup>* (NewListData n) l"
  shows "ls_calls l @ (case ls_pc l of LCall x \<Rightarrow> [x] | _ \<Rightarrow> []) @ ls_chan l = ls_sent l \<and>
    None \<notin> set (butlast (ls_calls l)) \<and> (None \<in> set (ls_calls l) \<longrightarrow> ls_pc l = LQuit)"
proof -
  have "list_inv (NewListData n)" by (simp add: list_inv_def NewListData_def)
  with assms have "list_inv l" by (induction rule: rtranclp_induct) (auto intro: list_step_inv)
  moreover have "list_taken l @ ls_chan l = ls_sent l"
    by (rule listq.in_order[OF assms]) (simp add: NewListData_def list_taken_def)
  ultimately show ?thesis by (auto simp: list_inv_def list_taken_def)
qed

subsection \<open>One goroutine for a name\<close>

text \<open>
  \<open>UniqSpawn\<close>, \<open>BatchSpawn\<close>, \<open>ListSpawn\<close> and \<open>TimerSpawn\<close> look the name up in a \<open>sync.Map\<close>, store a
  new object where it is missing, and start the goroutine of the object if their own was stored. The
  objects are numbers, counted up as they are made.
\<close>

record Registry =
  rg_map :: "string \<rightharpoonup> nat"
  rg_next :: nat
  rg_runs :: "nat list"

datatype rg_pc = RgLoad | RgLoadOrStore | RgRun nat

definition new_registry :: Registry where
  "new_registry = \<lparr>rg_map = Map.empty, rg_next = 0, rg_runs = []\<rparr>"

fun NamedSpawn :: "(Registry, string, rg_pc, nat) body" where
  "NamedSpawn g key RgLoad =
     (case rg_map g key of
        Some v \<Rightarrow> Some (g, Inr v)
      | None \<Rightarrow> Some (g, Inl RgLoadOrStore))"
| "NamedSpawn g key RgLoadOrStore =
     (case rg_map g key of
        Some v \<Rightarrow> Some (g\<lparr>rg_next := Suc (rg_next g)\<rparr>, Inr v)
      | None \<Rightarrow>
          Some (g\<lparr>rg_map := (rg_map g)(key \<mapsto> rg_next g), rg_next := Suc (rg_next g)\<rparr>, Inl (RgRun (rg_next g))))"
| "NamedSpawn g key (RgRun v) = Some (g\<lparr>rg_runs := rg_runs g @ [v]\<rparr>, Inr v)"

type_synonym rg_thread = "(string, rg_pc, nat) thread"

definition rg_pending :: "nat \<Rightarrow> rg_thread \<Rightarrow> int" where
  "rg_pending v t = (case th_cur t of Some (k, RgRun w) \<Rightarrow> if v = w then 1 else 0 | _ \<Rightarrow> 0)"

definition rg_inv :: "Registry \<Rightarrow> rg_thread list \<Rightarrow> bool" where
  "rg_inv g ts \<longleftrightarrow>
     (\<forall>v. int (count_list (rg_runs g) v) + tsum (rg_pending v) ts = (if v \<in> ran (rg_map g) then 1 else 0)) \<and>
     (\<forall>v \<in> ran (rg_map g). v < rg_next g) \<and> inj_on (rg_map g) (dom (rg_map g)) \<and>
     (\<forall>t \<in> set ts. \<forall>(k, v) \<in> set (th_done t). rg_map g k = Some v) \<and>
     (\<forall>t \<in> set ts. \<forall>k v. th_cur t = Some (k, RgRun v) \<longrightarrow> rg_map g k = Some v)"

lemma rg_fresh_inv:
  assumes "\<forall>v \<in> ran (rg_map g). v < rg_next g" and "inj_on (rg_map g) (dom (rg_map g))" and "rg_map g key = None"
  shows "ran ((rg_map g)(key \<mapsto> rg_next g)) = insert (rg_next g) (ran (rg_map g))"
    and "rg_next g \<notin> ran (rg_map g)"
    and "inj_on ((rg_map g)(key \<mapsto> rg_next g)) (dom ((rg_map g)(key \<mapsto> rg_next g)))"
proof -
  show n: "rg_next g \<notin> ran (rg_map g)" using assms(1) by auto
  show "ran ((rg_map g)(key \<mapsto> rg_next g)) = insert (rg_next g) (ran (rg_map g))" using assms(3) by (rule ran_map_upd)
  show "inj_on ((rg_map g)(key \<mapsto> rg_next g)) (dom ((rg_map g)(key \<mapsto> rg_next g)))"
    using assms(2,3) n by (auto simp: inj_on_def ranI split: if_splits)
qed

text \<open>A step keeps the map but for a new name; what a goroutine got stays true.\<close>

lemma rg_inv_update:
  assumes inv: "rg_inv g ts" and i: "i < length ts"
    and keep: "\<And>k v. rg_map g k = Some v \<Longrightarrow> rg_map g' k = Some v"
    and bnd: "\<forall>v \<in> ran (rg_map g'). v < rg_next g'" and inj: "inj_on (rg_map g') (dom (rg_map g'))"
    and cnt: "\<And>v. int (count_list (rg_runs g') v) - int (count_list (rg_runs g) v) + rg_pending v t - rg_pending v (ts ! i) =
      (if v \<in> ran (rg_map g') then 1 else 0) - (if v \<in> ran (rg_map g) then 1 else 0)"
    and dn: "th_done t = th_done (ts ! i) @ rs" "\<And>k v. (k, v) \<in> set rs \<Longrightarrow> rg_map g' k = Some v"
    and run: "\<And>k v. th_cur t = Some (k, RgRun v) \<Longrightarrow> rg_map g' k = Some v"
  shows "rg_inv g' (ts[i := t])"
proof -
  have "int (count_list (rg_runs g') v) + tsum (rg_pending v) (ts[i := t]) = (if v \<in> ran (rg_map g') then 1 else 0)" for v
  proof -
    have "int (count_list (rg_runs g) v) + tsum (rg_pending v) ts = (if v \<in> ran (rg_map g) then 1 else 0)"
      using inv by (simp add: rg_inv_def)
    then show ?thesis using cnt[of v] by (simp add: tsum_update[OF i])
  qed
  moreover have "(\<forall>(k, v) \<in> set (th_done u). rg_map g' k = Some v) \<and>
      (\<forall>k v. th_cur u = Some (k, RgRun v) \<longrightarrow> rg_map g' k = Some v)" if "u \<in> set (ts[i := t])" for u
  proof -
    have old: "(\<forall>(k, v) \<in> set (th_done w). rg_map g' k = Some v) \<and>
        (\<forall>k v. th_cur w = Some (k, RgRun v) \<longrightarrow> rg_map g' k = Some v)" if "w \<in> set ts" for w
      using inv that keep unfolding rg_inv_def by (auto; blast)
    from that have "u = t \<or> u \<in> set ts" using set_update_subset_insert by fast
    then show ?thesis
    proof
      assume "u = t"
      then show ?thesis using old[OF nth_mem[OF i]] dn run by auto
    next
      assume "u \<in> set ts"
      then show ?thesis by (rule old)
    qed
  qed
  ultimately show ?thesis using bnd inj by (auto simp: rg_inv_def)
qed

interpretation rg_pool: pool_invariant "\<lambda>_. RgLoad" NamedSpawn rg_inv
proof
  fix g ts i c cs
  assume a: "rg_inv g ts" "i < length ts" "th_cur (ts ! i) = None"
  show "rg_inv g (ts[i := (ts ! i)\<lparr>th_todo := cs, th_cur := Some (c, RgLoad)\<rparr>])"
    using a by (intro rg_inv_update[OF a(1,2), where rs = "[]"]) (auto simp: rg_inv_def rg_pending_def)
next
  fix g ts i c p g' p'
  assume a: "rg_inv g ts" "i < length ts" "th_cur (ts ! i) = Some (c, p)" "NamedSpawn g c p = Some (g', Inl p')"
  have b: "\<forall>v \<in> ran (rg_map g). v < rg_next g" "inj_on (rg_map g) (dom (rg_map g))"
    using a(1) by (simp_all add: rg_inv_def)
  show "rg_inv g' (ts[i := (ts ! i)\<lparr>th_cur := Some (c, p')\<rparr>])"
  proof (cases "p = RgLoad")
    case True
    then have "g' = g" "p' = RgLoadOrStore" using a(4) by (auto split: option.splits)
    then show ?thesis using a b True
      by (intro rg_inv_update[OF a(1,2), where rs = "[]"]) (auto simp: rg_pending_def)
  next
    case False
    then have p: "p = RgLoadOrStore" using a(4) by (cases p) auto
    then have n: "rg_map g c = None" and p': "p' = RgRun (rg_next g)"
      and g': "g' = g\<lparr>rg_map := (rg_map g)(c \<mapsto> rg_next g), rg_next := Suc (rg_next g)\<rparr>"
      using a(4) by (auto split: option.splits)
    note f = rg_fresh_inv[OF b n]
    show ?thesis using a(3) p b(1) f n
      by (intro rg_inv_update[OF a(1,2), where rs = "[]"])
        (auto simp: g' p' rg_pending_def less_Suc_eq simp del: fun_upd_apply dom_fun_upd, auto simp: fun_upd_apply)
  qed
next
  fix g ts i c p g' r
  assume a: "rg_inv g ts" "i < length ts" "th_cur (ts ! i) = Some (c, p)" "NamedSpawn g c p = Some (g', Inr r)"
  have b: "\<forall>v \<in> ran (rg_map g). v < rg_next g" "inj_on (rg_map g) (dom (rg_map g))"
    using a(1) by (simp_all add: rg_inv_def)
  have own: "p = RgRun v \<Longrightarrow> rg_map g c = Some v" for v
    using a(1,3) nth_mem[OF a(2)] by (auto simp: rg_inv_def)
  show "rg_inv g' (ts[i := (ts ! i)\<lparr>th_cur := None, th_done := th_done (ts ! i) @ [(c, r)]\<rparr>])"
  proof (rule rg_inv_update[OF a(1,2), where rs = "[(c, r)]"], goal_cases)
    case (4 v)
    then show ?case using a(3,4) by (cases p) (auto simp: rg_pending_def split: option.splits)
  qed (use a(3,4) b own in \<open>cases p; fastforce split: option.splits\<close>)+
qed

text \<open>C40: however the calls for names interleave, no goroutine is started twice, two names never share
  one, every caller of a name gets the object of that name, and when no call is running the
  goroutine of every name in the table has been started.\<close>

theorem NamedSpawn_once:
  assumes "pool_reach (\<lambda>_. RgLoad) NamedSpawn (new_registry, map thread_start css) (g, ts)"
  shows "distinct (rg_runs g) \<and> inj_on (rg_map g) (dom (rg_map g)) \<and>
    (\<forall>t \<in> set ts. \<forall>(k, v) \<in> set (th_done t). rg_map g k = Some v) \<and>
    ((\<forall>t \<in> set ts. th_cur t = None) \<longrightarrow> set (rg_runs g) = ran (rg_map g))"
proof -
  have "tsum (rg_pending v) (map thread_start css) = 0" for v
    by (intro tsum_zero) (auto simp: rg_pending_def thread_start_def)
  then have "rg_inv new_registry (map thread_start css)"
    by (auto simp: rg_inv_def new_registry_def thread_start_def)
  then have inv: "rg_inv g ts" by (rule rg_pool.reach_I[OF assms])
  have c: "int (count_list (rg_runs g) v) + tsum (rg_pending v) ts = (if v \<in> ran (rg_map g) then 1 else 0)" for v
    using inv by (simp add: rg_inv_def)
  have nn: "0 \<le> tsum (rg_pending v) ts" for v
    by (rule tsum_nonneg) (simp add: rg_pending_def split: option.splits prod.splits rg_pc.splits)
  have "count_list (rg_runs g) v \<le> 1" for v using c[of v] nn[of v] by (auto split: if_splits)
  then have "distinct (rg_runs g)" by (rule distinct_if_count)
  moreover have "set (rg_runs g) = ran (rg_map g)" if "\<forall>t \<in> set ts. th_cur t = None"
  proof -
    have z: "tsum (rg_pending v) ts = 0" for v using that by (intro tsum_zero) (simp add: rg_pending_def)
    have "v \<in> set (rg_runs g) \<longleftrightarrow> v \<in> ran (rg_map g)" for v
      using c[of v] z[of v] count_list_0_iff[of "rg_runs g" v] by (auto split: if_splits)
    then show ?thesis by blast
  qed
  ultimately show ?thesis using inv by (simp add: rg_inv_def)
qed

theorem NamedSpawn_once_witness:
  "case run_sched (\<lambda>_. RgLoad) NamedSpawn [0, 1, 0, 1, 0, 1, 0, 1] (new_registry, map thread_start [[''a''], [''a'']]) of
     (g, ts) \<Rightarrow> set (rg_runs g) = {0} \<and> distinct (rg_runs g)"
proof -
  let ?sched = "[0, 1, 0, 1, 0, 1, 0, 1 :: nat]"
  obtain g ts where r: "run_sched (\<lambda>_. RgLoad) NamedSpawn ?sched (new_registry, map thread_start [[''a''], [''a'']]) = (g, ts)"
    by fastforce
  have re: "pool_reach (\<lambda>_. RgLoad) NamedSpawn (new_registry, map thread_start [[''a''], [''a'']]) (g, ts)"
    using run_sched_reach[of "\<lambda>_. RgLoad" NamedSpawn "(new_registry, map thread_start [[''a''], [''a'']])" ?sched] r by simp
  have f: "(\<forall>t \<in> set ts. th_cur t = None) \<and> ran (rg_map g) = {0}"
    using r by (simp add: new_registry_def thread_start_def) auto
  then show ?thesis using NamedSpawn_once[OF re] unfolding r by simp
qed

end
