(* ===== verification/Gox_Named.thy ===== *)
theory Gox_Named
  imports Gox_Batch Gox_Queue
begin

section \<open>Queues by name\<close>

text \<open>
  \<open>BatchAdd\<close>, \<open>BatchFlush\<close>, \<open>BatchClose\<close>, \<open>ListAdd\<close> and \<open>ListClose\<close> of \<open>rivetxcore/gox/go.go\<close> look the name
  up in the map of the queues. A name that is missing is only logged. \<open>None\<close> is a send that blocks.
\<close>

type_synonym 'a batches = "string \<rightharpoonup> 'a BatchData"
type_synonym 'a lists = "string \<rightharpoonup> 'a ListData"

definition on_name :: "('q \<Rightarrow> 'q option) \<Rightarrow> (string \<rightharpoonup> 'q) \<Rightarrow> string \<Rightarrow> (string \<rightharpoonup> 'q) option" where
  "on_name f m key = (case m key of None \<Rightarrow> Some m | Some q \<Rightarrow> map_option (\<lambda>q'. m(key \<mapsto> q')) (f q))"

definition BatchAdd :: "'a batches \<Rightarrow> string \<Rightarrow> 'a \<Rightarrow> 'a batches option" where
  "BatchAdd m key x = on_name (\<lambda>b. Some (BatchSpawns_Add b x)) m key"
definition BatchFlush :: "bool \<Rightarrow> 'a batches \<Rightarrow> string \<Rightarrow> 'a batches option" where
  "BatchFlush late m key = on_name (BatchSpawns_Flush late) m key"
definition BatchClose :: "bool \<Rightarrow> 'a batches \<Rightarrow> string \<Rightarrow> 'a batches option" where
  "BatchClose late m key = on_name (BatchSpawns_Close late) m key"
definition ListAdd :: "'a lists \<Rightarrow> string \<Rightarrow> 'a option \<Rightarrow> 'a lists option" where
  "ListAdd m key x = on_name (ListSpawns_Add x) m key"
definition ListClose :: "'a lists \<Rightarrow> string \<Rightarrow> 'a lists option" where
  "ListClose m key = on_name ListSpawns_Close m key"

text \<open>A name is only added to by its own calls: the other queues do not change, and no queue appears.\<close>

lemma on_name_frame:
  assumes "on_name f m key = Some m'"
  shows "k \<noteq> key \<Longrightarrow> m' k = m k" and "dom m' = dom m"
  using assms by (auto simp: on_name_def split: option.splits if_splits)

end
