(* ===== verification/Tcp_Conn.thy ===== *)
theory Tcp_Conn
  imports Bufio_Reader Bufio_Writer Gox_Spawn
begin

section \<open>tcpx: the state of a connection\<close>

text \<open>
  \<open>rivetxcore/tcpx/tcp.go\<close>: a connection is a buffered reader and writer of \<open>bufiox\<close> over the socket,
  a channel of messages to write and one of messages for the service, and the reason why it closes.
  The socket is the reader and writer function of \<open>Io\<close>; the service is what its callbacks return.
  Calls of the callbacks that only notify are recorded in \<open>cn_calls\<close>. The errors of the package \<open>ee\<close>
  are kept as their cause and the texts they were wrapped in; \<open>text\<close> is the message of an error of
  the socket. A message is the bytes of its data.
\<close>

subsection \<open>Configuration\<close>

record TcpConf =
  tc_SocketWriteChanMsgSize :: int
  tc_SocketWriteFlushTime2 :: int
  tc_SocketConnectTimeout :: int
  tc_SocketReadTimeout :: int
  tc_SocketWriteTimeout :: int
  tc_SocketReadBuffer :: int
  tc_SocketWriteBuffer :: int
  tc_SocketNoDelay :: "bool option"
  tc_SocketPrintCloseErr :: bool
  tc_IsUnidirectionalTimeout :: bool
  tc_SocketDelayCloseTimeMs :: int
  tc_ReadBufferCache :: int
  tc_WriteBufferCache :: int
  tc_CheckTimeoutInterval :: int

definition NewTcpConf :: TcpConf where
  "NewTcpConf = \<lparr>tc_SocketWriteChanMsgSize = 1000, tc_SocketWriteFlushTime2 = 1, tc_SocketConnectTimeout = 10000,
     tc_SocketReadTimeout = 10000, tc_SocketWriteTimeout = 10000, tc_SocketReadBuffer = 1048576,
     tc_SocketWriteBuffer = 1048576, tc_SocketNoDelay = Some True, tc_SocketPrintCloseErr = False,
     tc_IsUnidirectionalTimeout = False, tc_SocketDelayCloseTimeMs = 2000, tc_ReadBufferCache = 4096,
     tc_WriteBufferCache = 4096, tc_CheckTimeoutInterval = 500\<rparr>"

subsection \<open>Why a connection closes\<close>

datatype close_type =
    TypClose | TypCloseQuit | TypCloseErr
  | TypCloseReadReset | TypCloseReadTimeout | TypCloseReadErr
  | TypCloseWriteReset | TypCloseWriteTimeout | TypCloseWriteErr

fun GetTypName :: "close_type \<Rightarrow> string" where
  "GetTypName TypClose = ''TypClose''"
| "GetTypName TypCloseQuit = ''TypCloseQuit''"
| "GetTypName TypCloseErr = ''TypCloseErr''"
| "GetTypName TypCloseReadReset = ''TypCloseReadReset''"
| "GetTypName TypCloseReadTimeout = ''TypCloseReadTimeout''"
| "GetTypName TypCloseReadErr = ''TypCloseReadErr''"
| "GetTypName TypCloseWriteReset = ''TypCloseWriteReset''"
| "GetTypName TypCloseWriteTimeout = ''TypCloseWriteTimeout''"
| "GetTypName TypCloseWriteErr = ''TypCloseWriteErr''"

datatype ee =
    EeNew "goerr option" string
  | EeWrap ee string

subsection \<open>The connection\<close>

datatype svc_call = CallReadTimeout bool | CallWriteTimeout bool | CallWriteErr | CallClose close_type

record ('r, 'w) Conn =
  cn_conf :: TcpConf
  cn_SessionId :: "64 word"
  cn_Reader :: "'r Reader"
  cn_writer :: "'w Writer"
  cn_writeChan :: "byte list list"
  cn_readChan :: "byte list list"
  cn_chansClosed :: bool
  cn_IsQuit :: bool
  cn_cancelled :: bool
  cn_mainDone :: bool
  cn_TypeClose :: close_type
  cn_TotalReadByte :: "64 word"
  cn_TotalWriteByte :: "64 word"
  cn_servicer :: bool
  cn_calls :: "svc_call list"

text \<open>\<open>NewConnService\<close>, over the socket \<open>r\<close>, \<open>w\<close>; the options it sets on the socket only log.\<close>

definition NewConnService :: "TcpConf \<Rightarrow> bool \<Rightarrow> 64 word \<Rightarrow> 'r \<Rightarrow> 'w \<Rightarrow> bool \<Rightarrow> ('r, 'w) Conn" where
  "NewConnService conf mainDone sessionId r w servicer =
     \<lparr>cn_conf = conf, cn_SessionId = sessionId,
      cn_Reader = NewReaderSize r (tc_ReadBufferCache conf),
      cn_writer = NewWriterSize w (tc_WriteBufferCache conf),
      cn_writeChan = [], cn_readChan = [], cn_chansClosed = False, cn_IsQuit = False, cn_cancelled = False,
      cn_mainDone = mainDone, cn_TypeClose = TypClose, cn_TotalReadByte = 0, cn_TotalWriteByte = 0,
      cn_servicer = servicer, cn_calls = []\<rparr>"

text \<open>The reason is set once: the first one stays.\<close>

definition set_TypeClose :: "close_type \<Rightarrow> ('r, 'w) Conn \<Rightarrow> ('r, 'w) Conn" where
  "set_TypeClose t c = (if cn_TypeClose c = TypClose then c\<lparr>cn_TypeClose := t\<rparr> else c)"

definition notify :: "svc_call \<Rightarrow> ('r, 'w) Conn \<Rightarrow> ('r, 'w) Conn" where
  "notify x c = (if cn_servicer c then c\<lparr>cn_calls := cn_calls c @ [x]\<rparr> else c)"

definition ConnService_QuitFunc :: "('r, 'w) Conn \<Rightarrow> ('r, 'w) Conn" where
  "ConnService_QuitFunc c =
     (if cn_IsQuit c then c
      else set_TypeClose TypCloseQuit (c\<lparr>cn_IsQuit := True\<rparr>)\<lparr>cn_cancelled := True\<rparr>)"

text \<open>What the goroutine that \<open>QuitFunc\<close> leaves behind does after its sleep.\<close>

definition quit_delay :: "TcpConf \<Rightarrow> int" where
  "quit_delay conf =
     (let ms = tc_SocketDelayCloseTimeMs conf; half = (if 0 < ms then ms div 2 else ms)
      in if half < 1000 then 1000 else half)"

definition close_chans :: "('r, 'w) Conn \<Rightarrow> ('r, 'w) Conn" where
  "close_chans c = c\<lparr>cn_chansClosed := True\<rparr>"

definition ConnService_IsTimeout :: "('r, 'w) Conn \<Rightarrow> bool" where
  "ConnService_IsTimeout c \<longleftrightarrow> cn_TypeClose c = TypCloseReadTimeout \<or> cn_TypeClose c = TypCloseWriteTimeout"

subsection \<open>Errors of the socket\<close>

fun errors_is :: "goerr \<Rightarrow> goerr \<Rightarrow> bool" where
  "errors_is (NetErr t e) target = (NetErr t e = target \<or> errors_is e target)"
| "errors_is e target = (e = target)"

definition bool_text :: "bool \<Rightarrow> string" where
  "bool_text b = (if b then ''true'' else ''false'')"

text \<open>The answer for a peer that closed: no error, unless the configuration asks for it.\<close>

definition closed_err :: "goerr \<Rightarrow> string \<Rightarrow> bool \<Rightarrow> ('r, 'w) Conn \<Rightarrow> bool \<times> ee option \<times> ('r, 'w) Conn" where
  "closed_err err what isRead c =
     (let c1 = set_TypeClose (if isRead then TypCloseReadReset else TypCloseWriteReset) c
      in if tc_SocketPrintCloseErr (cn_conf c1)
         then (True, Some (EeNew (Some err) (''closed '' @ what @ '' isRead:'' @ bool_text isRead)), c1)
         else (True, None, c1))"

definition SocketErr ::
  "(goerr \<Rightarrow> string) \<Rightarrow> goerr \<Rightarrow> bool \<Rightarrow> ('r, 'w) Conn \<Rightarrow> bool \<times> ee option \<times> ('r, 'w) Conn" where
  "SocketErr text err isRead c =
     (if (case err of NetErr t e \<Rightarrow> t | _ \<Rightarrow> False)
      then (True, Some (EeNew (Some err) (''Timeout error isRead:'' @ bool_text isRead)), c)
      else if errors_is err EPIPE then closed_err err ''syscall.EPIPE'' isRead c
      else if errors_is err ECONNRESET then closed_err err ''syscall.ECONNRESET'' isRead c
      else if errors_is err EOF then closed_err err ''io.EOF'' isRead c
      else if contains (text err) ''use of closed network connection''
      then closed_err err ''network connection'' isRead c
      else (let c1 = set_TypeClose (if isRead then TypCloseReadErr else TypCloseWriteErr) c
            in (True, Some (EeNew (Some err) (''SocketErr GetTypName:'' @ GetTypName (cn_TypeClose c1))), c1)))"

subsection \<open>ReadBytes\<close>

text \<open>What follows an error of the reader.\<close>

definition read_failed :: "(goerr \<Rightarrow> string) \<Rightarrow> goerr \<Rightarrow> ('r, 'w) Conn \<Rightarrow> bool \<times> ee option \<times> ('r, 'w) Conn" where
  "read_failed text err c =
     (let c1 = c\<lparr>cn_Reader := snd (Reader_ResetErr (cn_Reader c))\<rparr>
      in case SocketErr text err True c1 of
           (isClose, e, c2) \<Rightarrow>
             let c3 = (if cn_TypeClose c2 = TypClose
                       then notify (CallReadTimeout False) (c2\<lparr>cn_TypeClose := TypCloseReadTimeout\<rparr>)
                       else c2)
             in (isClose, map_option (\<lambda>x. EeWrap x ''connService.Reader.Read'') e, c3))"

text \<open>The loop of \<open>ReadBytes\<close>: \<open>done_\<close> bytes of \<open>data\<close> are filled. \<open>quit i\<close> is what the loop reads of
  \<open>IsQuit\<close> in round \<open>i\<close>, since other goroutines set it.\<close>

partial_function (option) ReadBytes_loop ::
  "'r rd_fun \<Rightarrow> (goerr \<Rightarrow> string) \<Rightarrow> (nat \<Rightarrow> bool) \<Rightarrow> nat \<Rightarrow> int \<Rightarrow> byte list \<Rightarrow> ('r, 'w) Conn \<Rightarrow>
     (byte list \<times> bool \<times> ee option \<times> ('r, 'w) Conn) go option" where
  "ReadBytes_loop rdf text quit i totalReadSize data c =
     (if quit i then Some (Inr (data, True, None, c))
      else (case Reader_Read rdf (drop (nat totalReadSize) data) (cn_Reader c) of
              Inl p \<Rightarrow> Some (Inl p)
            | Inr (p, n, err, rd) \<Rightarrow>
                let data1 = take (nat totalReadSize) data @ p;
                    c1 = c\<lparr>cn_Reader := rd\<rparr>;
                    c2 = (if 0 \<le> n then c1\<lparr>cn_TotalReadByte := cn_TotalReadByte c1 + word_of_int n\<rparr> else c1);
                    t1 = (if 0 \<le> n then totalReadSize + n else totalReadSize)
                in if 0 \<le> n \<and> int (length data) \<le> t1 then Some (Inr (data1, False, None, c2))
                   else (case err of
                           Some x \<Rightarrow>
                             (case read_failed text x c2 of (isClose, e, c3) \<Rightarrow> Some (Inr (data1, isClose, e, c3)))
                         | None \<Rightarrow> ReadBytes_loop rdf text quit (Suc i) t1 data1 c2)))"

declare ReadBytes_loop.simps [code]

definition ConnService_ReadBytes ::
  "'r rd_fun \<Rightarrow> (goerr \<Rightarrow> string) \<Rightarrow> (nat \<Rightarrow> bool) \<Rightarrow> byte list \<Rightarrow> ('r, 'w) Conn \<Rightarrow>
     (byte list \<times> bool \<times> ee option \<times> ('r, 'w) Conn) go option" where
  "ConnService_ReadBytes rdf text quit data c =
     (if data = [] then Some (Inr (data, False, Some (EeNew None ''len(data) == 0''), c))
      else ReadBytes_loop rdf text quit 0 0 data c)"

end
