(* ===== verification/Tcp_Conn_Spec.thy ===== *)
theory Tcp_Conn_Spec
  imports Tcp_Conn Bufio_Text_Spec Bufio_Writer_Spec
begin

section \<open>Reading from a connection\<close>

text \<open>The reason to close is set at most once, and \<open>ReadBytes\<close> over any source that ends: it returns, and
  what it stored is the next bytes of the stream.\<close>

subsection \<open>The reason to close\<close>

lemma set_TypeClose_simps [simp]:
  "cn_TypeClose (set_TypeClose t c) = (if cn_TypeClose c = TypClose then t else cn_TypeClose c)"
  "cn_Reader (set_TypeClose t c) = cn_Reader c" "cn_writer (set_TypeClose t c) = cn_writer c"
  "cn_conf (set_TypeClose t c) = cn_conf c" "cn_TotalReadByte (set_TypeClose t c) = cn_TotalReadByte c"
  "cn_TotalWriteByte (set_TypeClose t c) = cn_TotalWriteByte c" "cn_servicer (set_TypeClose t c) = cn_servicer c"
  "cn_writeChan (set_TypeClose t c) = cn_writeChan c" "cn_IsQuit (set_TypeClose t c) = cn_IsQuit c"
  "cn_chansClosed (set_TypeClose t c) = cn_chansClosed c" "cn_readChan (set_TypeClose t c) = cn_readChan c"
  by (simp_all add: set_TypeClose_def)

lemma notify_simps [simp]:
  "cn_TypeClose (notify x c) = cn_TypeClose c" "cn_Reader (notify x c) = cn_Reader c"
  "cn_writer (notify x c) = cn_writer c" "cn_conf (notify x c) = cn_conf c"
  "cn_TotalReadByte (notify x c) = cn_TotalReadByte c" "cn_TotalWriteByte (notify x c) = cn_TotalWriteByte c"
  "cn_writeChan (notify x c) = cn_writeChan c" "cn_IsQuit (notify x c) = cn_IsQuit c"
  "cn_chansClosed (notify x c) = cn_chansClosed c" "cn_servicer (notify x c) = cn_servicer c"
  "cn_readChan (notify x c) = cn_readChan c"
  by (simp_all add: notify_def)

text \<open>\<open>SocketErr\<close> always asks to close, changes nothing but the reason, and that only if there is none.\<close>

lemma SocketErr_ok:
  assumes "SocketErr text err isRead c = (isClose, e, c')"
  shows "isClose \<and> (c' = c \<or> (\<exists>t. t \<noteq> TypClose \<and> c' = set_TypeClose t c)) \<and>
    (cn_TypeClose c' = TypClose \<longrightarrow> (\<exists>x. err = NetErr True x))"
  using assms
  by (auto simp: SocketErr_def closed_err_def Let_def split: if_splits goerr.splits)

lemma SocketErr_eof:
  "SocketErr text EOF isRead c =
     (True, if tc_SocketPrintCloseErr (cn_conf c) then Some (EeNew (Some EOF) (''closed io.EOF isRead:'' @ bool_text isRead)) else None,
      set_TypeClose (if isRead then TypCloseReadReset else TypCloseWriteReset) c)"
  by (simp add: SocketErr_def closed_err_def Let_def)

subsection \<open>ReadBytes\<close>

definition read_post ::
  "('r \<Rightarrow> bool) \<Rightarrow> ('r \<Rightarrow> byte list) \<Rightarrow> (nat \<Rightarrow> bool) \<Rightarrow> byte list \<Rightarrow> ('r, 'w) Conn \<Rightarrow> nat \<Rightarrow>
     byte list \<times> bool \<times> ee option \<times> ('r, 'w) Conn \<Rightarrow> bool" where
  "read_post ok pending quit data c n r \<longleftrightarrow>
     (case r of (data', isClose, e, c') \<Rightarrow>
        n \<le> length data \<and> length data' = length data \<and> drop n data' = drop n data \<and>
        Reader_inv_eof ok pending (cn_Reader c') \<and>
        Reader_contents pending (cn_Reader c) = take n data' @ Reader_contents pending (cn_Reader c') \<and>
        cn_TotalReadByte c' = cn_TotalReadByte c + word_of_nat n \<and>
        (isClose \<longleftrightarrow> n < length data) \<and>
        (isClose \<longrightarrow>
           (\<exists>i. quit i) \<and> e = None \<and> cn_TypeClose c' = cn_TypeClose c \<or>
           Reader_contents pending (cn_Reader c') = [] \<and> cn_TypeClose c' \<noteq> TypClose \<and>
           (e = None \<longleftrightarrow> \<not> tc_SocketPrintCloseErr (cn_conf c))) \<and>
        (\<not> isClose \<longrightarrow> e = None \<and> cn_TypeClose c' = cn_TypeClose c))"

context io_reader_eof
begin

lemma read_failed_eof:
  assumes "Reader_inv_eof ok pending (cn_Reader c)"
  shows "\<exists>e c'. read_failed text EOF c = (True, e, c') \<and> Reader_inv_eof ok pending (cn_Reader c') \<and>
    Reader_contents pending (cn_Reader c') = Reader_contents pending (cn_Reader c) \<and>
    cn_TotalReadByte c' = cn_TotalReadByte c \<and> cn_TypeClose c' \<noteq> TypClose \<and>
    (e = None \<longleftrightarrow> \<not> tc_SocketPrintCloseErr (cn_conf c))"
  using assms
  by (auto simp: read_failed_def SocketErr_eof Let_def Reader_ResetErr_def Reader_readErr_def
      Reader_inv_eof_def Reader_inv_def Reader_wf_def Reader_contents_def Reader_unread_def)

text \<open>The loop, with \<open>t\<close> bytes read since the call on \<open>data0\<close> and \<open>c0\<close>.\<close>

lemma ReadBytes_loop_ok:
  assumes "Reader_inv_eof ok pending (cn_Reader c)" and "t < length data" and "length data = length data0"
    and "drop t data = drop t data0" and "cn_TypeClose c = cn_TypeClose c0" and "cn_conf c = cn_conf c0"
    and "Reader_contents pending (cn_Reader c0) = take t data @ Reader_contents pending (cn_Reader c)"
    and "cn_TotalReadByte c = cn_TotalReadByte c0 + word_of_nat t"
  shows "go_ends (ReadBytes_loop rdf text quit i (int t) data c) (\<lambda>r. \<exists>n. read_post ok pending quit data0 c0 n r)"
  using assms
proof (induction "length data - t" arbitrary: i t data c rule: less_induct)
  case less
  show ?case
  proof (cases "quit i")
    case True
    then have "\<exists>i. quit i" by blast
    then have "read_post ok pending quit data0 c0 t (data, True, None, c)"
      using less.prems by (simp add: read_post_def)
    then show ?thesis using True by (subst ReadBytes_loop.simps) auto
  next
    case False
    let ?p = "drop t data"
    obtain p n e rd where r: "Reader_Read rdf ?p (cn_Reader c) = Inr (p, n, e, rd)"
      using read_ok[OF Reader_inv_eof_inv[OF less.prems(1)], of ?p] by (auto elim!: go_returnsE)
    have ok: "0 \<le> n" "n \<le> int (length ?p)" "length p = length ?p" "drop (nat n) p = drop (nat n) ?p"
      "Reader_contents pending (cn_Reader c) = take (nat n) p @ Reader_contents pending rd"
      using read_ok[OF Reader_inv_eof_inv[OF less.prems(1)], of ?p] r by auto
    have eof: "Reader_inv_eof ok pending rd" "0 < n \<or> e \<noteq> None" "e \<noteq> None \<longrightarrow> e = Some EOF \<and> Reader_contents pending rd = []"
      using read_eof[OF less.prems(1) r] less.prems(2) by auto
    let ?c2 = "c\<lparr>cn_Reader := rd, cn_TotalReadByte := cn_TotalReadByte c + word_of_int n\<rparr>"
    let ?d = "take t data @ p" and ?t = "t + nat n"
    have tn: "int t + n = int ?t" using ok(1) by simp
    have ld: "length ?d = length data0" using ok(3) less.prems(2,3) by simp
    have tl: "take ?t ?d = take t data @ take (nat n) p" using less.prems(2) by simp
    have dr: "drop ?t ?d = drop ?t data0"
    proof -
      have "drop ?t ?d = drop (nat n) p" using less.prems(2) by simp
      also have "\<dots> = drop (nat n) (drop t data0)" using ok(4) less.prems(4) by simp
      finally show ?thesis by (simp add: add.commute)
    qed
    have c0: "Reader_contents pending (cn_Reader c0) = take ?t ?d @ Reader_contents pending rd"
      using less.prems(7) ok(5) tl by simp
    have tot: "cn_TotalReadByte ?c2 = cn_TotalReadByte c0 + word_of_nat ?t"
      using less.prems(8) ok(1) by simp
    have step: "ReadBytes_loop rdf text quit i (int t) data c =
        (if int (length data) \<le> int ?t then Some (Inr (?d, False, None, ?c2))
         else (case e of
                 Some x \<Rightarrow> (case read_failed text x ?c2 of (isClose, e, c3) \<Rightarrow> Some (Inr (?d, isClose, e, c3)))
               | None \<Rightarrow> ReadBytes_loop rdf text quit (Suc i) (int ?t) ?d ?c2))"
    proof -
      obtain m where m: "n = int m" using ok(1) by (rule nonneg_int_cases)
      show ?thesis using False r by (subst ReadBytes_loop.simps, cases e) (simp_all add: Let_def m)
    qed
    have tle: "?t \<le> length data0" using ok(1,2) less.prems(2,3) by simp
    show ?thesis
    proof (cases "int (length data) \<le> int ?t")
      case True
      then have n: "?t = length data0" using tle less.prems(3) by (metis le_antisym of_nat_le_iff)
      then show ?thesis using True step eof(1) ld c0 tot dr less.prems(5)
        by (auto simp: read_post_def intro!: exI[of _ ?t])
    next
      case rest: False
      show ?thesis
      proof (cases e)
        case (Some x)
        then have x: "x = EOF" "Reader_contents pending rd = []" using eof(3) by auto
        obtain e' c' where f: "read_failed text EOF ?c2 = (True, e', c')" "Reader_inv_eof ok pending (cn_Reader c')"
          "Reader_contents pending (cn_Reader c') = Reader_contents pending rd"
          "cn_TotalReadByte c' = cn_TotalReadByte ?c2" "cn_TypeClose c' \<noteq> TypClose"
          "e' = None \<longleftrightarrow> \<not> tc_SocketPrintCloseErr (cn_conf c)"
          using read_failed_eof[of ?c2 "text"] eof(1) by auto
        have res: "ReadBytes_loop rdf text quit i (int t) data c = Some (Inr (?d, True, e', c'))"
          using step rest Some x(1) f(1) by simp
        have "?t < length data0" using rest less.prems(3) by (metis not_le of_nat_le_iff)
        then have "read_post ok pending quit data0 c0 ?t (?d, True, e', c')"
          using f ld c0 tot dr less.prems(3,6) tle x(2) unfolding read_post_def by simp
        then show ?thesis unfolding res by auto
      next
        case None
        then have n0: "0 < n" using eof(2) by auto
        have "?t < length data0" using rest less.prems(3) by (metis not_le of_nat_le_iff)
        then have "go_ends (ReadBytes_loop rdf text quit (Suc i) (int ?t) ?d ?c2) (\<lambda>r. \<exists>n. read_post ok pending quit data0 c0 n r)"
          using less.hyps[of ?d ?t ?c2 "Suc i"] ld n0 eof(1) dr c0 tot less.prems by simp
        then show ?thesis using step rest None by simp
      qed
    qed
  qed
qed

lemma ReadBytes_ok:
  assumes "Reader_inv_eof ok pending (cn_Reader c)" and "data \<noteq> []"
  shows "go_ends (ConnService_ReadBytes rdf text quit data c) (\<lambda>r. \<exists>n. read_post ok pending quit data c n r)"
  using ReadBytes_loop_ok[OF assms(1), of 0 data data c "text" quit 0] assms(2)
  by (simp add: ConnService_ReadBytes_def)

end

end
