(* ===== verification/Tcp_Write.thy ===== *)
theory Tcp_Write
  imports Tcp_Conn_Spec
begin

section \<open>Writing to a connection\<close>

text \<open>
  \<open>ConnService.Write\<close> of \<open>rivetxcore/tcpx/tcp.go\<close> is the only goroutine that writes to the socket. It
  takes messages from the channel, lets the service look at each, writes it to the buffered writer,
  and flushes the writer when the channel stays empty for the flush time. \<open>svc_write\<close> and
  \<open>svc_err\<close> are what the callbacks of the service return; \<open>svc_write\<close> may panic.
\<close>

subsection \<open>One message\<close>

definition write_failed ::
  "(goerr \<Rightarrow> string) \<Rightarrow> (byte list \<Rightarrow> ee \<Rightarrow> ee option) \<Rightarrow> byte list \<Rightarrow> goerr \<Rightarrow> ('r, 'w) Conn \<Rightarrow>
     (bool \<times> ee option) \<times> ('r, 'w) Conn" where
  "write_failed text svc_err msg err c =
     (let c1 = c\<lparr>cn_writer := snd (Writer_ResetErr (cn_writer c))\<rparr>
      in case SocketErr text err False c1 of
           (isClose, e, c2) \<Rightarrow>
             let c3 = (if cn_TypeClose c2 = TypClose
                       then notify (CallWriteTimeout False) (c2\<lparr>cn_TypeClose := TypCloseWriteTimeout\<rparr>)
                       else c2)
             in (case e of
                   None \<Rightarrow> ((isClose, None), c3)
                 | Some x \<Rightarrow>
                     if cn_servicer c3
                     then (case svc_err msg x of
                             Some x2 \<Rightarrow> ((isClose, Some (EeWrap x2 ''service.writer.Write'')), notify CallWriteErr c3)
                           | None \<Rightarrow> ((isClose, Some (EeWrap x ''service.writer.Write'')), notify CallWriteErr c3))
                     else ((isClose, Some (EeWrap x ''service.writer.Write'')), c3)))"

partial_function (option) writeFunc_loop ::
  "'w wr_fun \<Rightarrow> (goerr \<Rightarrow> string) \<Rightarrow> (byte list \<Rightarrow> ee \<Rightarrow> ee option) \<Rightarrow> int \<Rightarrow> byte list \<Rightarrow> ('r, 'w) Conn \<Rightarrow>
     ((bool \<times> ee option) go \<times> ('r, 'w) Conn) option" where
  "writeFunc_loop wrf text svc_err totalWritten data c =
     (if totalWritten < int (length data)
      then (case Writer_Write wrf (drop (nat totalWritten) data) (cn_writer c) of
              None \<Rightarrow> None
            | Some (Inl p) \<Rightarrow> Some (Inl p, c)
            | Some (Inr (n, err, b)) \<Rightarrow>
                let c1 = c\<lparr>cn_writer := b\<rparr>;
                    c2 = (if 0 \<le> n then c1\<lparr>cn_TotalWriteByte := cn_TotalWriteByte c1 + word_of_int n\<rparr> else c1);
                    t1 = (if 0 \<le> n then totalWritten + n else totalWritten)
                in if 0 \<le> n \<and> int (length data) \<le> t1 then Some (Inr (False, None), c2)
                   else (case err of
                           Some x \<Rightarrow> (case write_failed text svc_err data x c2 of (r, c3) \<Rightarrow> Some (Inr r, c3))
                         | None \<Rightarrow> writeFunc_loop wrf text svc_err t1 data c2))
      else Some (Inr (False, None), c))"

declare writeFunc_loop.simps [code]

text \<open>The result says whether to stop and with which error; a panic of the service is kept.\<close>

definition writeFunc ::
  "'w wr_fun \<Rightarrow> (goerr \<Rightarrow> string) \<Rightarrow> (byte list \<Rightarrow> (bool \<times> ee option) go) \<Rightarrow> (byte list \<Rightarrow> ee \<Rightarrow> ee option) \<Rightarrow>
     byte list \<Rightarrow> ('r, 'w) Conn \<Rightarrow> ((bool \<times> ee option) go \<times> ('r, 'w) Conn) option" where
  "writeFunc wrf text svc_write svc_err msg c =
     (if cn_servicer c
      then (case svc_write msg of
              Inl p \<Rightarrow> Some (Inl p, c)
            | Inr (isDiscard, Some e) \<Rightarrow> Some (Inr (True, Some e), set_TypeClose TypCloseErr c)
            | Inr (isDiscard, None) \<Rightarrow>
                if isDiscard then Some (Inr (False, None), c)
                else writeFunc_loop wrf text svc_err 0 msg c)
      else writeFunc_loop wrf text svc_err 0 msg c)"

subsection \<open>The goroutine\<close>

datatype write_pc =
    WOuter                              \<comment> \<open>the outer select\<close>
  | WInner                              \<comment> \<open>the inner select, behind a message\<close>
  | WEnd "ee option" "goerr option"     \<comment> \<open>what it returned, and the error of its last flush\<close>

datatype write_event = EvMsg | EvTimer | EvDone

record ('r, 'w) WriteState =
  ws_conn :: "('r, 'w) Conn"
  ws_pc :: write_pc
  ws_armed :: bool                      \<comment> \<open>\<open>timeoutChan\<close> is not nil\<close>
  ws_taken :: "byte list list"
  ws_put :: "byte list list"
  ws_submitted :: "byte list list"

text \<open>The deferred \<open>Flush\<close>, then \<open>QuitFunc\<close>; a panic was recovered.\<close>

definition write_end :: "'w wr_fun \<Rightarrow> ee option \<Rightarrow> ('r, 'w) WriteState \<Rightarrow> ('r, 'w) WriteState" where
  "write_end wrf e s =
     (let c = ws_conn s
      in case Writer_Flush wrf (cn_writer c) of
           Inl p \<Rightarrow> s\<lparr>ws_conn := ConnService_QuitFunc c, ws_pc := WEnd None (w_err (cn_writer c))\<rparr>
         | Inr (fe, b) \<Rightarrow> s\<lparr>ws_conn := ConnService_QuitFunc (c\<lparr>cn_writer := b\<rparr>), ws_pc := WEnd e fe\<rparr>)"

definition write_flush :: "'w wr_fun \<Rightarrow> ('r, 'w) WriteState \<Rightarrow> ('r, 'w) WriteState" where
  "write_flush wrf s =
     (case Writer_Flush wrf (cn_writer (ws_conn s)) of
        Inl p \<Rightarrow> write_end wrf None s
      | Inr (fe, b) \<Rightarrow> s\<lparr>ws_conn := (ws_conn s)\<lparr>cn_writer := b\<rparr>\<rparr>)"

text \<open>A message is taken, written and, whatever happens, put back.\<close>

definition write_msg ::
  "'w wr_fun \<Rightarrow> (goerr \<Rightarrow> string) \<Rightarrow> (byte list \<Rightarrow> (bool \<times> ee option) go) \<Rightarrow> (byte list \<Rightarrow> ee \<Rightarrow> ee option) \<Rightarrow>
     byte list \<Rightarrow> byte list list \<Rightarrow> ('r, 'w) WriteState \<Rightarrow> ('r, 'w) WriteState option" where
  "write_msg wrf text svc_write svc_err msg rest s =
     (case writeFunc wrf text svc_write svc_err msg ((ws_conn s)\<lparr>cn_writeChan := rest\<rparr>) of
        None \<Rightarrow> None
      | Some (r, c) \<Rightarrow>
          let s1 = s\<lparr>ws_conn := c, ws_armed := False, ws_taken := ws_taken s @ [msg], ws_put := ws_put s @ [msg]\<rparr>
          in Some (case r of
                     Inl p \<Rightarrow> write_end wrf None s1
                   | Inr (isClose, Some e) \<Rightarrow> write_end wrf (Some (EeWrap e ''writeFunc'')) s1
                   | Inr (isClose, None) \<Rightarrow> if isClose then write_end wrf None s1 else s1\<lparr>ws_pc := WInner\<rparr>))"

definition ConnService_Write ::
  "'w wr_fun \<Rightarrow> (goerr \<Rightarrow> string) \<Rightarrow> (byte list \<Rightarrow> (bool \<times> ee option) go) \<Rightarrow> (byte list \<Rightarrow> ee \<Rightarrow> ee option) \<Rightarrow>
     write_event \<Rightarrow> ('r, 'w) WriteState \<Rightarrow> ('r, 'w) WriteState option" where
  "ConnService_Write wrf text svc_write svc_err ev s =
     (let c = ws_conn s
      in case ws_pc s of
           WOuter \<Rightarrow>
             (case ev of
                EvMsg \<Rightarrow>
                  (case cn_writeChan c of
                     msg # rest \<Rightarrow> write_msg wrf text svc_write svc_err msg rest s
                   | [] \<Rightarrow> if cn_chansClosed c then Some (write_end wrf None s) else None)
              | EvTimer \<Rightarrow>
                  if ws_armed s
                  then Some (let s1 = s\<lparr>ws_armed := False\<rparr>
                             in if 0 < Writer_Buffered (cn_writer c) then write_flush wrf s1 else s1)
                  else None
              | EvDone \<Rightarrow> if cn_cancelled c \<or> cn_mainDone c then Some (write_end wrf None s) else None)
         | WInner \<Rightarrow>
             (case cn_writeChan c of
                msg # rest \<Rightarrow> write_msg wrf text svc_write svc_err msg rest s
              | [] \<Rightarrow>
                  if cn_chansClosed c then Some (write_end wrf None s)
                  else Some (let s1 = s\<lparr>ws_pc := WOuter\<rparr>
                             in if 0 < Writer_Buffered (cn_writer c)
                                then (if 0 < tc_SocketWriteFlushTime2 (cn_conf c) \<and> \<not> cn_IsQuit c
                                      then s1\<lparr>ws_armed := True\<rparr>
                                      else write_flush wrf s1)
                                else s1))
         | WEnd e fe \<Rightarrow> None)"

subsection \<open>The other goroutines\<close>

text \<open>\<open>TryWriteChan\<close>: the message is refused once the connection quits, to its own session, and where the
  channel is full. \<open>WriteChan\<close> waits in that case: \<open>late\<close> is the end of the connection or the time-out.
  A send on a channel that is closed would panic.\<close>

definition chan_room :: "('r, 'w) Conn \<Rightarrow> byte list list \<Rightarrow> bool" where
  "chan_room c ch \<longleftrightarrow> int (length ch) < tc_SocketWriteChanMsgSize (cn_conf c)"

definition ConnService_TryWriteChan :: "64 word \<Rightarrow> byte list \<Rightarrow> ('r, 'w) Conn \<Rightarrow> (bool \<times> ('r, 'w) Conn) go" where
  "ConnService_TryWriteChan sessionId msg c =
     (if cn_IsQuit c then Inr (False, c)
      else if sessionId = cn_SessionId c then Inr (False, c)
      else if cn_chansClosed c then Inl ChanClosed
      else if chan_room c (cn_writeChan c) then Inr (True, c\<lparr>cn_writeChan := cn_writeChan c @ [msg]\<rparr>)
      else Inr (False, c))"

definition ConnService_WriteChan :: "bool \<Rightarrow> 64 word \<Rightarrow> byte list \<Rightarrow> ('r, 'w) Conn \<Rightarrow> (bool \<times> ('r, 'w) Conn) go option" where
  "ConnService_WriteChan late sessionId msg c =
     (if cn_IsQuit c then Some (Inr (False, c))
      else if sessionId = cn_SessionId c then Some (Inr (False, c))
      else (case ConnService_TryWriteChan sessionId msg c of
              Inl p \<Rightarrow> Some (Inl p)
            | Inr (True, c1) \<Rightarrow> Some (Inr (True, c1))
            | Inr (False, c1) \<Rightarrow>
                if late then Some (Inr (False, c1))
                else if cn_chansClosed c1 then Some (Inl ChanClosed)
                else if chan_room c1 (cn_writeChan c1) then Some (Inr (True, c1\<lparr>cn_writeChan := cn_writeChan c1 @ [msg]\<rparr>))
                else None))"

definition ConnService_TryWriteToReadChan :: "64 word \<Rightarrow> byte list \<Rightarrow> ('r, 'w) Conn \<Rightarrow> (bool \<times> ('r, 'w) Conn) go" where
  "ConnService_TryWriteToReadChan sessionId msg c =
     (if cn_IsQuit c then Inr (False, c)
      else if sessionId = cn_SessionId c then Inr (False, c)
      else if cn_chansClosed c then Inl ChanClosed
      else if chan_room c (cn_readChan c) then Inr (True, c\<lparr>cn_readChan := cn_readChan c @ [msg]\<rparr>)
      else Inr (False, c))"

definition ConnService_WriteToReadChan ::
  "bool \<Rightarrow> 64 word \<Rightarrow> byte list \<Rightarrow> ('r, 'w) Conn \<Rightarrow> (bool \<times> ('r, 'w) Conn) go option" where
  "ConnService_WriteToReadChan late sessionId msg c =
     (if cn_IsQuit c then Some (Inr (False, c))
      else if sessionId = cn_SessionId c then Some (Inr (False, c))
      else (case ConnService_TryWriteToReadChan sessionId msg c of
              Inl p \<Rightarrow> Some (Inl p)
            | Inr (True, c1) \<Rightarrow> Some (Inr (True, c1))
            | Inr (False, c1) \<Rightarrow>
                if late then Some (Inr (False, c1))
                else if cn_chansClosed c1 then Some (Inl ChanClosed)
                else if chan_room c1 (cn_readChan c1) then Some (Inr (True, c1\<lparr>cn_readChan := cn_readChan c1 @ [msg]\<rparr>))
                else None))"

end
