(* ===== verification/Tcp_Write_Spec.thy ===== *)
theory Tcp_Write_Spec
  imports Tcp_Write
begin

section \<open>The writing goroutine under every interleaving\<close>

text \<open>A step is one of the goroutine, a message another goroutine sends, or anything else the other
  goroutines do: they never touch the writer, and the channel only through \<open>WriteChan\<close>.\<close>

inductive tcp_step ::
  "'w wr_fun \<Rightarrow> (goerr \<Rightarrow> string) \<Rightarrow> (byte list \<Rightarrow> (bool \<times> ee option) go) \<Rightarrow> (byte list \<Rightarrow> ee \<Rightarrow> ee option) \<Rightarrow>
     ('r, 'w) WriteState \<Rightarrow> ('r, 'w) WriteState \<Rightarrow> bool"
  for wrf :: "'w wr_fun" and tx :: "goerr \<Rightarrow> string" and svc_write :: "byte list \<Rightarrow> (bool \<times> ee option) go"
    and svc_err :: "byte list \<Rightarrow> ee \<Rightarrow> ee option" where
  run: "ConnService_Write wrf tx svc_write svc_err ev s = Some s' \<Longrightarrow> tcp_step wrf tx svc_write svc_err s s'"
| send: "ConnService_WriteChan late sessionId msg (ws_conn s) = Some (Inr (b, c)) \<Longrightarrow>
    tcp_step wrf tx svc_write svc_err s
      (s\<lparr>ws_conn := c, ws_submitted := ws_submitted s @ (if b then [msg] else [])\<rparr>)"
| other: "\<lbrakk> cn_writer c = cn_writer (ws_conn s); cn_writeChan c = cn_writeChan (ws_conn s);
            cn_servicer c = cn_servicer (ws_conn s) \<rbrakk> \<Longrightarrow>
    tcp_step wrf tx svc_write svc_err s (s\<lparr>ws_conn := c\<rparr>)"

definition write_start :: "('r, 'w) Conn \<Rightarrow> ('r, 'w) WriteState" where
  "write_start c = \<lparr>ws_conn = c, ws_pc = WOuter, ws_armed = False, ws_taken = [], ws_put = [],
     ws_submitted = cn_writeChan c\<rparr>"

text \<open>The messages that are meant for the socket.\<close>

definition to_send :: "bool \<Rightarrow> (byte list \<Rightarrow> (bool \<times> ee option) go) \<Rightarrow> byte list list \<Rightarrow> byte list list" where
  "to_send servicer svc_write msgs = filter (\<lambda>m. servicer \<longrightarrow> svc_write m = Inr (False, None)) msgs"

subsection \<open>What a step leaves alone\<close>

lemma QuitFunc_simps [simp]:
  "cn_writer (ConnService_QuitFunc c) = cn_writer c" "cn_writeChan (ConnService_QuitFunc c) = cn_writeChan c"
  "cn_servicer (ConnService_QuitFunc c) = cn_servicer c"
  by (simp_all add: ConnService_QuitFunc_def)

lemma WriteChan_ok:
  assumes "ConnService_WriteChan late sessionId msg c = Some (Inr (b, c'))"
  shows "c' = (if b then c\<lparr>cn_writeChan := cn_writeChan c @ [msg]\<rparr> else c)"
  using assms
  by (auto simp: ConnService_WriteChan_def ConnService_TryWriteChan_def
      split: if_splits sum.splits bool.splits)

lemma write_failed_simps:
  assumes "write_failed text svc_err msg err c = (r, c')"
  shows "fst r" "cn_writer c' = snd (Writer_ResetErr (cn_writer c))" "cn_writeChan c' = cn_writeChan c"
    "cn_servicer c' = cn_servicer c" "cn_TotalWriteByte c' = cn_TotalWriteByte c" "cn_TypeClose c' \<noteq> TypClose"
proof -
  let ?c1 = "c\<lparr>cn_writer := snd (Writer_ResetErr (cn_writer c))\<rparr>"
  obtain isClose e c2 where s: "SocketErr text err False ?c1 = (isClose, e, c2)" by (metis prod_cases3)
  note k = SocketErr_ok[OF s]
  have c2: "cn_writer c2 = cn_writer ?c1" "cn_writeChan c2 = cn_writeChan c" "cn_servicer c2 = cn_servicer c"
    "cn_TotalWriteByte c2 = cn_TotalWriteByte c"
    using k by auto
  show "fst r" "cn_writer c' = snd (Writer_ResetErr (cn_writer c))" "cn_writeChan c' = cn_writeChan c"
    "cn_servicer c' = cn_servicer c" "cn_TotalWriteByte c' = cn_TotalWriteByte c" "cn_TypeClose c' \<noteq> TypClose"
    using assms s k c2 by (auto simp: write_failed_def Let_def split: option.splits if_splits)
qed

text \<open>The socket and the buffer hold all the messages that were taken and are to be sent; or, at the end, all
  but the last, of which the first bytes.\<close>

definition delivered :: "('w \<Rightarrow> byte list) \<Rightarrow> (byte list \<Rightarrow> (bool \<times> ee option) go) \<Rightarrow> byte list \<Rightarrow> ('r, 'w) WriteState \<Rightarrow> bool" where
  "delivered sink svc_write out0 s \<longleftrightarrow>
     Writer_out sink (cn_writer (ws_conn s)) =
       out0 @ concat (to_send (cn_servicer (ws_conn s)) svc_write (ws_taken s))"

definition cut_short :: "('w \<Rightarrow> byte list) \<Rightarrow> (byte list \<Rightarrow> (bool \<times> ee option) go) \<Rightarrow> byte list \<Rightarrow> ('r, 'w) WriteState \<Rightarrow> bool" where
  "cut_short sink svc_write out0 s \<longleftrightarrow>
     ws_taken s \<noteq> [] \<and>
     (\<exists>k. Writer_out sink (cn_writer (ws_conn s)) =
        out0 @ concat (to_send (cn_servicer (ws_conn s)) svc_write (butlast (ws_taken s))) @ take k (last (ws_taken s)))"

definition write_inv :: "('w \<Rightarrow> bool) \<Rightarrow> ('w \<Rightarrow> byte list) \<Rightarrow> (byte list \<Rightarrow> (bool \<times> ee option) go) \<Rightarrow> byte list \<Rightarrow> ('r, 'w) WriteState \<Rightarrow> bool" where
  "write_inv ok sink svc_write out0 s \<longleftrightarrow>
     Writer_inv ok (cn_writer (ws_conn s)) \<and> ws_put s = ws_taken s \<and>
     (case ws_pc s of
        WEnd e fe \<Rightarrow>
          (delivered sink svc_write out0 s \<or> cut_short sink svc_write out0 s) \<and>
          (fe = None \<longrightarrow> sink (w_wr (cn_writer (ws_conn s))) = Writer_out sink (cn_writer (ws_conn s)))
      | WInner \<Rightarrow> delivered sink svc_write out0 s
      | WOuter \<Rightarrow> delivered sink svc_write out0 s \<and>
          (0 < w_n (cn_writer (ws_conn s)) \<longrightarrow> ws_armed s \<or> w_err (cn_writer (ws_conn s)) \<noteq> None))"

subsection \<open>The bytes\<close>

context io_writer
begin

lemma reset_inv:
  assumes "Writer_inv ok b"
  shows "Writer_inv ok (snd (Writer_ResetErr b))" and "Writer_out sink (snd (Writer_ResetErr b)) = Writer_out sink b"
  using assms
  by (simp_all add: Writer_ResetErr_def Writer_readErr_def Writer_inv_def Writer_wf_def Writer_out_def Writer_pending_def)

text \<open>One message: all of it is accepted, or the first bytes and the goroutine is told to close.\<close>

lemma writeFunc_loop_ok:
  assumes inv: "Writer_inv ok (cn_writer c)"
  shows "\<exists>r c' k. writeFunc_loop wrf text svc_err 0 data c = Some (Inr r, c') \<and> k \<le> length data \<and>
    Writer_inv ok (cn_writer c') \<and> Writer_out sink (cn_writer c') = Writer_out sink (cn_writer c) @ take k data \<and>
    cn_TotalWriteByte c' = cn_TotalWriteByte c + word_of_nat k \<and>
    cn_writeChan c' = cn_writeChan c \<and> cn_servicer c' = cn_servicer c \<and>
    (if fst r then k < length data else k = length data \<and> r = (False, None))"
proof (cases "data = []")
  case True
  then show ?thesis using inv by (subst writeFunc_loop.simps) auto
next
  case False
  obtain n e b where w: "Writer_Write wrf data (cn_writer c) = Some (Inr (n, e, b))"
    "Writer_inv ok b" "0 \<le> n" "n \<le> int (length data)"
    "Writer_out sink b = Writer_out sink (cn_writer c) @ take (nat n) data" "n < int (length data) \<longrightarrow> e \<noteq> None"
    using write_ok[OF inv, of data] by (auto simp: write_post_def elim!: go_endsE)
  obtain k where k: "n = int k" using w(3) by (rule nonneg_int_cases)
  let ?c2 = "c\<lparr>cn_writer := b, cn_TotalWriteByte := cn_TotalWriteByte c + word_of_int n\<rparr>"
  show ?thesis
  proof (cases "length data \<le> k")
    case True
    then show ?thesis using w k False
      by (subst writeFunc_loop.simps) (auto simp: Let_def intro!: exI[of _ "length data"])
  next
    case lt: False
    then obtain x where x: "e = Some x" using w(6) k by auto
    obtain r c' where f: "write_failed text svc_err data x ?c2 = (r, c')" by (metis surj_pair)
    have "writeFunc_loop wrf text svc_err 0 data c = Some (Inr r, c')"
      using w(1,3) k lt x f False by (subst writeFunc_loop.simps) (simp add: Let_def)
    then show ?thesis
      using write_failed_simps[OF f] reset_inv[OF w(2)] w(5) lt k
      by (intro exI[of _ r] exI[of _ c'] exI[of _ k]) auto
  qed
qed

lemma writeFunc_ok:
  assumes inv: "Writer_inv ok (cn_writer c)"
  shows "\<exists>r c' k. writeFunc wrf text svc_write svc_err msg c = Some (r, c') \<and>
    Writer_inv ok (cn_writer c') \<and> Writer_out sink (cn_writer c') = Writer_out sink (cn_writer c) @ take k msg \<and>
    cn_writeChan c' = cn_writeChan c \<and> cn_servicer c' = cn_servicer c \<and>
    (r = Inr (False, None) \<longrightarrow>
       take k msg = concat (to_send (cn_servicer c) svc_write [msg]))"
proof (cases "cn_servicer c \<longrightarrow> svc_write msg = Inr (False, None)")
  case True
  then have w: "writeFunc wrf text svc_write svc_err msg c = writeFunc_loop wrf text svc_err 0 msg c"
    by (cases "cn_servicer c") (simp_all add: writeFunc_def)
  obtain r c' k where l: "writeFunc_loop wrf text svc_err 0 msg c = Some (Inr r, c')"
    "Writer_inv ok (cn_writer c')" "Writer_out sink (cn_writer c') = Writer_out sink (cn_writer c) @ take k msg"
    "cn_writeChan c' = cn_writeChan c" "cn_servicer c' = cn_servicer c"
    "if fst r then k < length msg else k = length msg \<and> r = (False, None)"
    using writeFunc_loop_ok[OF inv, of "text" svc_err msg] by (elim exE conjE) (rule that)
  have "Inr r = (Inr (False, None) :: (bool \<times> ee option) go) \<longrightarrow> take k msg = concat (to_send (cn_servicer c) svc_write [msg])"
    using l(6) True by (cases r) (auto simp: to_send_def)
  then show ?thesis unfolding w using l(1-5) by (intro exI[of _ "Inr r"] exI[of _ c'] exI[of _ k] conjI) assumption+
next
  case False
  have "\<exists>r c'. writeFunc wrf text svc_write svc_err msg c = Some (r, c') \<and> (c' = c \<or> c' = set_TypeClose TypCloseErr c)"
  proof (cases "svc_write msg")
    case (Inr x)
    then show ?thesis using False by (cases x; cases "snd x"; cases "fst x") (auto simp: writeFunc_def)
  qed (use False in \<open>simp add: writeFunc_def\<close>)
  then show ?thesis using inv False by (auto simp: to_send_def intro!: exI[of _ 0])
qed

text \<open>The last flush, and a flush in between.\<close>

lemma Flush_conn:
  assumes "Writer_inv ok b"
  shows "\<exists>fe b'. Writer_Flush wrf b = Inr (fe, b') \<and> Writer_inv ok b' \<and> Writer_out sink b' = Writer_out sink b \<and>
    w_err b' = fe \<and> (fe = None \<longrightarrow> w_n b' = 0 \<and> sink (w_wr b') = Writer_out sink b)"
  using flush_ok[OF assms] by (auto elim!: go_returnsE)

lemma write_end_inv:
  assumes "Writer_inv ok (cn_writer (ws_conn s))" and "ws_put s = ws_taken s"
    and "delivered sink svc_write out0 s \<or> cut_short sink svc_write out0 s"
  shows "write_inv ok sink svc_write out0 (write_end wrf e s)"
proof -
  obtain fe b' where f: "Writer_Flush wrf (cn_writer (ws_conn s)) = Inr (fe, b')" "Writer_inv ok b'"
    "Writer_out sink b' = Writer_out sink (cn_writer (ws_conn s))"
    "fe = None \<longrightarrow> sink (w_wr b') = Writer_out sink (cn_writer (ws_conn s))"
    using Flush_conn[OF assms(1)] by auto
  then show ?thesis using assms
    by (auto simp: write_end_def Let_def write_inv_def delivered_def cut_short_def)
qed

lemma write_flush_inv:
  assumes "Writer_inv ok (cn_writer (ws_conn s))" and "ws_put s = ws_taken s" and "delivered sink svc_write out0 s"
    and "ws_pc s = WOuter"
  shows "write_inv ok sink svc_write out0 (write_flush wrf s)"
proof -
  obtain fe b' where f: "Writer_Flush wrf (cn_writer (ws_conn s)) = Inr (fe, b')" "Writer_inv ok b'"
    "Writer_out sink b' = Writer_out sink (cn_writer (ws_conn s))" "w_err b' = fe" "fe = None \<longrightarrow> w_n b' = 0"
    using Flush_conn[OF assms(1)] by auto
  then show ?thesis using assms
    by (auto simp: write_flush_def write_inv_def delivered_def)
qed

lemma write_msg_inv:
  assumes inv: "Writer_inv ok (cn_writer (ws_conn s))" and put: "ws_put s = ws_taken s" and d: "delivered sink svc_write out0 s"
    and r: "write_msg wrf text svc_write svc_err msg rest s = Some s'"
  shows "write_inv ok sink svc_write out0 s'"
proof -
  let ?c = "(ws_conn s)\<lparr>cn_writeChan := rest\<rparr>"
  obtain res c' k where w: "writeFunc wrf text svc_write svc_err msg ?c = Some (res, c')" "Writer_inv ok (cn_writer c')"
    "Writer_out sink (cn_writer c') = Writer_out sink (cn_writer (ws_conn s)) @ take k msg"
    "cn_servicer c' = cn_servicer (ws_conn s)"
    "res = Inr (False, None) \<longrightarrow> take k msg = concat (to_send (cn_servicer (ws_conn s)) svc_write [msg])"
    using writeFunc_ok[of ?c "text" svc_write svc_err msg] inv by auto
  define s1 where "s1 = s\<lparr>ws_conn := c', ws_armed := False, ws_taken := ws_taken s @ [msg], ws_put := ws_put s @ [msg]\<rparr>"
  have i1: "Writer_inv ok (cn_writer (ws_conn s1))" "ws_put s1 = ws_taken s1" using w(2) put by (simp_all add: s1_def)
  have cut: "cut_short sink svc_write out0 s1" using d w(3,4) by (auto simp: s1_def cut_short_def delivered_def)
  have full: "delivered sink svc_write out0 s1" if "res = Inr (False, None)"
    using d w(3-5) that by (simp add: s1_def delivered_def to_send_def)
  have ends: "write_inv ok sink svc_write out0 (write_end wrf e s1)" for e
    using write_end_inv[OF i1] cut by blast
  have s': "s' = (case res of
                     Inl p \<Rightarrow> write_end wrf None s1
                   | Inr (isClose, Some e) \<Rightarrow> write_end wrf (Some (EeWrap e ''writeFunc'')) s1
                   | Inr (isClose, None) \<Rightarrow> if isClose then write_end wrf None s1 else s1\<lparr>ws_pc := WInner\<rparr>)"
    using r w(1) unfolding write_msg_def s1_def Let_def by simp
  have "write_inv ok sink svc_write out0 (s1\<lparr>ws_pc := WInner\<rparr>)" if "res = Inr (False, None)"
    using full[OF that] i1 by (simp add: write_inv_def delivered_def)
  then show ?thesis unfolding s' using ends by (auto split: sum.splits option.splits)
qed

lemma ConnService_Write_inv:
  assumes inv: "write_inv ok sink svc_write out0 s" and r: "ConnService_Write wrf text svc_write svc_err ev s = Some s'"
  shows "write_inv ok sink svc_write out0 s'"
proof -
  have w: "Writer_inv ok (cn_writer (ws_conn s))" and p: "ws_put s = ws_taken s" using inv by (simp_all add: write_inv_def)
  have d: "delivered sink svc_write out0 s" if "ws_pc s = WOuter \<or> ws_pc s = WInner"
    using inv that by (auto simp: write_inv_def)
  have en: "write_inv ok sink svc_write out0 (write_end wrf None s)" if "ws_pc s = WOuter \<or> ws_pc s = WInner"
    using write_end_inv[OF w p] d[OF that] by blast
  have upd: "write_inv ok sink svc_write out0 s1"
    if "ws_conn s1 = ws_conn s" "ws_taken s1 = ws_taken s" "ws_put s1 = ws_put s" "ws_pc s1 = WOuter"
      "ws_pc s = WOuter \<or> ws_pc s = WInner" "0 < w_n (cn_writer (ws_conn s)) \<longrightarrow> ws_armed s1" for s1
    using that w p d by (simp add: write_inv_def delivered_def)
  have fl: "write_inv ok sink svc_write out0 (write_flush wrf s1)"
    if "ws_conn s1 = ws_conn s" "ws_taken s1 = ws_taken s" "ws_put s1 = ws_put s" "ws_pc s1 = WOuter"
      "ws_pc s = WOuter \<or> ws_pc s = WInner" for s1
    using that w p d by (intro write_flush_inv) (auto simp: delivered_def)
  show ?thesis
  proof (cases "ws_pc s")
    case WOuter
    show ?thesis
    proof (cases ev)
      case EvMsg
      then show ?thesis using r WOuter en write_msg_inv[OF w p d]
        by (auto simp: ConnService_Write_def Let_def split: list.splits if_splits)
    next
      case EvTimer
      then show ?thesis using r WOuter upd[of "s\<lparr>ws_armed := False\<rparr>"] fl[of "s\<lparr>ws_armed := False\<rparr>"]
        by (auto simp: ConnService_Write_def Let_def Writer_Buffered_def split: if_splits)
    next
      case EvDone
      then show ?thesis using r WOuter en by (auto simp: ConnService_Write_def Let_def split: if_splits)
    qed
  next
    case WInner
    show ?thesis
    proof (cases "cn_writeChan (ws_conn s)")
      case (Cons msg rest)
      then show ?thesis using r WInner write_msg_inv[OF w p d] by (auto simp: ConnService_Write_def Let_def)
    next
      case Nil
      then show ?thesis
        using r WInner en upd[of "s\<lparr>ws_pc := WOuter\<rparr>"] upd[of "s\<lparr>ws_pc := WOuter, ws_armed := True\<rparr>"]
          fl[of "s\<lparr>ws_pc := WOuter\<rparr>"]
        by (auto simp: ConnService_Write_def Let_def Writer_Buffered_def split: if_splits)
    qed
  next
    case (WEnd e fe)
    then show ?thesis using r by (simp add: ConnService_Write_def Let_def)
  qed
qed

lemma tcp_step_inv: "tcp_step wrf tx svc_write svc_err s s' \<Longrightarrow> write_inv ok sink svc_write out0 s \<Longrightarrow> write_inv ok sink svc_write out0 s'"
proof (induction rule: tcp_step.induct)
  case (run ev s s')
  then show ?case using ConnService_Write_inv by blast
next
  case (send late sessionId msg s b c)
  then show ?case using WriteChan_ok[OF send.hyps]
    by (cases "ws_pc s") (auto simp: write_inv_def delivered_def cut_short_def)
next
  case (other c s)
  then show ?case by (cases "ws_pc s") (auto simp: write_inv_def delivered_def cut_short_def)
qed

lemma tcp_reach_inv:
  "(tcp_step wrf tx svc_write svc_err)\<^sup>*\<^sup>* s s' \<Longrightarrow> write_inv ok sink svc_write out0 s \<Longrightarrow> write_inv ok sink svc_write out0 s'"
  by (induction rule: rtranclp_induct) (auto intro: tcp_step_inv)

end

subsection \<open>The channel\<close>

text \<open>What the writer, the counter and a failed write keep, the loop keeps.\<close>

lemma writeFunc_loop_rel:
  fixes R :: "('r, 'w) Conn \<Rightarrow> ('r, 'w) Conn \<Rightarrow> bool" and wrf :: "'w wr_fun"
  assumes trans: "\<And>c c1 c2. R c c1 \<Longrightarrow> R c1 c2 \<Longrightarrow> R c c2" and refl: "\<And>c. R c c"
    and upd: "\<And>c b n. R c (c\<lparr>cn_writer := b, cn_TotalWriteByte := n\<rparr>)" "\<And>c b. R c (c\<lparr>cn_writer := b\<rparr>)"
    and failed: "\<And>data e c r c'. write_failed tx svc_err data e c = (r, c') \<Longrightarrow> R c c'"
    and run: "writeFunc_loop wrf tx svc_err t data c = Some y"
  shows "R c (snd y)"
proof -
  define P where "P wrf' tx' svc' c y \<longleftrightarrow> (wrf' = wrf \<and> tx' = tx \<and> svc' = svc_err \<longrightarrow> R c (snd y))"
    for wrf' :: "'w wr_fun" and tx' svc' and c :: "('r, 'w) Conn" and y :: "(bool \<times> ee option) go \<times> ('r, 'w) Conn"
  have "P wrf tx svc_err c y" using run
  proof (rule writeFunc_loop.raw_induct[rotated], goal_cases)
    case (1 loop wrf' tx' svc' t data c y)
    show ?case unfolding P_def
    proof (intro impI, elim conjE)
      assume eq: "wrf' = wrf" "tx' = tx" "svc' = svc_err"
      note body = 1(2)[unfolded eq]
      have rec: "R c (snd y)" if "loop wrf tx svc_err t data c = Some y" for t data c y
        using 1(1)[OF that] by (simp add: P_def)
      show "R c (snd y)"
      proof (cases "t < int (length data)")
        case False
        then show ?thesis using body refl by auto
      next
        case True
        then show ?thesis
        proof (cases "Writer_Write wrf (drop (nat t) data) (cn_writer c)")
          case None
          then show ?thesis using body True by simp
        next
          case (Some r)
          show ?thesis
          proof (cases r)
            case (Inl p)
            then show ?thesis using body True Some refl by auto
          next
            case (Inr x)
            obtain n err b where x: "x = (n, err, b)" by (metis prod_cases3)
            define c2 where "c2 = (if 0 \<le> n then c\<lparr>cn_writer := b, cn_TotalWriteByte := cn_TotalWriteByte c + word_of_int n\<rparr> else c\<lparr>cn_writer := b\<rparr>)"
            have c2: "R c c2" using upd by (simp add: c2_def)
            show ?thesis
            proof (cases err)
              case None
              then have "snd y = c2 \<or> (\<exists>t' d'. loop wrf tx svc_err t' d' c2 = Some y)"
                using body True Some Inr x by (auto simp: Let_def c2_def split: if_splits)
              then show ?thesis using c2 rec[THEN trans[OF c2]] by (elim disjE exE) simp_all
            next
              case (Some e)
              then have "snd y = c2 \<or> (\<exists>r. write_failed tx svc_err data e c2 = (r, snd y))"
                using body True \<open>Writer_Write wrf (drop (nat t) data) (cn_writer c) = Some r\<close> Inr x
                by (auto simp: Let_def c2_def split: if_splits prod.splits)
              then show ?thesis using c2 failed[THEN trans[OF c2]] by (elim disjE exE) simp_all
            qed
          qed
        qed
      qed
    qed
  qed
  then show ?thesis by (simp add: P_def)
qed

lemma writeFunc_loop_keeps:
  "writeFunc_loop wrf tx svc_err t data c = Some y \<Longrightarrow> cn_writeChan (snd y) = cn_writeChan c"
  by (rule writeFunc_loop_rel[where R = "\<lambda>c c'. cn_writeChan c' = cn_writeChan c" and wrf = wrf and tx = tx
        and svc_err = svc_err and t = t and data = data])
    (auto dest: write_failed_simps(3))

lemma writeFunc_keeps:
  "writeFunc wrf tx svc_write svc_err msg c = Some (r, c') \<Longrightarrow> cn_writeChan c' = cn_writeChan c"
  using writeFunc_loop_keeps[of wrf tx svc_err 0 msg c "(r, c')"]
  by (auto simp: writeFunc_def split: if_splits sum.splits prod.splits option.splits)

lemma write_end_keeps [simp]:
  "cn_writeChan (ws_conn (write_end wrf e s)) = cn_writeChan (ws_conn s)" "ws_taken (write_end wrf e s) = ws_taken s"
  "ws_submitted (write_end wrf e s) = ws_submitted s"
  by (simp_all add: write_end_def Let_def split: sum.splits prod.splits)

lemma write_flush_keeps [simp]:
  "cn_writeChan (ws_conn (write_flush wrf s)) = cn_writeChan (ws_conn s)" "ws_taken (write_flush wrf s) = ws_taken s"
  "ws_submitted (write_flush wrf s) = ws_submitted s"
  by (simp_all add: write_flush_def split: sum.splits prod.splits)

lemma write_msg_takes:
  assumes "write_msg wrf tx svc_write svc_err msg rest s = Some s'"
  shows "ws_taken s' = ws_taken s @ [msg] \<and> cn_writeChan (ws_conn s') = rest \<and> ws_submitted s' = ws_submitted s"
proof -
  obtain r c where w: "writeFunc wrf tx svc_write svc_err msg ((ws_conn s)\<lparr>cn_writeChan := rest\<rparr>) = Some (r, c)"
    using assms by (auto simp: write_msg_def split: option.splits)
  then have "cn_writeChan c = rest" using writeFunc_keeps by fastforce
  then show ?thesis using assms w
    by (auto simp: write_msg_def Let_def split: sum.splits prod.splits option.splits)
qed

lemma ConnService_Write_takes:
  assumes "ConnService_Write wrf tx svc_write svc_err ev s = Some s'"
  shows "ws_taken s' @ cn_writeChan (ws_conn s') = ws_taken s @ cn_writeChan (ws_conn s) \<and> ws_submitted s' = ws_submitted s"
  using assms write_msg_takes[of wrf tx svc_write svc_err _ _ s s']
  by (cases "ws_pc s"; cases ev; cases "cn_writeChan (ws_conn s)")
    (auto simp: ConnService_Write_def Let_def split: if_splits)

interpretation tcpq: fifo_worker "tcp_step wrf tx svc_write svc_err" ws_taken "\<lambda>s. cn_writeChan (ws_conn s)" ws_submitted
  for wrf tx svc_write svc_err
proof
  fix s s'
  assume "tcp_step wrf tx svc_write svc_err s s'"
  then show "\<exists>xs. ws_taken s' @ cn_writeChan (ws_conn s') = ws_taken s @ cn_writeChan (ws_conn s) @ xs \<and>
      ws_submitted s' = ws_submitted s @ xs"
  proof cases
    case (run ev)
    then show ?thesis using ConnService_Write_takes[OF run] by (intro exI[of _ "[]"]) auto
  next
    case (send late sessionId msg b c)
    then show ?thesis using WriteChan_ok[OF send(2)]
      by (intro exI[of _ "if b then [msg] else []"]) auto
  next
    case (other c)
    then show ?thesis by (intro exI[of _ "[]"]) simp
  qed
qed

end
