(* ===== verification/Tcp_Properties.thy ===== *)
theory Tcp_Properties
  imports Tcp_Write_Spec Bufio_Properties
begin

section \<open>Properties of tcpx\<close>

text \<open>The reading and the writing half of a connection, over any socket that keeps the contracts of
  \<open>io.Reader\<close> and \<open>io.Writer\<close>; the witnesses take the segments and the quota of \<open>Io\<close> as the socket.\<close>

text \<open>C12: \<open>ReadBytes\<close> returns for every segmentation of the stream, and what it stored is exactly the next
  bytes of it; it asks to close exactly when they are fewer than asked for, which happens only where
  the connection quits or the stream has ended, and then the reason to close is set; the counter of
  the connection has counted them.\<close>

theorem ReadBytes_exact:
  assumes "io_reader_eof rdf ok pending" and "Reader_inv_eof ok pending (cn_Reader c)" and "data \<noteq> []"
  shows "go_ends (ConnService_ReadBytes rdf tx quit data c) (\<lambda>(data', isClose, e, c'). \<exists>n.
    n \<le> length data \<and> length data' = length data \<and> drop n data' = drop n data \<and>
    Reader_inv_eof ok pending (cn_Reader c') \<and>
    Reader_contents pending (cn_Reader c) = take n data' @ Reader_contents pending (cn_Reader c') \<and>
    cn_TotalReadByte c' = cn_TotalReadByte c + word_of_nat n \<and>
    (isClose \<longleftrightarrow> n < length data) \<and>
    (isClose \<longrightarrow> (\<exists>i. quit i) \<or> Reader_contents pending (cn_Reader c') = [] \<and> cn_TypeClose c' \<noteq> TypClose) \<and>
    (\<not> isClose \<longrightarrow> e = None \<and> cn_TypeClose c' = cn_TypeClose c))"
  by (rule go_ends_mono[OF io_reader_eof.ReadBytes_ok[OF assms]]) (auto simp: read_post_def)

theorem ReadBytes_exact_witness:
  "\<exists>e c'. ConnService_ReadBytes segs_read (\<lambda>_. []) (\<lambda>_. False) [0, 0, 0]
      (NewConnService NewTcpConf False 1 [[1, 2], [3, 4]] ([] :: byte list, 0 :: nat) False)
      = Some (Inr ([1, 2, 3], False, e, c')) \<and> Reader_contents concat (cn_Reader c') = [4]"
proof -
  let ?c = "NewConnService NewTcpConf False 1 [[1, 2], [3, 4 :: byte]] ([] :: byte list, 0 :: nat) False"
  have r: "cn_Reader ?c = NewReaderSize [[1, 2], [3, 4]] 4096" by (simp add: NewConnService_def NewTcpConf_def)
  have inv: "Reader_inv_eof (\<lambda>_. True) concat (cn_Reader ?c)" and con: "Reader_contents concat (cn_Reader ?c) = [1, 2, 3, 4]"
    unfolding r using segs_buf(1)[of "[[1, 2], [3, 4]]" 4096] segs_buf(3)[of "[[1, 2], [3, 4]]" 4096] by simp_all
  obtain x where x: "ConnService_ReadBytes segs_read (\<lambda>_. []) (\<lambda>_. False) [0, 0, 0] ?c = Some (Inr x)"
    "case x of (d, cl, e, c') \<Rightarrow> \<not> cl \<and> length d = 3 \<and> [1, 2, 3, 4] = d @ Reader_contents concat (cn_Reader c')"
    by (rule go_endsE[OF ReadBytes_exact[OF segs_reader inv, of "[0, 0, 0]" "\<lambda>_. []" "\<lambda>_. False"]])
      (auto simp: con dest: arg_cong[where f = length])
  obtain d cl e c' where xx: "x = (d, cl, e, c')" by (metis prod_cases4)
  obtain u v z where "d = [u, v, z]" using x(2) xx by (auto simp: length_Suc_conv eval_nat_numeral)
  then show ?thesis using x xx by auto
qed

text \<open>C13: whatever the other goroutines do, the messages accepted for a connection are taken in order and
  each is put back once; the socket and the buffer of the writer hold exactly the data of those
  taken that the service does not discard, in order, and only at the end may the last be cut short;
  the last flush, where it reports no error, has handed everything to the socket; and bytes left in
  the buffer while the goroutine waits have a timer running, unless a flush has failed.\<close>

theorem Write_delivers:
  assumes "io_writer wrf ok sink" and "Writer_inv ok (cn_writer c)" and "w_n (cn_writer c) = 0"
    and "(tcp_step wrf tx svc_write svc_err)\<^sup>*\<^sup>* (write_start c) s"
  shows "ws_taken s @ cn_writeChan (ws_conn s) = ws_submitted s \<and> ws_put s = ws_taken s \<and>
    (delivered sink svc_write (Writer_out sink (cn_writer c)) s \<or>
     (\<exists>e fe. ws_pc s = WEnd e fe) \<and> cut_short sink svc_write (Writer_out sink (cn_writer c)) s) \<and>
    (\<forall>e. ws_pc s = WEnd e None \<longrightarrow>
       sink (w_wr (cn_writer (ws_conn s))) = Writer_out sink (cn_writer (ws_conn s))) \<and>
    (ws_pc s = WOuter \<and> 0 < w_n (cn_writer (ws_conn s)) \<longrightarrow> ws_armed s \<or> w_err (cn_writer (ws_conn s)) \<noteq> None)"
proof -
  let ?out0 = "Writer_out sink (cn_writer c)"
  have "write_inv ok sink svc_write ?out0 (write_start c)"
    using assms(2,3) by (simp add: write_inv_def write_start_def delivered_def to_send_def)
  then have inv: "write_inv ok sink svc_write ?out0 s" by (rule io_writer.tcp_reach_inv[OF assms(1,4)])
  have "ws_taken s @ cn_writeChan (ws_conn s) = ws_submitted s"
    by (rule tcpq.in_order[OF assms(4)]) (simp add: write_start_def)
  then show ?thesis using inv by (cases "ws_pc s") (auto simp: write_inv_def)
qed

theorem Write_delivers_witness:
  "\<exists>s. (tcp_step quota_write (\<lambda>_. []) (\<lambda>_. Inr (False, None)) (\<lambda>_ _. None))\<^sup>*\<^sup>*
      (write_start (NewConnService (NewTcpConf\<lparr>tc_ReadBufferCache := 16, tc_WriteBufferCache := 2\<rparr>) False 1 ([] :: byte list list) ([], 9) True)) s \<and>
    ws_taken s = [[1, 2, 3]] \<and> Writer_out fst (cn_writer (ws_conn s)) = [1, 2, 3]"
proof -
  let ?st = "tcp_step quota_write (\<lambda>_. []) (\<lambda>_. Inr (False, None)) (\<lambda>_ _. None)"
  let ?c = "NewConnService (NewTcpConf\<lparr>tc_ReadBufferCache := 16, tc_WriteBufferCache := 2\<rparr>) False 1 ([] :: byte list list) ([] :: byte list, 9 :: nat) True"
  let ?s1 = "(write_start ?c)\<lparr>ws_conn := ?c\<lparr>cn_writeChan := [[1, 2, 3]]\<rparr>, ws_submitted := [[1, 2, 3]]\<rparr>"
  have "ConnService_WriteChan False 7 [1, 2, 3] (ws_conn (write_start ?c)) = Some (Inr (True, ?c\<lparr>cn_writeChan := [[1, 2, 3]]\<rparr>))"
    by (simp add: ConnService_WriteChan_def ConnService_TryWriteChan_def write_start_def NewConnService_def chan_room_def
        NewTcpConf_def)
  from tcp_step.send[OF this] have st1: "?st (write_start ?c) ?s1"
    by (simp add: write_start_def NewConnService_def)
  have "case ConnService_Write quota_write (\<lambda>_. []) (\<lambda>_. Inr (False, None)) (\<lambda>_ _. None) EvMsg ?s1 of
      None \<Rightarrow> False | Some s \<Rightarrow> ws_pc s = WInner \<and> ws_taken s = [[1, 2, 3]] \<and> cn_servicer (ws_conn s)"
    by code_simp
  then obtain s where s: "ConnService_Write quota_write (\<lambda>_. []) (\<lambda>_. Inr (False, None)) (\<lambda>_ _. None) EvMsg ?s1 = Some s"
    "ws_pc s = WInner" "ws_taken s = [[1, 2, 3]]" by (auto split: option.splits)
  have r: "?st\<^sup>*\<^sup>* (write_start ?c) s"
    using st1 tcp_step.run[OF s(1)] by (meson rtranclp.rtrancl_into_rtrancl rtranclp.rtrancl_refl)
  have w: "cn_writer ?c = NewWriterSize ([], 9) 2" by (simp add: NewConnService_def NewTcpConf_def)
  have "Writer_inv (\<lambda>_. True) (cn_writer ?c)" "w_n (cn_writer ?c) = 0" "Writer_out fst (cn_writer ?c) = []"
    unfolding w using quota_buf(1)[of "([], 9)" 2] quota_buf(2)[of "([], 9)" 2]
    by (simp_all add: NewWriterSize_def)
  from Write_delivers[OF quota_writer this(1,2) r] this(3) s(2,3) r show ?thesis
    by (intro exI[of _ s]) (simp add: delivered_def to_send_def)
qed

end
