(* ===== verification/Tcp_Timeout.thy ===== *)
theory Tcp_Timeout
  imports Tcp_Conn
begin

section \<open>The idle time-out of a connection\<close>

text \<open>
  \<open>ConnService.checkTimeout\<close> of \<open>rivetxcore/tcpx/tcp.go\<close>: a goroutine that sleeps, compares the
  counters of bytes with those it saw before, and quits the connection that stays idle. The other
  goroutines run meanwhile: a \<open>tick\<close> holds the connection as the goroutine finds it behind a sleep, and
  what it reads of the counters and the clock later in that round.
\<close>

record ('r, 'w) tick =
  tk_quit :: bool                       \<comment> \<open>\<open>IsQuit\<close> at the head of the loop\<close>
  tk_conn :: "('r, 'w) Conn"
  tk_readStore :: "64 word"             \<comment> \<open>the second read of \<open>TotalReadByte\<close>\<close>
  tk_writeStore :: "64 word"
  tk_readNow :: int                     \<comment> \<open>the clock in milliseconds\<close>
  tk_writeNow :: int

text \<open>What the goroutine keeps for one direction. The times are sums of intervals since the last byte; an
  \<open>int64\<close> holds them for longer than the clock runs.\<close>

record Idle =
  id_total :: "64 word"
  id_timeout :: bool
  id_at :: int
  id_ms :: int

definition clamp_interval :: "TcpConf \<Rightarrow> TcpConf" where
  "clamp_interval conf =
     (if tc_CheckTimeoutInterval conf < 500 then conf\<lparr>tc_CheckTimeoutInterval := 500\<rparr> else conf)"

definition idle_start :: "64 word \<Rightarrow> int \<Rightarrow> Idle" where
  "idle_start start now = \<lparr>id_total = start, id_timeout = False, id_at = now, id_ms = 0\<rparr>"

definition check_read :: "('r, 'w) tick \<Rightarrow> Idle \<Rightarrow> ('r, 'w) Conn \<Rightarrow> Idle \<times> ('r, 'w) Conn" where
  "check_read t d c =
     (if id_total d \<noteq> cn_TotalReadByte c
      then (d\<lparr>id_total := tk_readStore t, id_timeout := False, id_ms := 0\<rparr>, c)
      else if 0 < tc_SocketReadTimeout (cn_conf c) \<and> tc_SocketReadTimeout (cn_conf c) \<le> id_ms d
      then (d\<lparr>id_timeout := True, id_at := tk_readNow t\<rparr>, notify (CallReadTimeout True) c)
      else (d, c))"

definition check_write :: "('r, 'w) tick \<Rightarrow> Idle \<Rightarrow> ('r, 'w) Conn \<Rightarrow> Idle \<times> ('r, 'w) Conn" where
  "check_write t d c =
     (if id_total d \<noteq> cn_TotalWriteByte c
      then (d\<lparr>id_total := tk_writeStore t, id_timeout := False, id_ms := 0\<rparr>, c)
      else if 0 < tc_SocketWriteTimeout (cn_conf c) \<and> tc_SocketWriteTimeout (cn_conf c) \<le> id_ms d
      then (d\<lparr>id_timeout := True, id_at := tk_writeNow t\<rparr>, notify (CallWriteTimeout True) c)
      else (d, c))"

text \<open>What a round decides: \<open>None\<close> to go on, or the connection it has quit.\<close>

definition check_quit :: "Idle \<Rightarrow> Idle \<Rightarrow> ('r, 'w) Conn \<Rightarrow> ('r, 'w) Conn option" where
  "check_quit dr dw c =
     (if tc_IsUnidirectionalTimeout (cn_conf c)
      then (if id_timeout dr
            then Some (ConnService_QuitFunc (notify (CallReadTimeout True) (set_TypeClose TypCloseReadTimeout c)))
            else if id_timeout dw
            then Some (ConnService_QuitFunc (notify (CallWriteTimeout True) (set_TypeClose TypCloseWriteTimeout c)))
            else None)
      else if id_timeout dr \<and> id_timeout dw
      then Some (ConnService_QuitFunc (notify (CallWriteTimeout True) (notify (CallReadTimeout True)
             (set_TypeClose (if id_at dw \<le> id_at dr then TypCloseReadTimeout else TypCloseWriteTimeout) c))))
      else None)"

definition check_tick ::
  "('r, 'w) tick \<Rightarrow> Idle \<Rightarrow> Idle \<Rightarrow> Idle \<times> Idle \<times> ('r, 'w) Conn \<times> ('r, 'w) Conn option" where
  "check_tick t dr dw =
     (let c = tk_conn t;
          iv = tc_CheckTimeoutInterval (cn_conf c);
          (dr1, c1) = check_read t (dr\<lparr>id_ms := id_ms dr + iv\<rparr>) c;
          (dw1, c2) = check_write t (dw\<lparr>id_ms := id_ms dw + iv\<rparr>) c1
      in (dr1, dw1, c2, check_quit dr1 dw1 c2))"

text \<open>The connections the rounds leave, and whether the goroutine has returned.\<close>

fun checkTimeout_loop :: "('r, 'w) tick list \<Rightarrow> Idle \<Rightarrow> Idle \<Rightarrow> ('r, 'w) Conn list \<times> bool" where
  "checkTimeout_loop [] dr dw = ([], False)"
| "checkTimeout_loop (t # ts) dr dw =
     (if tk_quit t then ([], True)
      else (case check_tick t dr dw of
              (dr1, dw1, c, Some c') \<Rightarrow> ([c'], True)
            | (dr1, dw1, c, None) \<Rightarrow>
                (case checkTimeout_loop ts dr1 dw1 of (cs, ended) \<Rightarrow> (c # cs, ended))))"

definition ConnService_checkTimeout :: "int \<Rightarrow> ('r, 'w) Conn \<Rightarrow> ('r, 'w) tick list \<Rightarrow> ('r, 'w) Conn list \<times> bool" where
  "ConnService_checkTimeout now c ts =
     checkTimeout_loop ts (idle_start (cn_TotalReadByte c) now) (idle_start (cn_TotalWriteByte c) now)"

subsection \<open>The reference: rounds without a byte\<close>

text \<open>The number of rounds since the last one that saw the counter move; a pair is what a round compares
  and what it would store.\<close>

fun idle :: "64 word \<Rightarrow> (64 word \<times> 64 word) list \<Rightarrow> nat \<Rightarrow> nat" where
  "idle v [] k = k"
| "idle v ((r, r') # obs) k = (if r = v then idle v obs (Suc k) else idle r' obs 0)"

definition expired :: "int \<Rightarrow> int \<Rightarrow> nat \<Rightarrow> bool" where
  "expired limit iv k \<longleftrightarrow> 0 < limit \<and> limit \<le> int k * iv"

definition read_obs :: "('r, 'w) tick list \<Rightarrow> (64 word \<times> 64 word) list" where
  "read_obs ts = map (\<lambda>t. (cn_TotalReadByte (tk_conn t), tk_readStore t)) ts"
definition write_obs :: "('r, 'w) tick list \<Rightarrow> (64 word \<times> 64 word) list" where
  "write_obs ts = map (\<lambda>t. (cn_TotalWriteByte (tk_conn t), tk_writeStore t)) ts"

definition read_due :: "TcpConf \<Rightarrow> 64 word \<Rightarrow> nat \<Rightarrow> ('r, 'w) tick list \<Rightarrow> bool" where
  "read_due conf v k ts \<longleftrightarrow> expired (tc_SocketReadTimeout conf) (tc_CheckTimeoutInterval conf) (idle v (read_obs ts) k)"
definition write_due :: "TcpConf \<Rightarrow> 64 word \<Rightarrow> nat \<Rightarrow> ('r, 'w) tick list \<Rightarrow> bool" where
  "write_due conf v k ts \<longleftrightarrow> expired (tc_SocketWriteTimeout conf) (tc_CheckTimeoutInterval conf) (idle v (write_obs ts) k)"

definition due :: "TcpConf \<Rightarrow> bool \<Rightarrow> bool \<Rightarrow> bool" where
  "due conf r w = (if tc_IsUnidirectionalTimeout conf then r \<or> w else r \<and> w)"

text \<open>Where nothing is counted between the two reads of a round, \<open>k\<close> idle rounds are \<open>k + 1\<close> equal
  values in a row.\<close>

lemma idle_snoc:
  "idle v (map (\<lambda>r. (r, r)) (rs @ [r])) k =
     (if r = last (v # rs) then Suc (idle v (map (\<lambda>r. (r, r)) rs) k) else 0)"
  by (induction rs arbitrary: v k) auto

lemma idle_stalled:
  "n \<le> idle v (map (\<lambda>r. (r, r)) rs) 0 \<longleftrightarrow>
     take (Suc n) (rev (v # rs)) = replicate (Suc n) (last (v # rs))"
proof (induction rs arbitrary: n rule: rev_induct)
  case Nil
  show ?case by (cases n) auto
next
  case (snoc r rs)
  show ?case
  proof (cases n)
    case (Suc m)
    obtain ys where ys: "rev (v # rs) = last (v # rs) # ys"
      using hd_rev[of "v # rs"] by (cases "rev (v # rs)") auto
    have "rev (v # rs @ [r]) = r # last (v # rs) # ys" using ys by simp
    moreover have "m \<le> idle v (map (\<lambda>r. (r, r)) rs) 0 \<longleftrightarrow> take m ys = replicate m (last (v # rs))"
      using snoc.IH[of m] unfolding ys by simp
    ultimately show ?thesis using Suc unfolding idle_snoc by auto
  qed simp
qed

subsection \<open>The loop against the reference\<close>

text \<open>What one round makes of the state of a direction.\<close>

definition idle_is :: "int \<Rightarrow> int \<Rightarrow> Idle \<Rightarrow> 64 word \<Rightarrow> nat \<Rightarrow> bool" where
  "idle_is limit iv d v k \<longleftrightarrow> id_total d = v \<and> id_ms d = int k * iv \<and> (id_timeout d \<longleftrightarrow> expired limit iv k)"

lemma expired_0 [simp]: "\<not> expired limit iv 0"
  by (simp add: expired_def)

lemma expired_Suc: "0 < iv \<Longrightarrow> expired limit iv k \<Longrightarrow> expired limit iv (Suc k)"
  by (simp add: expired_def algebra_simps)

lemma idle_is_start: "idle_is limit iv (idle_start v now) v 0"
  by (simp add: idle_is_def idle_start_def)

lemma check_read_idle:
  assumes "idle_is (tc_SocketReadTimeout (cn_conf c)) iv d v k" and "0 < iv"
    and "check_read t (d\<lparr>id_ms := id_ms d + iv\<rparr>) c = (d', c')"
  shows "\<exists>v' k'. idle_is (tc_SocketReadTimeout (cn_conf c)) iv d' v' k' \<and>
      (\<forall>obs. idle v ((cn_TotalReadByte c, tk_readStore t) # obs) k = idle v' obs k') \<and>
      (id_timeout d' \<longrightarrow> id_at d' = tk_readNow t) \<and>
      cn_conf c' = cn_conf c \<and> cn_TotalWriteByte c' = cn_TotalWriteByte c \<and> cn_TypeClose c' = cn_TypeClose c"
proof (cases "cn_TotalReadByte c = v")
  case True
  then show ?thesis
    using assms expired_Suc[OF assms(2), of "tc_SocketReadTimeout (cn_conf c)" k]
    by (intro exI[of _ v] exI[of _ "Suc k"])
      (auto simp: check_read_def idle_is_def expired_def notify_def algebra_simps split: if_splits)
next
  case False
  then show ?thesis
    using assms by (intro exI[of _ "tk_readStore t"] exI[of _ 0]) (auto simp: check_read_def idle_is_def)
qed

lemma check_write_idle:
  assumes "idle_is (tc_SocketWriteTimeout (cn_conf c)) iv d v k" and "0 < iv"
    and "check_write t (d\<lparr>id_ms := id_ms d + iv\<rparr>) c = (d', c')"
  shows "\<exists>v' k'. idle_is (tc_SocketWriteTimeout (cn_conf c)) iv d' v' k' \<and>
      (\<forall>obs. idle v ((cn_TotalWriteByte c, tk_writeStore t) # obs) k = idle v' obs k') \<and>
      (id_timeout d' \<longrightarrow> id_at d' = tk_writeNow t) \<and>
      cn_conf c' = cn_conf c \<and> cn_TypeClose c' = cn_TypeClose c"
proof (cases "cn_TotalWriteByte c = v")
  case True
  then show ?thesis
    using assms expired_Suc[OF assms(2), of "tc_SocketWriteTimeout (cn_conf c)" k]
    by (intro exI[of _ v] exI[of _ "Suc k"])
      (auto simp: check_write_def idle_is_def expired_def notify_def algebra_simps split: if_splits)
next
  case False
  then show ?thesis
    using assms by (intro exI[of _ "tk_writeStore t"] exI[of _ 0]) (auto simp: check_write_def idle_is_def)
qed

text \<open>The connection a round quits: \<open>r\<close> says whether the reads have expired.\<close>

definition close_reason :: "TcpConf \<Rightarrow> bool \<Rightarrow> ('r, 'w) tick \<Rightarrow> close_type" where
  "close_reason conf r t =
     (if cn_TypeClose (tk_conn t) \<noteq> TypClose then cn_TypeClose (tk_conn t)
      else if (if tc_IsUnidirectionalTimeout conf then r else tk_writeNow t \<le> tk_readNow t)
      then TypCloseReadTimeout else TypCloseWriteTimeout)"

lemma QuitFunc_frame [simp]:
  "cn_IsQuit (ConnService_QuitFunc c)"
  "cn_TypeClose c \<noteq> TypClose \<Longrightarrow> cn_TypeClose (ConnService_QuitFunc c) = cn_TypeClose c"
  by (simp_all add: ConnService_QuitFunc_def set_TypeClose_def)

lemma set_TypeClose_frame [simp]:
  "cn_TypeClose (set_TypeClose x c) = (if cn_TypeClose c = TypClose then x else cn_TypeClose c)"
  "cn_TypeClose (notify y c) = cn_TypeClose c"
  by (simp_all add: set_TypeClose_def notify_def)

lemma check_tick_idle:
  assumes "idle_is (tc_SocketReadTimeout conf) iv dr vr kr" and "idle_is (tc_SocketWriteTimeout conf) iv dw vw kw"
    and "cn_conf (tk_conn t) = conf" and "iv = tc_CheckTimeoutInterval conf" and "0 < iv"
    and "check_tick t dr dw = (dr', dw', c, q)"
  shows "\<exists>vr' kr' vw' kw'. idle_is (tc_SocketReadTimeout conf) iv dr' vr' kr' \<and>
      idle_is (tc_SocketWriteTimeout conf) iv dw' vw' kw' \<and>
      (\<forall>ts. read_due conf vr kr (t # ts) = read_due conf vr' kr' ts) \<and>
      (\<forall>ts. write_due conf vw kw (t # ts) = write_due conf vw' kw' ts) \<and>
      (q \<noteq> None \<longleftrightarrow> due conf (read_due conf vr kr [t]) (write_due conf vw kw [t])) \<and>
      (\<forall>c'. q = Some c' \<longrightarrow> cn_IsQuit c' \<and> cn_TypeClose c' = close_reason conf (read_due conf vr kr [t]) t)"
proof -
  let ?c = "tk_conn t"
  obtain c1 where r: "check_read t (dr\<lparr>id_ms := id_ms dr + iv\<rparr>) ?c = (dr', c1)"
    and w: "check_write t (dw\<lparr>id_ms := id_ms dw + iv\<rparr>) c1 = (dw', c)" and q: "q = check_quit dr' dw' c"
    using assms(3,4,6) by (auto simp: check_tick_def Let_def split: prod.splits)
  obtain vr' kr' where R: "idle_is (tc_SocketReadTimeout conf) iv dr' vr' kr'"
    "\<And>obs. idle vr ((cn_TotalReadByte ?c, tk_readStore t) # obs) kr = idle vr' obs kr'"
    "id_timeout dr' \<longrightarrow> id_at dr' = tk_readNow t"
    "cn_conf c1 = conf" "cn_TotalWriteByte c1 = cn_TotalWriteByte ?c" "cn_TypeClose c1 = cn_TypeClose ?c"
    using check_read_idle[OF _ assms(5) r, of vr kr] assms(1,3) by auto
  obtain vw' kw' where W: "idle_is (tc_SocketWriteTimeout conf) iv dw' vw' kw'"
    "\<And>obs. idle vw ((cn_TotalWriteByte ?c, tk_writeStore t) # obs) kw = idle vw' obs kw'"
    "id_timeout dw' \<longrightarrow> id_at dw' = tk_writeNow t" "cn_conf c = conf" "cn_TypeClose c = cn_TypeClose ?c"
    using check_write_idle[OF _ assms(5) w, of vw kw] assms(2) R(4-6) by auto
  have rd: "read_due conf vr kr (t # ts) = read_due conf vr' kr' ts" for ts
    using R(2) by (simp add: read_due_def read_obs_def)
  have wd: "write_due conf vw kw (t # ts) = write_due conf vw' kw' ts" for ts
    using W(2) by (simp add: write_due_def write_obs_def)
  have flags: "id_timeout dr' = read_due conf vr kr [t]" "id_timeout dw' = write_due conf vw kw [t]"
    using R(1) W(1) assms(4) unfolding rd wd
    by (simp_all add: idle_is_def read_due_def write_due_def read_obs_def write_obs_def)
  have "q \<noteq> None \<longleftrightarrow> due conf (read_due conf vr kr [t]) (write_due conf vw kw [t])"
    unfolding q using flags W(4) by (simp add: check_quit_def due_def)
  moreover have "\<forall>c'. q = Some c' \<longrightarrow> cn_IsQuit c' \<and> cn_TypeClose c' = close_reason conf (read_due conf vr kr [t]) t"
    unfolding q using flags W(3-5) R(3) by (auto simp: check_quit_def close_reason_def split: if_splits)
  ultimately show ?thesis using R(1) W(1) rd wd by blast
qed

lemma checkTimeout_loop_spec:
  fixes ts :: "('r, 'w) tick list"
  assumes "idle_is (tc_SocketReadTimeout conf) iv dr vr kr" and "idle_is (tc_SocketWriteTimeout conf) iv dw vw kw"
    and "iv = tc_CheckTimeoutInterval conf" and "0 < iv"
    and "\<forall>t \<in> set ts. \<not> tk_quit t \<and> cn_conf (tk_conn t) = conf"
    and "\<not> due conf (read_due conf vr kr ([] :: ('r, 'w) tick list)) (write_due conf vw kw ([] :: ('r, 'w) tick list))"
    and "checkTimeout_loop ts dr dw = (cs, ended)"
  shows "length cs \<le> length ts \<and>
    (\<forall>k < length cs. \<not> due conf (read_due conf vr kr (take k ts)) (write_due conf vw kw (take k ts))) \<and>
    (ended \<longleftrightarrow> due conf (read_due conf vr kr (take (length cs) ts)) (write_due conf vw kw (take (length cs) ts))) \<and>
    (\<not> ended \<longrightarrow> length cs = length ts) \<and>
    (ended \<longrightarrow> cs \<noteq> [] \<and> cn_IsQuit (last cs) \<and>
       cn_TypeClose (last cs) = close_reason conf (read_due conf vr kr (take (length cs) ts)) (ts ! (length cs - 1)))"
  using assms
proof (induction ts arbitrary: dr dw vr kr vw kw cs)
  case Nil
  have "cs = []" "\<not> ended" using Nil.prems(7) by auto
  then show ?case using Nil.prems(6) by simp
next
  case (Cons t ts)
  obtain dr' dw' c q where tick: "check_tick t dr dw = (dr', dw', c, q)" by (metis prod_cases4)
  have nq: "\<not> tk_quit t" and ct: "cn_conf (tk_conn t) = conf" using Cons.prems(5) by auto
  obtain vr' kr' vw' kw' where T: "idle_is (tc_SocketReadTimeout conf) iv dr' vr' kr'"
    "idle_is (tc_SocketWriteTimeout conf) iv dw' vw' kw'"
    "\<And>ts. read_due conf vr kr (t # ts) = read_due conf vr' kr' ts"
    "\<And>ts. write_due conf vw kw (t # ts) = write_due conf vw' kw' ts"
    "q \<noteq> None \<longleftrightarrow> due conf (read_due conf vr kr [t]) (write_due conf vw kw [t])"
    "\<And>c'. q = Some c' \<Longrightarrow> cn_IsQuit c' \<and> cn_TypeClose c' = close_reason conf (read_due conf vr kr [t]) t"
    using check_tick_idle[OF Cons.prems(1,2) ct Cons.prems(3,4) tick] by blast
  show ?case
  proof (cases q)
    case (Some c')
    then have "cs = [c']" and "ended" using Cons.prems(7) nq tick by auto
    then show ?thesis using T(5,6) Some Cons.prems(6) by (simp add: less_Suc_eq)
  next
    case None
    obtain cs' where cs': "checkTimeout_loop ts dr' dw' = (cs', ended)" and cs: "cs = c # cs'"
      using Cons.prems(7) nq tick None by (auto split: prod.splits)
    have nd: "\<not> due conf (read_due conf vr' kr' ([] :: ('r, 'w) tick list)) (write_due conf vw' kw' ([] :: ('r, 'w) tick list))"
      using T(5) None unfolding T(3,4) by simp
    have rest: "\<forall>t \<in> set ts. \<not> tk_quit t \<and> cn_conf (tk_conn t) = conf" using Cons.prems(5) by simp
    note ih = Cons.IH[OF T(1,2) Cons.prems(3,4) rest nd cs']
    have early: "\<not> due conf (read_due conf vr kr (take k (t # ts))) (write_due conf vw kw (take k (t # ts)))"
      if "k < length cs" for k
    proof (cases k)
      case 0
      then show ?thesis using Cons.prems(6) by simp
    next
      case (Suc j)
      then have "j < length cs'" using that cs by simp
      then show ?thesis using ih[THEN conjunct2, THEN conjunct1] unfolding Suc take_Suc_Cons T(3,4) by simp
    qed
    have len: "take (length cs) (t # ts) = t # take (length cs') ts" using cs by simp
    have ne: "ended \<Longrightarrow> cs' \<noteq> []" using ih by blast
    have last: "last cs = last cs'" "(t # ts) ! (length cs - 1) = ts ! (length cs' - 1)" if ended
      using ne[OF that] cs by (cases cs'; simp)+
    show ?thesis
    proof (intro conjI)
      show "length cs \<le> length (t # ts)" using ih[THEN conjunct1] cs by simp
      show "\<forall>k < length cs. \<not> due conf (read_due conf vr kr (take k (t # ts))) (write_due conf vw kw (take k (t # ts)))"
        using early by blast
      show "ended \<longleftrightarrow> due conf (read_due conf vr kr (take (length cs) (t # ts))) (write_due conf vw kw (take (length cs) (t # ts)))"
        unfolding len T(3,4) by (rule ih[THEN conjunct2, THEN conjunct2, THEN conjunct1])
      show "\<not> ended \<longrightarrow> length cs = length (t # ts)"
        using ih[THEN conjunct2, THEN conjunct2, THEN conjunct2, THEN conjunct1] cs by simp
      show "ended \<longrightarrow> cs \<noteq> [] \<and> cn_IsQuit (last cs) \<and>
          cn_TypeClose (last cs) = close_reason conf (read_due conf vr kr (take (length cs) (t # ts))) ((t # ts) ! (length cs - 1))"
        unfolding len T(3) using ih[THEN conjunct2, THEN conjunct2, THEN conjunct2, THEN conjunct2] last cs by auto
    qed
  qed
qed

definition timed_out :: "('r, 'w) Conn \<Rightarrow> ('r, 'w) tick list \<Rightarrow> bool" where
  "timed_out c ts =
     (let conf = clamp_interval (cn_conf c)
      in due conf (read_due conf (cn_TotalReadByte c) 0 ts) (write_due conf (cn_TotalWriteByte c) 0 ts))"

text \<open>C11: the goroutine that watches a connection returns after exactly the first round in which the rounds
  without a byte since the last one make up the time-out, of one direction or of both as configured, and never
  before; it then has quit the connection, and the reason says which direction timed out, unless another
  goroutine had given a reason before.\<close>

theorem checkTimeout_exact:
  assumes "\<forall>t \<in> set ts. \<not> tk_quit t \<and> cn_conf (tk_conn t) = clamp_interval (cn_conf c)"
    and "ConnService_checkTimeout now c ts = (cs, ended)"
  shows "length cs \<le> length ts \<and> (\<forall>k < length cs. \<not> timed_out c (take k ts)) \<and>
    (ended \<longleftrightarrow> timed_out c (take (length cs) ts)) \<and> (\<not> ended \<longrightarrow> length cs = length ts) \<and>
    (ended \<longrightarrow> cs \<noteq> [] \<and> cn_IsQuit (last cs) \<and>
       cn_TypeClose (last cs) =
         close_reason (clamp_interval (cn_conf c))
           (read_due (clamp_interval (cn_conf c)) (cn_TotalReadByte c) 0 (take (length cs) ts))
           (ts ! (length cs - 1)))"
  unfolding timed_out_def Let_def
proof (rule checkTimeout_loop_spec[OF idle_is_start idle_is_start refl _ assms(1)])
  show "0 < tc_CheckTimeoutInterval (clamp_interval (cn_conf c))" by (simp add: clamp_interval_def)
  show "checkTimeout_loop ts (idle_start (cn_TotalReadByte c) now) (idle_start (cn_TotalWriteByte c) now) = (cs, ended)"
    using assms(2) by (simp add: ConnService_checkTimeout_def)
qed (simp add: due_def read_due_def write_due_def read_obs_def write_obs_def)

theorem checkTimeout_exact_witness:
  "let c = NewConnService (NewTcpConf\<lparr>tc_SocketReadTimeout := 1000, tc_SocketWriteTimeout := 600,
         tc_ReadBufferCache := 16, tc_WriteBufferCache := 16\<rparr>) False 1 () () True;
       moved = c\<lparr>cn_TotalReadByte := 5\<rparr>;
       t = (\<lambda>x. \<lparr>tk_quit = False, tk_conn = x, tk_readStore = cn_TotalReadByte x, tk_writeStore = 0,
                tk_readNow = 0, tk_writeNow = 0\<rparr>)
   in \<exists>cs. ConnService_checkTimeout 0 c [t c, t moved, t moved, t moved, t moved] = (cs, True) \<and> length cs = 4 \<and>
      \<not> timed_out c [t c, t moved, t moved] \<and> cn_TypeClose (last cs) = TypCloseReadTimeout"
proof -
  let ?c = "NewConnService (NewTcpConf\<lparr>tc_SocketReadTimeout := 1000, tc_SocketWriteTimeout := 600,
         tc_ReadBufferCache := 16, tc_WriteBufferCache := 16\<rparr>) False 1 () () True"
  let ?moved = "?c\<lparr>cn_TotalReadByte := 5\<rparr>"
  let ?t = "\<lambda>x :: (unit, unit) Conn. \<lparr>tk_quit = False, tk_conn = x, tk_readStore = cn_TotalReadByte x, tk_writeStore = 0,
      tk_readNow = 0 :: int, tk_writeNow = 0 :: int\<rparr>"
  let ?ts = "[?t ?c, ?t ?moved, ?t ?moved, ?t ?moved, ?t ?moved]"
  obtain cs ended where run: "ConnService_checkTimeout 0 ?c ?ts = (cs, ended)" by fastforce
  have conf: "clamp_interval (cn_conf ?c) = cn_conf ?c" "cn_conf ?moved = cn_conf ?c"
    by (simp_all add: NewConnService_def NewTcpConf_def clamp_interval_def)
  have ts: "\<forall>t \<in> set ?ts. \<not> tk_quit t \<and> cn_conf (tk_conn t) = clamp_interval (cn_conf ?c)"
    unfolding conf by simp
  have "case ConnService_checkTimeout 0 ?c ?ts of (cs, ended) \<Rightarrow> length cs = 4 \<and> ended" by code_simp
  then have len: "length cs = 4" ended unfolding run by simp_all
  have idle: "\<not> timed_out ?c [?t ?c, ?t ?moved, ?t ?moved]"
    using checkTimeout_exact[OF ts run] len by (auto dest: spec[of _ 3])
  have "close_reason conf r (?ts ! 3) = TypCloseReadTimeout" if "\<not> tc_IsUnidirectionalTimeout conf" for conf r
    using that by (simp add: close_reason_def NewConnService_def)
  moreover have "\<not> tc_IsUnidirectionalTimeout (cn_conf ?c)" by (simp add: NewConnService_def NewTcpConf_def)
  ultimately have "cn_TypeClose (last cs) = TypCloseReadTimeout"
    using checkTimeout_exact[OF ts run] len unfolding conf by simp
  with run len idle show ?thesis by simp
qed

end
