(* ===== verification/Tcp_Run.thy ===== *)
theory Tcp_Run
  imports Tcp_Write_Spec Tcp_Timeout
begin

section \<open>The life of a connection\<close>

text \<open>
  \<open>ConnService.Run\<close>, \<open>Read\<close> and \<open>ReadChan\<close> of \<open>rivetxcore/tcpx/tcp.go\<close>: \<open>Run\<close> starts the goroutines of
  a connection, waits until it is quit, closes it, waits for the goroutines and puts back what is left
  in the channels. \<open>rn_w\<close> is the writing goroutine with the connection all of them share. The sleeps and
  the counters of \<open>gox\<close> are left out.
\<close>

subsection \<open>The goroutine that hands messages to the service\<close>

datatype read_pc =
    RHead                     \<comment> \<open>the head of the loop\<close>
  | RSelect                   \<comment> \<open>the outer select\<close>
  | RInner                    \<comment> \<open>the inner select\<close>
  | REnd "ee option"

record ReadState =
  rd_pc :: read_pc
  rd_taken :: "byte list list"
  rd_put :: "byte list list"

definition read_end :: "ee option \<Rightarrow> ('r, 'w) Conn \<times> ReadState \<Rightarrow> ('r, 'w) Conn \<times> ReadState" where
  "read_end e s = (case s of (c, r) \<Rightarrow> (ConnService_QuitFunc c, r\<lparr>rd_pc := REnd e\<rparr>))"

text \<open>A message is taken; the service handles it and it is put back, also where the service panics. Without
  a service it is only taken. A nil message, which only logs, is not sent by anything under \<open>src\<close>.\<close>

definition read_msg ::
  "(byte list \<Rightarrow> func_result) \<Rightarrow> (go_error \<Rightarrow> ee) \<Rightarrow> byte list \<Rightarrow> byte list list \<Rightarrow>
     ('r, 'w) Conn \<times> ReadState \<Rightarrow> ('r, 'w) Conn \<times> ReadState" where
  "read_msg svc_readChan mk msg rest s =
     (case s of (c, r) \<Rightarrow>
        let c1 = c\<lparr>cn_readChan := rest\<rparr>; r1 = r\<lparr>rd_taken := rd_taken r @ [msg]\<rparr>
        in if cn_servicer c
           then (let r2 = r1\<lparr>rd_put := rd_put r1 @ [msg]\<rparr>
                 in case svc_readChan msg of
                      Inl p \<Rightarrow> read_end None (c1, r2)
                    | Inr (Some e) \<Rightarrow> read_end (Some (mk e)) (c1, r2)
                    | Inr None \<Rightarrow> (c1, r2\<lparr>rd_pc := RInner\<rparr>))
           else (c1, r1\<lparr>rd_pc := RHead\<rparr>))"

text \<open>\<open>stop\<close>: the outer select takes the end of the connection or of the program.\<close>

definition ConnService_ReadChan ::
  "(byte list \<Rightarrow> func_result) \<Rightarrow> (go_error \<Rightarrow> ee) \<Rightarrow> bool \<Rightarrow> ('r, 'w) Conn \<times> ReadState \<Rightarrow>
     (('r, 'w) Conn \<times> ReadState) option" where
  "ConnService_ReadChan svc_readChan mk stop s =
     (case s of (c, r) \<Rightarrow>
        case rd_pc r of
          RHead \<Rightarrow> Some (if cn_IsQuit c then read_end None s else (c, r\<lparr>rd_pc := RSelect\<rparr>))
        | RSelect \<Rightarrow>
            if stop then (if cn_cancelled c \<or> cn_mainDone c then Some (read_end None s) else None)
            else (case cn_readChan c of
                    msg # rest \<Rightarrow> Some (read_msg svc_readChan mk msg rest s)
                  | [] \<Rightarrow> if cn_chansClosed c then Some (read_end None s) else None)
        | RInner \<Rightarrow>
            (case cn_readChan c of
               msg # rest \<Rightarrow> Some (read_msg svc_readChan mk msg rest s)
             | [] \<Rightarrow> Some (if cn_chansClosed c then read_end None s else (c, r\<lparr>rd_pc := RHead\<rparr>)))
        | REnd e \<Rightarrow> None)"

text \<open>\<open>Read\<close>: the service reads from the connection until its callback returns, then the connection quits.
  The result is the error of the goroutine.\<close>

definition ConnService_Read ::
  "(go_error \<Rightarrow> ee) \<Rightarrow> func_result \<Rightarrow> ('r, 'w) Conn \<Rightarrow> ('r, 'w) Conn \<times> ee option" where
  "ConnService_Read mk res c =
     (ConnService_QuitFunc c,
      if cn_servicer c then (case res of Inl p \<Rightarrow> None | Inr e \<Rightarrow> map_option mk e)
      else Some (EeNew None ''err:service.servicer nil''))"

subsection \<open>Run\<close>

datatype run_pc =
    RunInit                   \<comment> \<open>the callback \<open>Init\<close>\<close>
  | RunStart                  \<comment> \<open>the goroutines are started, then the callback \<open>Start\<close>\<close>
  | RunWait
  | RunClose "ee option"
  | RunJoin "ee option"       \<comment> \<open>\<open>WaitGroup.Wait\<close>\<close>
  | RunDrainW "ee option"
  | RunDrainR "ee option"
  | RunDone "ee option"

record ('r, 'w) RunState =
  rn_w :: "('r, 'w) WriteState"
  rn_r :: ReadState
  rn_pc :: run_pc
  rn_started :: bool
  rn_reading :: bool            \<comment> \<open>the goroutine of \<open>Read\<close> runs\<close>
  rn_checking :: bool           \<comment> \<open>the goroutine of \<open>checkTimeout\<close> runs\<close>
  rn_idleR :: Idle
  rn_idleW :: Idle
  rn_putW :: "byte list list"   \<comment> \<open>put back by \<open>Run\<close>\<close>
  rn_putR :: "byte list list"
  rn_sentR :: "byte list list"  \<comment> \<open>accepted for the service\<close>

abbreviation rn_conn :: "('r, 'w) RunState \<Rightarrow> ('r, 'w) Conn" where
  "rn_conn s \<equiv> ws_conn (rn_w s)"

definition set_conn :: "('r, 'w) Conn \<Rightarrow> ('r, 'w) RunState \<Rightarrow> ('r, 'w) RunState" where
  "set_conn c s = s\<lparr>rn_w := (rn_w s)\<lparr>ws_conn := c\<rparr>\<rparr>"

definition RunState_start :: "('r, 'w) Conn \<Rightarrow> ('r, 'w) RunState" where
  "RunState_start c =
     \<lparr>rn_w = write_start c, rn_r = \<lparr>rd_pc = RHead, rd_taken = [], rd_put = []\<rparr>, rn_pc = RunInit,
      rn_started = False, rn_reading = False, rn_checking = False, rn_idleR = idle_start 0 0, rn_idleW = idle_start 0 0,
      rn_putW = [], rn_putR = [], rn_sentR = cn_readChan c\<rparr>"

definition all_ended :: "bool \<Rightarrow> ('r, 'w) RunState \<Rightarrow> bool" where
  "all_ended isRunReadChan s \<longleftrightarrow>
     \<not> rn_started s \<or>
     (\<exists>e fe. ws_pc (rn_w s) = WEnd e fe) \<and> \<not> rn_reading s \<and> \<not> rn_checking s \<and>
     (isRunReadChan \<longrightarrow> (\<exists>e. rd_pc (rn_r s) = REnd e))"

text \<open>The end of the function that starts everything: a panic of a callback is recovered and is no error.\<close>

definition callback :: "(go_error \<Rightarrow> ee) \<Rightarrow> string \<Rightarrow> func_result \<Rightarrow> run_pc \<Rightarrow> run_pc" where
  "callback mk what res next_pc =
     (case res of
        Inl p \<Rightarrow> RunClose None
      | Inr (Some e) \<Rightarrow> RunClose (Some (EeWrap (mk e) what))
      | Inr None \<Rightarrow> next_pc)"

definition ConnService_Run ::
  "(go_error \<Rightarrow> ee) \<Rightarrow> string \<Rightarrow> bool \<Rightarrow> bool \<Rightarrow> func_result \<Rightarrow> func_result \<Rightarrow>
     ('r, 'w) RunState \<Rightarrow> ('r, 'w) RunState option" where
  "ConnService_Run mk remote isRun isRunReadChan svc_init svc_start s =
     (let c = rn_conn s
      in case rn_pc s of
           RunInit \<Rightarrow>
             Some (s\<lparr>rn_pc :=
               (if \<not> isRun then RunClose None
                else if cn_servicer c then callback mk ''service.servicer.Init'' svc_init RunStart
                else RunStart)\<rparr>)
         | RunStart \<Rightarrow>
             Some (set_conn (c\<lparr>cn_conf := clamp_interval (cn_conf c)\<rparr>)
               (s\<lparr>rn_started := True, rn_reading := True, rn_checking := True,
                  rn_idleR := idle_start (cn_TotalReadByte c) 0, rn_idleW := idle_start (cn_TotalWriteByte c) 0,
                  rn_pc := (if cn_servicer c then callback mk ''service.servicer.Start'' svc_start RunWait else RunWait)\<rparr>))
         | RunWait \<Rightarrow> if cn_cancelled c \<or> cn_mainDone c then Some (s\<lparr>rn_pc := RunClose None\<rparr>) else None
         | RunClose err \<Rightarrow>
             (let c1 = set_TypeClose TypCloseQuit c; c2 = notify (CallClose (cn_TypeClose c1)) c1
              in Some (set_conn (ConnService_QuitFunc c2) s\<lparr>rn_pc := RunJoin err\<rparr>))
         | RunJoin err \<Rightarrow> if all_ended isRunReadChan s then Some (s\<lparr>rn_pc := RunDrainW err\<rparr>) else None
         | RunDrainW err \<Rightarrow>
             (case cn_writeChan c of
                msg # rest \<Rightarrow> Some (set_conn (c\<lparr>cn_writeChan := rest\<rparr>) s\<lparr>rn_putW := rn_putW s @ [msg]\<rparr>)
              | [] \<Rightarrow> if cn_chansClosed c then Some (s\<lparr>rn_pc := RunDrainR err\<rparr>) else None)
         | RunDrainR err \<Rightarrow>
             (case cn_readChan c of
                msg # rest \<Rightarrow> Some (set_conn (c\<lparr>cn_readChan := rest\<rparr>) s\<lparr>rn_putR := rn_putR s @ [msg]\<rparr>)
              | [] \<Rightarrow>
                  if cn_chansClosed c
                  then Some (s\<lparr>rn_pc := RunDone (map_option (\<lambda>e. EeWrap e (''RemoteAddr:'' @ remote)) err)\<rparr>)
                  else None)
         | RunDone err \<Rightarrow> None)"

end
