(* ===== verification/Tcp_Run_Spec.thy ===== *)
theory Tcp_Run_Spec
  imports Tcp_Run
begin

section \<open>The life of a connection under every interleaving\<close>

text \<open>The system: \<open>Run\<close>, the four goroutines it starts, the goroutine that closes the channels behind
  \<open>QuitFunc\<close>, and anything else the service and other goroutines do, which send through \<open>WriteChan\<close>
  and \<open>WriteToReadChan\<close>, may quit the connection and give it a reason to close if it has none.\<close>

record 'w Env =
  en_wrf :: "'w wr_fun"
  en_text :: "goerr \<Rightarrow> string"
  en_write :: "byte list \<Rightarrow> (bool \<times> ee option) go"
  en_err :: "byte list \<Rightarrow> ee \<Rightarrow> ee option"
  en_readChan :: "byte list \<Rightarrow> func_result"
  en_init :: func_result
  en_start :: func_result
  en_mk :: "go_error \<Rightarrow> ee"
  en_remote :: string
  en_isRun :: bool
  en_runReadChan :: bool

text \<open>The calls of the callback \<open>Close\<close>.\<close>

definition closes :: "('r, 'w) Conn \<Rightarrow> svc_call list" where
  "closes c = filter (\<lambda>x. case x of CallClose t \<Rightarrow> True | _ \<Rightarrow> False) (cn_calls c)"

text \<open>What everything but \<open>Run\<close> and the end of the channels leaves alone: a reason stays, a connection that
  quits has one and stays quit.\<close>

definition keeps :: "('r, 'w) Conn \<Rightarrow> ('r, 'w) Conn \<Rightarrow> bool" where
  "keeps c c' \<longleftrightarrow>
     closes c' = closes c \<and> cn_servicer c' = cn_servicer c \<and> cn_chansClosed c' = cn_chansClosed c \<and>
     (cn_TypeClose c \<noteq> TypClose \<longrightarrow> cn_TypeClose c' = cn_TypeClose c) \<and>
     (cn_IsQuit c \<longrightarrow> cn_IsQuit c') \<and> (cn_IsQuit c' \<longrightarrow> cn_IsQuit c \<or> cn_TypeClose c' \<noteq> TypClose)"

inductive conn_step :: "'w Env \<Rightarrow> ('r, 'w) RunState \<Rightarrow> ('r, 'w) RunState \<Rightarrow> bool" for E :: "'w Env" where
  life: "ConnService_Run (en_mk E) (en_remote E) (en_isRun E) (en_runReadChan E) (en_init E) (en_start E) s = Some s' \<Longrightarrow>
    conn_step E s s'"
| writer: "rn_started s \<Longrightarrow>
    ConnService_Write (en_wrf E) (en_text E) (en_write E) (en_err E) ev (rn_w s) = Some w \<Longrightarrow>
    conn_step E s (s\<lparr>rn_w := w\<rparr>)"
| readChan: "rn_started s \<Longrightarrow> en_runReadChan E \<Longrightarrow>
    ConnService_ReadChan (en_readChan E) (en_mk E) stop (rn_conn s, rn_r s) = Some (c, r) \<Longrightarrow>
    conn_step E s (set_conn c s\<lparr>rn_r := r\<rparr>)"
| reader: "rn_reading s \<Longrightarrow> ConnService_Read (en_mk E) res (rn_conn s) = (c, e) \<Longrightarrow>
    conn_step E s (set_conn c s\<lparr>rn_reading := False\<rparr>)"
| watch: "rn_checking s \<Longrightarrow> tk_conn t = rn_conn s \<Longrightarrow>
    check_tick t (rn_idleR s) (rn_idleW s) = (dr, dw, c, q) \<Longrightarrow>
    conn_step E s (set_conn (case q of None \<Rightarrow> c | Some c' \<Rightarrow> c') s\<lparr>rn_idleR := dr, rn_idleW := dw, rn_checking := (q = None)\<rparr>)"
| watch_end: "rn_checking s \<Longrightarrow> cn_IsQuit (rn_conn s) \<Longrightarrow> conn_step E s (s\<lparr>rn_checking := False\<rparr>)"
| send: "ConnService_WriteChan late sessionId msg (rn_conn s) = Some (Inr (b, c)) \<Longrightarrow>
    conn_step E s (s\<lparr>rn_w := (rn_w s)\<lparr>ws_conn := c, ws_submitted := ws_submitted (rn_w s) @ (if b then [msg] else [])\<rparr>\<rparr>)"
| sendRead: "ConnService_WriteToReadChan late sessionId msg (rn_conn s) = Some (Inr (b, c)) \<Longrightarrow>
    conn_step E s (set_conn c s\<lparr>rn_sentR := rn_sentR s @ (if b then [msg] else [])\<rparr>)"
| closing: "cn_IsQuit (rn_conn s) \<Longrightarrow> \<not> cn_chansClosed (rn_conn s) \<Longrightarrow> conn_step E s (set_conn (close_chans (rn_conn s)) s)"
| other: "\<lbrakk> cn_writer c = cn_writer (rn_conn s); cn_writeChan c = cn_writeChan (rn_conn s);
            cn_readChan c = cn_readChan (rn_conn s); keeps (rn_conn s) c \<rbrakk> \<Longrightarrow>
    conn_step E s (set_conn c s)"

subsection \<open>What the operations keep\<close>

lemma keeps_refl [simp]: "keeps c c"
  by (simp add: keeps_def)

lemma keeps_trans: "keeps c c1 \<Longrightarrow> keeps c1 c2 \<Longrightarrow> keeps c c2"
  unfolding keeps_def by (elim conjE, intro conjI impI) (simp | metis)+

lemma keeps_set_TypeClose: "t \<noteq> TypClose \<Longrightarrow> keeps c (set_TypeClose t c)"
  by (simp add: keeps_def set_TypeClose_def closes_def)

lemma keeps_notify: "(\<forall>t. x \<noteq> CallClose t) \<Longrightarrow> keeps c (notify x c)"
  by (cases x) (simp_all add: keeps_def notify_def closes_def)

lemma keeps_QuitFunc: "keeps c (ConnService_QuitFunc c)"
  by (simp add: keeps_def ConnService_QuitFunc_def set_TypeClose_def closes_def)

lemma keeps_upd [simp]:
  "keeps c (c\<lparr>cn_writer := b\<rparr>)" "keeps c (c\<lparr>cn_writer := b, cn_TotalWriteByte := n\<rparr>)"
  "keeps c (c\<lparr>cn_writeChan := xs\<rparr>)" "keeps c (c\<lparr>cn_readChan := xs\<rparr>)"
  "keeps c (c\<lparr>cn_conf := conf\<rparr>)"
  by (simp_all add: keeps_def closes_def)

lemma readChan_frame [simp]:
  "cn_readChan (ConnService_QuitFunc c) = cn_readChan c" "cn_readChan (notify x c) = cn_readChan c"
  "cn_readChan (set_TypeClose t c) = cn_readChan c"
  by (simp_all add: ConnService_QuitFunc_def notify_def set_TypeClose_def)

lemma writer_frame [simp]:
  "cn_writer (notify x c) = cn_writer c" "cn_writer (set_TypeClose t c) = cn_writer c"
  by (simp_all add: notify_def set_TypeClose_def)

lemma writeChan_frame [simp]:
  "cn_writeChan (notify x c) = cn_writeChan c" "cn_writeChan (set_TypeClose t c) = cn_writeChan c"
  by (simp_all add: notify_def set_TypeClose_def)

lemma keeps_write_failed:
  assumes "write_failed tx svc_err data e c = (r, c')"
  shows "keeps c c'" and "cn_readChan c' = cn_readChan c"
proof -
  let ?c1 = "c\<lparr>cn_writer := snd (Writer_ResetErr (cn_writer c))\<rparr>"
  obtain isClose e2 c2 where s: "SocketErr tx e False ?c1 = (isClose, e2, c2)" by (metis prod_cases3)
  have k2: "keeps c c2" "cn_readChan c2 = cn_readChan c"
    using SocketErr_ok[OF s] keeps_trans[OF keeps_upd(1) keeps_set_TypeClose] by auto
  have tm: "keeps c2 (notify (CallWriteTimeout False) (c2\<lparr>cn_TypeClose := TypCloseWriteTimeout\<rparr>))"
    if "cn_TypeClose c2 = TypClose"
    using keeps_trans[OF keeps_set_TypeClose keeps_notify, of TypCloseWriteTimeout "CallWriteTimeout False" c2] that
    by (simp add: set_TypeClose_def)
  define c3 where "c3 = (if cn_TypeClose c2 = TypClose
    then notify (CallWriteTimeout False) (c2\<lparr>cn_TypeClose := TypCloseWriteTimeout\<rparr>) else c2)"
  have c3: "keeps c c3" "cn_readChan c3 = cn_readChan c"
    using k2 keeps_trans[OF k2(1) tm] by (simp_all add: c3_def)
  have "c' = c3 \<or> c' = notify CallWriteErr c3"
    using assms s by (simp add: write_failed_def c3_def[symmetric] split: option.splits if_splits)
  then show "keeps c c'" "cn_readChan c' = cn_readChan c"
    using c3 keeps_trans[OF c3(1) keeps_notify, of CallWriteErr] by auto
qed

lemma keeps_writeFunc_loop:
  assumes "writeFunc_loop wrf tx svc_err t data c = Some y"
  shows "keeps c (snd y) \<and> cn_readChan (snd y) = cn_readChan c"
  by (rule writeFunc_loop_rel[where R = "\<lambda>c c'. keeps c c' \<and> cn_readChan c' = cn_readChan c", OF _ _ _ _ _ assms])
    (auto dest: keeps_trans keeps_write_failed)

lemma keeps_writeFunc:
  assumes "writeFunc wrf tx svc_write svc_err msg c = Some (r, c')"
  shows "keeps c c' \<and> cn_readChan c' = cn_readChan c"
  using assms keeps_writeFunc_loop[of wrf tx svc_err 0 msg c "(r, c')"] keeps_set_TypeClose[of TypCloseErr c]
  by (auto simp: writeFunc_def set_TypeClose_def split: if_splits sum.splits prod.splits option.splits)

lemma keeps_write_end: "keeps (ws_conn s) (ws_conn (write_end wrf e s)) \<and> cn_readChan (ws_conn (write_end wrf e s)) = cn_readChan (ws_conn s)"
  using keeps_trans[OF keeps_upd(1) keeps_QuitFunc] keeps_QuitFunc[of "ws_conn s"]
  by (auto simp: write_end_def Let_def split: sum.splits prod.splits)

lemma keeps_write_flush:
  "keeps (ws_conn s) (ws_conn (write_flush wrf s)) \<and> cn_readChan (ws_conn (write_flush wrf s)) = cn_readChan (ws_conn s)"
  using keeps_write_end[of s wrf None] by (auto simp: write_flush_def split: sum.splits prod.splits)

lemma write_end_put [simp]: "ws_put (write_end wrf e s) = ws_put s"
  by (simp add: write_end_def Let_def split: sum.splits prod.splits)

lemma write_flush_put [simp]: "ws_put (write_flush wrf s) = ws_put s"
  by (simp add: write_flush_def split: sum.splits prod.splits)

lemma keeps_write_msg:
  assumes "write_msg wrf tx svc_write svc_err msg rest s = Some s'"
  shows "keeps (ws_conn s) (ws_conn s') \<and> cn_readChan (ws_conn s') = cn_readChan (ws_conn s) \<and>
    ws_put s' = ws_put s @ [msg]"
proof -
  let ?c = "(ws_conn s)\<lparr>cn_writeChan := rest\<rparr>"
  obtain r c where w: "writeFunc wrf tx svc_write svc_err msg ?c = Some (r, c)"
    using assms by (auto simp: write_msg_def split: option.splits)
  let ?s1 = "s\<lparr>ws_conn := c, ws_armed := False, ws_taken := ws_taken s @ [msg], ws_put := ws_put s @ [msg]\<rparr>"
  have k: "keeps (ws_conn s) c" "cn_readChan c = cn_readChan (ws_conn s)"
    using keeps_trans[OF keeps_upd(3)] keeps_writeFunc[OF w] by auto
  have e: "keeps (ws_conn s) (ws_conn (write_end wrf e ?s1))"
    "cn_readChan (ws_conn (write_end wrf e ?s1)) = cn_readChan (ws_conn s)" for e
    using keeps_trans[OF k(1)] k(2) keeps_write_end[of ?s1 wrf e] by auto
  have "(\<exists>e. s' = write_end wrf e ?s1) \<or> s' = ?s1\<lparr>ws_pc := WInner\<rparr>"
    using assms w by (auto simp: write_msg_def Let_def split: sum.splits prod.splits option.splits if_splits)
  then show ?thesis using e k by (elim disjE exE) simp_all
qed

lemma keeps_ConnService_Write:
  assumes "ConnService_Write wrf tx svc_write svc_err ev s = Some s'"
  shows "keeps (ws_conn s) (ws_conn s')" and "cn_readChan (ws_conn s') = cn_readChan (ws_conn s)"
    and "ws_put s = ws_taken s \<Longrightarrow> ws_put s' = ws_taken s'" and "\<nexists>e fe. ws_pc s = WEnd e fe"
proof -
  have "(\<exists>msg rest. write_msg wrf tx svc_write svc_err msg rest s = Some s') \<or>
      (\<exists>s1. (s1 = s \<or> s1 = s\<lparr>ws_armed := False\<rparr> \<or> s1 = s\<lparr>ws_pc := WOuter\<rparr>) \<and>
        (s' = s1 \<or> s' = write_end wrf None s1 \<or> s' = write_flush wrf s1 \<or> s' = s1\<lparr>ws_armed := True\<rparr>))"
    using assms by (auto simp: ConnService_Write_def Let_def split: write_pc.splits write_event.splits list.splits if_splits)
  then consider (msg) msg rest where "write_msg wrf tx svc_write svc_err msg rest s = Some s'"
    | (idle) s1 where "s1 = s \<or> s1 = s\<lparr>ws_armed := False\<rparr> \<or> s1 = s\<lparr>ws_pc := WOuter\<rparr>"
        "s' = s1 \<or> s' = write_end wrf None s1 \<or> s' = write_flush wrf s1 \<or> s' = s1\<lparr>ws_armed := True\<rparr>"
    by blast
  then have "keeps (ws_conn s) (ws_conn s') \<and> cn_readChan (ws_conn s') = cn_readChan (ws_conn s) \<and>
      (ws_put s = ws_taken s \<longrightarrow> ws_put s' = ws_taken s')"
  proof cases
    case msg
    then show ?thesis using keeps_write_msg[OF msg] write_msg_takes[OF msg] by simp
  next
    case idle
    have "ws_conn s1 = ws_conn s" "ws_put s1 = ws_put s" "ws_taken s1 = ws_taken s" using idle(1) by auto
    then show ?thesis using idle(2) keeps_write_end[of s1 wrf None] keeps_write_flush[of s1 wrf] by auto
  qed
  then show "keeps (ws_conn s) (ws_conn s')" "cn_readChan (ws_conn s') = cn_readChan (ws_conn s)"
    "ws_put s = ws_taken s \<Longrightarrow> ws_put s' = ws_taken s'" by auto
  show "\<nexists>e fe. ws_pc s = WEnd e fe" using assms by (auto simp: ConnService_Write_def)
qed

lemma keeps_ReadChan:
  assumes "ConnService_ReadChan rc mk stop (c, r) = Some (c', r')"
  shows "keeps c c'" and "cn_writeChan c' = cn_writeChan c" and "cn_writer c' = cn_writer c"
    and "rd_taken r' @ cn_readChan c' = rd_taken r @ cn_readChan c"
    and "cn_servicer c \<Longrightarrow> rd_put r = rd_taken r \<Longrightarrow> rd_put r' = rd_taken r'" and "\<nexists>e. rd_pc r = REnd e"
proof -
  have q: "keeps c (ConnService_QuitFunc (c\<lparr>cn_readChan := rest\<rparr>))" for rest
    by (rule keeps_trans[OF keeps_upd(4) keeps_QuitFunc])
  show "keeps c c'" and "cn_writeChan c' = cn_writeChan c" and "cn_writer c' = cn_writer c"
    and "rd_taken r' @ cn_readChan c' = rd_taken r @ cn_readChan c"
    and "cn_servicer c \<Longrightarrow> rd_put r = rd_taken r \<Longrightarrow> rd_put r' = rd_taken r'" and "\<nexists>e. rd_pc r = REnd e"
    using assms q
    by (auto simp: ConnService_ReadChan_def read_end_def read_msg_def Let_def keeps_QuitFunc
        split: read_pc.splits list.splits if_splits sum.splits option.splits)
qed

lemma keeps_quits:
  assumes "x = TypCloseReadTimeout \<or> x = TypCloseWriteTimeout"
  shows "keeps c (ConnService_QuitFunc (notify (CallReadTimeout True) (set_TypeClose x c)))"
    and "keeps c (ConnService_QuitFunc (notify (CallWriteTimeout True) (set_TypeClose x c)))"
    and "keeps c (ConnService_QuitFunc (notify (CallWriteTimeout True) (notify (CallReadTimeout True) (set_TypeClose x c))))"
proof -
  have t: "keeps c (set_TypeClose x c)" using assms by (auto intro: keeps_set_TypeClose)
  have r: "keeps c (notify (CallReadTimeout True) (set_TypeClose x c))" by (rule keeps_trans[OF t keeps_notify]) simp
  have w: "keeps c (notify (CallWriteTimeout True) (set_TypeClose x c))" by (rule keeps_trans[OF t keeps_notify]) simp
  have rw: "keeps c (notify (CallWriteTimeout True) (notify (CallReadTimeout True) (set_TypeClose x c)))"
    by (rule keeps_trans[OF r keeps_notify]) simp
  note quit = keeps_trans[OF _ keeps_QuitFunc]
  show "keeps c (ConnService_QuitFunc (notify (CallReadTimeout True) (set_TypeClose x c)))"
    "keeps c (ConnService_QuitFunc (notify (CallWriteTimeout True) (set_TypeClose x c)))"
    "keeps c (ConnService_QuitFunc (notify (CallWriteTimeout True) (notify (CallReadTimeout True) (set_TypeClose x c))))"
    by (rule quit[OF r], rule quit[OF w], rule quit[OF rw])
qed

lemma keeps_check_tick:
  assumes "check_tick t dr dw = (dr', dw', c', q)"
  shows "keeps (tk_conn t) (case q of None \<Rightarrow> c' | Some c \<Rightarrow> c)"
    and "cn_writeChan (case q of None \<Rightarrow> c' | Some c \<Rightarrow> c) = cn_writeChan (tk_conn t)"
    and "cn_readChan (case q of None \<Rightarrow> c' | Some c \<Rightarrow> c) = cn_readChan (tk_conn t)"
    and "cn_writer (case q of None \<Rightarrow> c' | Some c \<Rightarrow> c) = cn_writer (tk_conn t)"
proof -
  obtain c1 dr1 dw1 where r: "check_read t dr1 (tk_conn t) = (dr', c1)" and w: "check_write t dw1 c1 = (dw', c')"
    and q: "q = check_quit dr' dw' c'"
    using assms by (auto simp: check_tick_def Let_def split: prod.splits)
  have n: "keeps c (notify (CallReadTimeout b) c)" "keeps c (notify (CallWriteTimeout b) c)" for b and c :: "('a, 'b) Conn"
    by (auto intro: keeps_notify)
  have c1: "keeps (tk_conn t) c1" "cn_writeChan c1 = cn_writeChan (tk_conn t)" "cn_readChan c1 = cn_readChan (tk_conn t)"
    "cn_writer c1 = cn_writer (tk_conn t)"
    using r n by (auto simp: check_read_def split: if_splits)
  have c': "keeps c1 c'" "cn_writeChan c' = cn_writeChan c1" "cn_readChan c' = cn_readChan c1" "cn_writer c' = cn_writer c1"
    using w n by (auto simp: check_write_def split: if_splits)
  have quit: "keeps c' (case q of None \<Rightarrow> c' | Some c \<Rightarrow> c)"
    unfolding q check_quit_def by (simp add: keeps_quits)
  show "keeps (tk_conn t) (case q of None \<Rightarrow> c' | Some c \<Rightarrow> c)"
    by (rule keeps_trans[OF keeps_trans[OF c1(1) c'(1)] quit])
  show "cn_writeChan (case q of None \<Rightarrow> c' | Some c \<Rightarrow> c) = cn_writeChan (tk_conn t)"
    "cn_readChan (case q of None \<Rightarrow> c' | Some c \<Rightarrow> c) = cn_readChan (tk_conn t)"
    "cn_writer (case q of None \<Rightarrow> c' | Some c \<Rightarrow> c) = cn_writer (tk_conn t)"
    using c1 c' unfolding q by (simp_all add: check_quit_def)
qed

lemma WriteToReadChan_ok:
  assumes "ConnService_WriteToReadChan late sessionId msg c = Some (Inr (b, c'))"
  shows "c' = (if b then c\<lparr>cn_readChan := cn_readChan c @ [msg]\<rparr> else c)" and "cn_chansClosed c \<Longrightarrow> \<not> b"
  using assms
  by (auto simp: ConnService_WriteToReadChan_def ConnService_TryWriteToReadChan_def
      split: if_splits sum.splits bool.splits)

lemma WriteChan_closed:
  assumes "ConnService_WriteChan late sessionId msg c = Some (Inr (b, c'))" and "cn_chansClosed c"
  shows "\<not> b"
  using assms
  by (auto simp: ConnService_WriteChan_def ConnService_TryWriteChan_def split: if_splits sum.splits bool.splits)

subsection \<open>The invariant\<close>

fun run_phase :: "run_pc \<Rightarrow> nat" where
  "run_phase RunInit = 0"
| "run_phase RunStart = 1"
| "run_phase RunWait = 2"
| "run_phase (RunClose e) = 3"
| "run_phase (RunJoin e) = 4"
| "run_phase (RunDrainW e) = 5"
| "run_phase (RunDrainR e) = 6"
| "run_phase (RunDone e) = 7"

text \<open>What holds of the messages, whatever \<open>Run\<close> does.\<close>

definition msgs_inv :: "('r, 'w) RunState \<Rightarrow> bool" where
  "msgs_inv s \<longleftrightarrow>
     ws_taken (rn_w s) @ rn_putW s @ cn_writeChan (rn_conn s) = ws_submitted (rn_w s) \<and>
     ws_put (rn_w s) = ws_taken (rn_w s) \<and>
     rd_taken (rn_r s) @ rn_putR s @ cn_readChan (rn_conn s) = rn_sentR s \<and>
     (cn_servicer (rn_conn s) \<longrightarrow> rd_put (rn_r s) = rd_taken (rn_r s))"

text \<open>What holds from a phase of \<open>Run\<close> on, or up to one.\<close>

definition phase_inv :: "bool \<Rightarrow> nat \<Rightarrow> ('r, 'w) RunState \<Rightarrow> bool" where
  "phase_inv rc n s \<longleftrightarrow>
     (let c = rn_conn s
      in (n < 5 \<longrightarrow> rn_putW s = []) \<and> (n < 6 \<longrightarrow> rn_putR s = []) \<and> (n < 4 \<longrightarrow> closes c = []) \<and>
         (4 \<le> n \<longrightarrow> cn_IsQuit c \<and> closes c = (if cn_servicer c then [CallClose (cn_TypeClose c)] else [])) \<and>
         (5 \<le> n \<longrightarrow> all_ended rc s) \<and> (6 \<le> n \<longrightarrow> cn_chansClosed c \<and> cn_writeChan c = []) \<and>
         (7 \<le> n \<longrightarrow> cn_readChan c = []))"

definition quit_inv :: "('r, 'w) Conn \<Rightarrow> bool" where
  "quit_inv c \<longleftrightarrow> (cn_IsQuit c \<longrightarrow> cn_TypeClose c \<noteq> TypClose)"

definition conn_inv :: "'w Env \<Rightarrow> ('r, 'w) RunState \<Rightarrow> bool" where
  "conn_inv E s \<longleftrightarrow>
     msgs_inv s \<and> phase_inv (en_runReadChan E) (run_phase (rn_pc s)) s \<and> quit_inv (rn_conn s)"

lemma keeps_quit_inv: "keeps c c' \<Longrightarrow> quit_inv c \<Longrightarrow> quit_inv c'"
  by (auto simp: keeps_def quit_inv_def)

text \<open>A goroutine moves the connection; the channels only lose what it takes, and from the phase that needs
  them unchanged they are.\<close>

lemma phase_inv_move:
  assumes "phase_inv rc n s" and "quit_inv (rn_conn s)" and "keeps (rn_conn s) (rn_conn s')"
    and "rn_putW s' = rn_putW s" and "rn_putR s' = rn_putR s" and "all_ended rc s \<Longrightarrow> all_ended rc s'"
    and "6 \<le> n \<Longrightarrow> cn_writeChan (rn_conn s') = cn_writeChan (rn_conn s)"
    and "7 \<le> n \<Longrightarrow> cn_readChan (rn_conn s') = cn_readChan (rn_conn s)"
  shows "phase_inv rc n s'"
  using assms by (auto simp: phase_inv_def keeps_def quit_inv_def Let_def)

lemma set_conn_simps [simp]:
  "rn_conn (set_conn c s) = c" "rn_r (set_conn c s) = rn_r s" "rn_pc (set_conn c s) = rn_pc s"
  "rn_putW (set_conn c s) = rn_putW s" "rn_putR (set_conn c s) = rn_putR s" "rn_sentR (set_conn c s) = rn_sentR s"
  "ws_taken (rn_w (set_conn c s)) = ws_taken (rn_w s)" "ws_put (rn_w (set_conn c s)) = ws_put (rn_w s)"
  "ws_submitted (rn_w (set_conn c s)) = ws_submitted (rn_w s)" "ws_pc (rn_w (set_conn c s)) = ws_pc (rn_w s)"
  "rn_started (set_conn c s) = rn_started s" "rn_reading (set_conn c s) = rn_reading s"
  "rn_checking (set_conn c s) = rn_checking s"
  by (simp_all add: set_conn_def)

lemma all_ended_simps [simp]:
  "all_ended rc (set_conn c s) = all_ended rc s" "all_ended rc (s\<lparr>rn_pc := p\<rparr>) = all_ended rc s"
  "all_ended rc (s\<lparr>rn_putW := xs\<rparr>) = all_ended rc s" "all_ended rc (s\<lparr>rn_putR := xs\<rparr>) = all_ended rc s"
  "all_ended rc (s\<lparr>rn_sentR := xs\<rparr>) = all_ended rc s"
  by (simp_all add: all_ended_def set_conn_def)

lemma closes_chans [simp]:
  "closes (c\<lparr>cn_writeChan := xs\<rparr>) = closes c" "closes (c\<lparr>cn_readChan := xs\<rparr>) = closes c"
  by (simp_all add: closes_def)

text \<open>What \<open>Run\<close> makes of the connection when it closes it.\<close>

lemma run_close:
  fixes c :: "('r, 'w) Conn"
  defines "c1 \<equiv> set_TypeClose TypCloseQuit c"
  defines "c' \<equiv> ConnService_QuitFunc (notify (CallClose (cn_TypeClose c1)) c1)"
  shows "cn_IsQuit c'" "cn_TypeClose c' \<noteq> TypClose" "cn_servicer c' = cn_servicer c"
    "closes c' = closes c @ (if cn_servicer c then [CallClose (cn_TypeClose c')] else [])"
    "cn_writeChan c' = cn_writeChan c" "cn_readChan c' = cn_readChan c"
  unfolding c'_def c1_def
  by (simp_all add: ConnService_QuitFunc_def set_TypeClose_def notify_def closes_def)

lemma conn_inv_life:
  assumes "ConnService_Run mk remote isRun (en_runReadChan E) i st s = Some s'" and "conn_inv E s"
  shows "conn_inv E s'"
proof -
  note inv_defs = conn_inv_def msgs_inv_def phase_inv_def quit_inv_def Let_def
  have cb: "run_phase (callback mk what res p) \<le> max (run_phase p) 3" for what res p
    by (auto simp: callback_def split: sum.splits option.splits)
  show ?thesis
  proof (cases "rn_pc s")
    case RunInit
    define p where "p = (if \<not> isRun then RunClose None
      else if cn_servicer (rn_conn s) then callback mk ''service.servicer.Init'' i RunStart else RunStart)"
    have "s' = s\<lparr>rn_pc := p\<rparr>" using assms(1) RunInit by (simp add: ConnService_Run_def Let_def p_def)
    moreover have "run_phase p \<le> 3" using cb[of "''service.servicer.Init''" i RunStart] by (simp add: p_def)
    ultimately show ?thesis using assms(2) RunInit by (clarsimp simp: inv_defs)
  next
    case RunStart
    define p where "p = (if cn_servicer (rn_conn s) then callback mk ''service.servicer.Start'' st RunWait else RunWait)"
    define c where "c = (rn_conn s)\<lparr>cn_conf := clamp_interval (cn_conf (rn_conn s))\<rparr>"
    define s1 where "s1 = s\<lparr>rn_started := True, rn_reading := True, rn_checking := True,
        rn_idleR := idle_start (cn_TotalReadByte (rn_conn s)) 0, rn_idleW := idle_start (cn_TotalWriteByte (rn_conn s)) 0,
        rn_pc := p\<rparr>"
    have s': "s' = set_conn c s1"
      using assms(1) RunStart by (simp add: ConnService_Run_def Let_def p_def c_def s1_def)
    have s1: "rn_pc s1 = p" "rn_w s1 = rn_w s" "rn_r s1 = rn_r s" "rn_putW s1 = rn_putW s"
      "rn_putR s1 = rn_putR s" "rn_sentR s1 = rn_sentR s"
      by (simp_all add: s1_def)
    have "run_phase p \<le> 3" using cb[of "''service.servicer.Start''" st RunWait] by (simp add: p_def)
    moreover have "closes c = closes (rn_conn s)" "cn_IsQuit c = cn_IsQuit (rn_conn s)" "cn_TypeClose c = cn_TypeClose (rn_conn s)"
      "cn_writeChan c = cn_writeChan (rn_conn s)" "cn_readChan c = cn_readChan (rn_conn s)" "cn_servicer c = cn_servicer (rn_conn s)"
      by (simp_all add: c_def closes_def)
    ultimately show ?thesis using assms(2) RunStart s1 unfolding s' by (clarsimp simp: inv_defs)
  next
    case RunWait
    then have "s' = s\<lparr>rn_pc := RunClose None\<rparr>" using assms(1) by (simp add: ConnService_Run_def Let_def split: if_splits)
    then show ?thesis using assms(2) RunWait by (clarsimp simp: inv_defs)
  next
    case (RunClose err)
    obtain c' where "s' = set_conn c' s\<lparr>rn_pc := RunJoin err\<rparr>"
      "cn_IsQuit c'" "cn_TypeClose c' \<noteq> TypClose" "cn_servicer c' = cn_servicer (rn_conn s)"
      "closes c' = closes (rn_conn s) @ (if cn_servicer (rn_conn s) then [CallClose (cn_TypeClose c')] else [])"
      "cn_writeChan c' = cn_writeChan (rn_conn s)" "cn_readChan c' = cn_readChan (rn_conn s)"
    proof (rule that[OF _ run_close])
      show "s' = set_conn (ConnService_QuitFunc (notify (CallClose (cn_TypeClose (set_TypeClose TypCloseQuit (rn_conn s))))
          (set_TypeClose TypCloseQuit (rn_conn s)))) s\<lparr>rn_pc := RunJoin err\<rparr>"
        using assms(1) RunClose by (simp add: ConnService_Run_def Let_def)
    qed
    then show ?thesis
      using assms(2) RunClose by (auto simp: conn_inv_def msgs_inv_def phase_inv_def quit_inv_def Let_def)
  next
    case (RunJoin err)
    then have "s' = s\<lparr>rn_pc := RunDrainW err\<rparr>" "all_ended (en_runReadChan E) s"
      using assms(1) by (auto simp: ConnService_Run_def Let_def split: if_splits)
    then show ?thesis using assms(2) RunJoin by (clarsimp simp: inv_defs)
  next
    case (RunDrainW err)
    show ?thesis
    proof (cases "cn_writeChan (rn_conn s)")
      case Nil
      then have "s' = s\<lparr>rn_pc := RunDrainR err\<rparr>" "cn_chansClosed (rn_conn s)"
        using assms(1) RunDrainW by (auto simp: ConnService_Run_def Let_def split: if_splits)
      then show ?thesis using assms(2) RunDrainW Nil by (clarsimp simp: inv_defs)
    next
      case (Cons msg rest)
      then have "s' = set_conn ((rn_conn s)\<lparr>cn_writeChan := rest\<rparr>) s\<lparr>rn_putW := rn_putW s @ [msg]\<rparr>"
        using assms(1) RunDrainW by (simp add: ConnService_Run_def Let_def)
      then show ?thesis using assms(2) RunDrainW Cons by (clarsimp simp: inv_defs)
    qed
  next
    case (RunDrainR err)
    show ?thesis
    proof (cases "cn_readChan (rn_conn s)")
      case Nil
      then obtain e where "s' = s\<lparr>rn_pc := RunDone e\<rparr>"
        using assms(1) RunDrainR by (auto simp: ConnService_Run_def Let_def split: if_splits)
      then show ?thesis using assms(2) RunDrainR Nil by (clarsimp simp: inv_defs)
    next
      case (Cons msg rest)
      then have "s' = set_conn ((rn_conn s)\<lparr>cn_readChan := rest\<rparr>) s\<lparr>rn_putR := rn_putR s @ [msg]\<rparr>"
        using assms(1) RunDrainR by (simp add: ConnService_Run_def Let_def)
      then show ?thesis using assms(2) RunDrainR Cons by (clarsimp simp: inv_defs)
    qed
  next
    case (RunDone err)
    then show ?thesis using assms by (simp add: ConnService_Run_def)
  qed
qed

lemma conn_inv_move:
  assumes "conn_inv E s" and "keeps (rn_conn s) (rn_conn s')" and "msgs_inv s'" and "rn_pc s' = rn_pc s"
    and "rn_putW s' = rn_putW s" and "rn_putR s' = rn_putR s"
    and "all_ended (en_runReadChan E) s \<Longrightarrow> all_ended (en_runReadChan E) s'"
    and "6 \<le> run_phase (rn_pc s) \<Longrightarrow> cn_writeChan (rn_conn s') = cn_writeChan (rn_conn s)"
    and "7 \<le> run_phase (rn_pc s) \<Longrightarrow> cn_readChan (rn_conn s') = cn_readChan (rn_conn s)"
  shows "conn_inv E s'"
  using assms(1,3) phase_inv_move[OF _ _ assms(2,5,6,7,8,9)] keeps_quit_inv[OF assms(2)]
  unfolding conn_inv_def assms(4) by blast

lemma before_end:
  assumes "conn_inv E s" and "\<not> all_ended (en_runReadChan E) s"
  shows "run_phase (rn_pc s) < 5" "rn_putW s = []" "rn_putR s = []"
  using assms by (auto simp: conn_inv_def phase_inv_def Let_def not_less)

lemma conn_inv_writer:
  assumes "ConnService_Write (en_wrf E) (en_text E) (en_write E) (en_err E) ev (rn_w s) = Some w" and "rn_started s"
    and inv: "conn_inv E s"
  shows "conn_inv E (s\<lparr>rn_w := w\<rparr>)"
proof -
  note k = keeps_ConnService_Write[OF assms(1)] and t = ConnService_Write_takes[OF assms(1)]
  have ne: "\<not> all_ended (en_runReadChan E) s" using k(4) assms(2) by (simp add: all_ended_def)
  note b = before_end[OF inv ne]
  have m: "msgs_inv (s\<lparr>rn_w := w\<rparr>)"
    using inv b k t by (simp add: conn_inv_def msgs_inv_def keeps_def)
  show ?thesis using m k(1) ne b(1) by (intro conn_inv_move[OF inv]) auto
qed

lemma conn_inv_readChan:
  assumes "ConnService_ReadChan (en_readChan E) (en_mk E) stop (rn_conn s, rn_r s) = Some (c, r)" and "rn_started s"
    and "en_runReadChan E" and inv: "conn_inv E s"
  shows "conn_inv E (set_conn c s\<lparr>rn_r := r\<rparr>)"
proof -
  note k = keeps_ReadChan[OF assms(1)]
  have ne: "\<not> all_ended (en_runReadChan E) s" using k(6) assms(2,3) by (simp add: all_ended_def)
  note b = before_end[OF inv ne]
  have m: "msgs_inv (set_conn c s\<lparr>rn_r := r\<rparr>)"
    using inv b k by (simp add: conn_inv_def msgs_inv_def keeps_def)
  show ?thesis using m k(1,2) ne b(1) by (intro conn_inv_move[OF inv]) auto
qed

lemma conn_inv_step:
  assumes "conn_step E s s'" and inv: "conn_inv E s"
  shows "conn_inv E s'"
  using assms(1)
proof cases
  case life
  then show ?thesis using conn_inv_life inv by blast
next
  case (writer ev w)
  then show ?thesis using conn_inv_writer inv by blast
next
  case (readChan stop c r)
  then show ?thesis using conn_inv_readChan inv by blast
next
  case (reader res c e)
  have c: "c = ConnService_QuitFunc (rn_conn s)" using reader(3) by (simp add: ConnService_Read_def)
  then show ?thesis unfolding reader(1)
    using inv keeps_QuitFunc[of "rn_conn s"]
    by (intro conn_inv_move[OF inv]) (simp_all add: conn_inv_def msgs_inv_def all_ended_def keeps_def)
next
  case (watch t dr dw c q)
  note k = keeps_check_tick[OF watch(4), unfolded watch(3)]
  show ?thesis unfolding watch(1)
    using inv k watch(2) by (intro conn_inv_move[OF inv]) (simp_all add: conn_inv_def msgs_inv_def all_ended_def keeps_def)
next
  case watch_end
  then show ?thesis
    using inv by (intro conn_inv_move[OF inv]) (simp_all add: conn_inv_def msgs_inv_def all_ended_def)
next
  case (send late sessionId msg b c)
  note c = WriteChan_ok[OF send(2)] and closed = WriteChan_closed[OF send(2)]
  have "\<not> b" if "6 \<le> run_phase (rn_pc s)"
    using that inv closed by (simp add: conn_inv_def phase_inv_def Let_def)
  then show ?thesis unfolding send(1)
    using inv c by (cases b; intro conn_inv_move[OF inv]) (simp_all add: conn_inv_def msgs_inv_def all_ended_def)
next
  case (sendRead late sessionId msg b c)
  note c = WriteToReadChan_ok[OF sendRead(2)]
  have "\<not> b" if "7 \<le> run_phase (rn_pc s)"
    using that inv c(2) by (simp add: conn_inv_def phase_inv_def Let_def)
  then show ?thesis unfolding sendRead(1)
    using inv c(1) by (cases b; intro conn_inv_move[OF inv]) (simp_all add: conn_inv_def msgs_inv_def all_ended_def)
next
  case closing
  have "phase_inv rc n s'" if "phase_inv rc n s" for rc n
    unfolding closing(1) using that closing(3) by (simp add: phase_inv_def close_chans_def closes_def Let_def)
  moreover have "msgs_inv s' = msgs_inv s" "quit_inv (rn_conn s') = quit_inv (rn_conn s)" "rn_pc s' = rn_pc s"
    unfolding closing(1) by (simp_all add: msgs_inv_def quit_inv_def close_chans_def)
  ultimately show ?thesis using inv by (simp add: conn_inv_def)
next
  case (other c)
  show ?thesis unfolding other(1)
    using inv other(2-5) by (intro conn_inv_move[OF inv]) (simp_all add: conn_inv_def msgs_inv_def all_ended_def keeps_def)
qed

lemma conn_reach_inv: "(conn_step E)\<^sup>*\<^sup>* s s' \<Longrightarrow> conn_inv E s \<Longrightarrow> conn_inv E s'"
  by (induction rule: rtranclp_induct) (auto intro: conn_inv_step)

subsection \<open>The writing goroutine within the system\<close>

lemma WriteChan_open:
  "ConnService_WriteChan late sessionId msg c = Some (Inr (b, c')) \<Longrightarrow> b \<Longrightarrow> \<not> cn_IsQuit c"
  by (auto simp: ConnService_WriteChan_def split: if_splits)

text \<open>With the messages that \<open>Run\<close> has put back counted as still in the channel, the writing goroutine and
  the connection take a step of \<open>tcp_step\<close>, or none.\<close>

definition undrained :: "('r, 'w) RunState \<Rightarrow> ('r, 'w) WriteState" where
  "undrained s = (rn_w s)\<lparr>ws_conn := (rn_conn s)\<lparr>cn_writeChan := rn_putW s @ cn_writeChan (rn_conn s)\<rparr>\<rparr>"

lemma tcp_other:
  assumes "cn_writer c = cn_writer (ws_conn w)" "cn_writeChan c = cn_writeChan (ws_conn w)" "cn_servicer c = cn_servicer (ws_conn w)"
    and "w' = w\<lparr>ws_conn := c\<rparr>"
  shows "(tcp_step wrf tx sw se)\<^sup>*\<^sup>* w w'"
proof -
  have "tcp_step wrf tx sw se w w'" unfolding assms(4) by (rule tcp_step.other[OF assms(1-3)])
  then show ?thesis by (rule r_into_rtranclp)
qed

lemma undrained_other:
  assumes "cn_writer (rn_conn s') = cn_writer (rn_conn s)" "cn_servicer (rn_conn s') = cn_servicer (rn_conn s)"
    and "rn_putW s' @ cn_writeChan (rn_conn s') = rn_putW s @ cn_writeChan (rn_conn s)"
    and "rn_w s' = (rn_w s)\<lparr>ws_conn := rn_conn s'\<rparr>"
  shows "(tcp_step wrf tx sw se)\<^sup>*\<^sup>* (undrained s) (undrained s')"
proof (rule tcp_other)
  show "undrained s' = (undrained s)\<lparr>ws_conn := ws_conn (undrained s')\<rparr>"
    unfolding undrained_def by (subst assms(4)) simp
qed (use assms(1-3) in \<open>simp_all add: undrained_def\<close>)

lemma undrained_before: "rn_putW s = [] \<Longrightarrow> undrained s = rn_w s"
  by (simp add: undrained_def)

lemma life_frame:
  assumes "ConnService_Run mk remote isRun rc i st s = Some s'"
  shows "cn_writer (rn_conn s') = cn_writer (rn_conn s)" "cn_servicer (rn_conn s') = cn_servicer (rn_conn s)"
    and "rn_putW s' @ cn_writeChan (rn_conn s') = rn_putW s @ cn_writeChan (rn_conn s)"
    and "rn_w s' = (rn_w s)\<lparr>ws_conn := rn_conn s'\<rparr>"
  using assms
  by (cases "rn_pc s"; auto simp: ConnService_Run_def Let_def set_conn_def ConnService_QuitFunc_def set_TypeClose_def notify_def
      split: if_splits list.splits)+

lemma conn_tcp_step:
  assumes "conn_step E s s'" and inv: "conn_inv E s"
  shows "(tcp_step (en_wrf E) (en_text E) (en_write E) (en_err E))\<^sup>*\<^sup>* (undrained s) (undrained s')"
  using assms(1)
proof cases
  case life
  show ?thesis by (rule undrained_other[OF life_frame[OF life]])
next
  case (writer ev w)
  have "\<not> all_ended (en_runReadChan E) s"
    using keeps_ConnService_Write(4)[OF writer(3)] writer(2) by (simp add: all_ended_def)
  from before_end(2)[OF inv this] have "undrained s = rn_w s" "undrained s' = w"
    by (simp_all add: undrained_def writer(1))
  then show ?thesis using tcp_step.run[OF writer(3)] by auto
next
  case (readChan stop c r)
  note k = keeps_ReadChan[OF readChan(4)]
  show ?thesis unfolding readChan(1) using k(1,2,3)
    by (intro undrained_other) (simp_all add: keeps_def set_conn_def)
next
  case (reader res c e)
  have "c = ConnService_QuitFunc (rn_conn s)" using reader(3) by (simp add: ConnService_Read_def)
  then show ?thesis unfolding reader(1) by (intro undrained_other) (simp_all add: set_conn_def)
next
  case (watch t dr dw c q)
  note k = keeps_check_tick[OF watch(4), unfolded watch(3)]
  show ?thesis unfolding watch(1) using k
    by (intro undrained_other) (simp_all add: keeps_def set_conn_def)
next
  case watch_end
  then show ?thesis by (intro undrained_other) simp_all
next
  case (send late sessionId msg b c)
  show ?thesis
  proof (cases "b")
    case True
    then have "rn_putW s = []"
      using inv WriteChan_open[OF send(2) True]
      by (auto simp: conn_inv_def phase_inv_def Let_def)
    then have "undrained s = rn_w s" "undrained s' = (rn_w s)\<lparr>ws_conn := c, ws_submitted := ws_submitted (rn_w s) @ (if b then [msg] else [])\<rparr>"
      by (simp_all add: undrained_def send(1))
    then show ?thesis using tcp_step.send[OF send(2)] by auto
  next
    case False
    then show ?thesis unfolding send(1) using WriteChan_ok[OF send(2)] by (intro undrained_other) simp_all
  qed
next
  case (sendRead late sessionId msg b c)
  then show ?thesis unfolding sendRead(1) using WriteToReadChan_ok(1)[OF sendRead(2)]
    by (intro undrained_other) (simp_all add: set_conn_def)
next
  case closing
  then show ?thesis by (intro undrained_other) (simp_all add: set_conn_def close_chans_def)
next
  case (other c)
  then show ?thesis unfolding other(1) by (intro undrained_other) (simp_all add: set_conn_def keeps_def)
qed

lemma conn_tcp_reach:
  assumes "(conn_step E)\<^sup>*\<^sup>* s s'" and "conn_inv E s"
  shows "(tcp_step (en_wrf E) (en_text E) (en_write E) (en_err E))\<^sup>*\<^sup>* (undrained s) (undrained s')"
  using assms
proof (induction rule: rtranclp_induct)
  case (step y z)
  then show ?case using conn_tcp_step[OF step.hyps(2)] conn_reach_inv[OF step.hyps(1)] by (meson rtranclp_trans)
qed simp

end
