(* ===== verification/Tcp_Life.thy ===== *)
theory Tcp_Life
  imports Tcp_Properties Tcp_Run_Spec
begin

section \<open>A connection from its start to its end\<close>



end
