(* ===== verification/Tcp_Service.thy ===== *)
theory Tcp_Service
  imports Tcp_Write_Spec Msg_Pool
begin

section \<open>The listening service and messages by reference\<close>

text \<open>
  The parts of \<open>rivetxcore/tcpx/tcp.go\<close> around a connection: \<open>Service\<close> with its accept loop and \<open>Close\<close>,
  the steps of \<open>DoConnectTcp\<close>, and the sends that count a reference. The network is what its calls
  return; the run of a connection is its result.
\<close>

subsection \<open>Service\<close>

datatype accept_loop = NotStarted | Accepting | LoopEnded

record Service =
  sv_Port :: string
  sv_addr :: string
  sv_wg :: int                   \<comment> \<open>the counter of \<open>WaitGroup\<close>\<close>
  sv_IsQuit :: bool
  sv_cancelled :: bool
  sv_listener :: bool            \<comment> \<open>not nil\<close>
  sv_lclosed :: bool             \<comment> \<open>the listener is closed\<close>
  sv_loop :: accept_loop
  sv_running :: nat              \<comment> \<open>goroutines of connections\<close>

definition NewService :: Service where
  "NewService = \<lparr>sv_Port = [], sv_addr = [], sv_wg = 0, sv_IsQuit = False, sv_cancelled = False, sv_listener = False,
     sv_lclosed = False, sv_loop = NotStarted, sv_running = 0\<rparr>"

definition Service_QuitFunc :: "Service \<Rightarrow> Service" where
  "Service_QuitFunc s = (if sv_IsQuit s then s else s\<lparr>sv_IsQuit := True, sv_cancelled := True\<rparr>)"

text \<open>\<open>ListenTcp\<close>: \<open>listen\<close> and \<open>split\<close> are the results of \<open>net.Listen\<close> and \<open>net.SplitHostPort\<close>.\<close>

definition ListenTcp :: "string \<Rightarrow> goerr + unit \<Rightarrow> goerr + string \<Rightarrow> ee + Service" where
  "ListenTcp addr listen split =
     (case listen of
        Inl e \<Rightarrow> Inl (EeNew (Some e) (''Error starting TCP server addr:'' @ addr))
      | Inr _ \<Rightarrow>
          (case split of
             Inl e \<Rightarrow> Inl (EeNew (Some e) (''Error splitting host port addr:'' @ addr))
           | Inr port \<Rightarrow>
               Inr (NewService\<lparr>sv_Port := port, sv_addr := addr, sv_listener := True, sv_wg := 1, sv_loop := Accepting\<rparr>)))"

text \<open>One round of the accept loop: \<open>res\<close> says whether \<open>Accept\<close> returned a connection; a closed listener
  returns an error.\<close>

definition accept_step :: "bool \<Rightarrow> Service \<Rightarrow> Service option" where
  "accept_step res s =
     (if sv_loop s = Accepting
      then (if res \<and> \<not> sv_lclosed s then Some (s\<lparr>sv_wg := sv_wg s + 1, sv_running := Suc (sv_running s)\<rparr>)
            else if res then None
            else if sv_IsQuit s then Some (s\<lparr>sv_loop := LoopEnded, sv_wg := sv_wg s - 1\<rparr>)
            else Some s)
      else None)"

text \<open>The goroutine of a connection has run it.\<close>

definition conn_done :: "Service \<Rightarrow> Service option" where
  "conn_done s = (case sv_running s of 0 \<Rightarrow> None | Suc n \<Rightarrow> Some (s\<lparr>sv_running := n, sv_wg := sv_wg s - 1\<rparr>))"

datatype close_pc = CloseEnter | CloseListener | CloseWait

fun Service_Close :: "Service \<Rightarrow> close_pc \<Rightarrow> (Service \<times> (close_pc + unit)) option" where
  "Service_Close s CloseEnter = (if sv_listener s then Some (Service_QuitFunc s, Inl CloseListener) else Some (s, Inr ()))"
| "Service_Close s CloseListener = Some (s\<lparr>sv_lclosed := True\<rparr>, Inl CloseWait)"
| "Service_Close s CloseWait = (if sv_wg s = 0 then Some (s, Inr ()) else None)"

text \<open>\<open>DoConnectTcp\<close>: \<open>split\<close> and \<open>dial\<close> are the results of the network, \<open>run\<close> that of the connection. The
  result is what it returns; in the background the error of the run is only logged by \<open>Spawn\<close>.\<close>

definition DoConnectTcp :: "bool \<Rightarrow> string \<Rightarrow> goerr + string \<Rightarrow> goerr + unit \<Rightarrow> ee option \<Rightarrow> ee option" where
  "DoConnectTcp isSpawn addr split dial run =
     (case split of
        Inl e \<Rightarrow> Some (EeNew (Some e) (''Error splitting host port addr:'' @ addr))
      | Inr port \<Rightarrow>
          (case dial of
             Inl e \<Rightarrow> Some (EeNew (Some e) (''err:connect tcp addr:'' @ addr))
           | Inr _ \<Rightarrow> if isSpawn then None else map_option (\<lambda>e. EeWrap e ''connService.Run'') run))"

definition ConnectTcpSync :: "string \<Rightarrow> goerr + string \<Rightarrow> goerr + unit \<Rightarrow> ee option \<Rightarrow> ee option" where
  "ConnectTcpSync addr split dial run = DoConnectTcp False addr split dial run"
definition ConnectTcp :: "string \<Rightarrow> goerr + string \<Rightarrow> goerr + unit \<Rightarrow> ee option \<Rightarrow> ee option" where
  "ConnectTcp addr split dial run = DoConnectTcp True addr split dial run"

subsection \<open>Close waits for everything\<close>

text \<open>The service and the position of one call of \<open>Close\<close>: \<open>None\<close> before it and \<open>Some (Inr ())\<close> behind it.\<close>

inductive service_step ::
  "Service \<times> (close_pc + unit) option \<Rightarrow> Service \<times> (close_pc + unit) option \<Rightarrow> bool" where
  accept: "accept_step res s = Some s' \<Longrightarrow> service_step (s, p) (s', p)"
| finish: "conn_done s = Some s' \<Longrightarrow> service_step (s, p) (s', p)"
| call: "service_step (s, None) (s, Some (Inl CloseEnter))"
| close: "Service_Close s p = Some (s', q) \<Longrightarrow> service_step (s, Some (Inl p)) (s', Some q)"

definition service_inv :: "Service \<times> (close_pc + unit) option \<Rightarrow> bool" where
  "service_inv x \<longleftrightarrow>
     (case x of (s, p) \<Rightarrow>
        sv_listener s \<and> sv_loop s \<noteq> NotStarted \<and>
        sv_wg s = int (sv_running s) + (if sv_loop s = Accepting then 1 else 0) \<and>
        (p = Some (Inl CloseListener) \<longrightarrow> sv_IsQuit s \<and> sv_cancelled s) \<and>
        (p = Some (Inl CloseWait) \<or> p = Some (Inr ()) \<longrightarrow> sv_IsQuit s \<and> sv_cancelled s \<and> sv_lclosed s) \<and>
        (sv_IsQuit s \<longrightarrow> sv_cancelled s) \<and>
        (p = Some (Inr ()) \<longrightarrow> sv_wg s = 0))"

lemma service_inv_step: "service_step x y \<Longrightarrow> service_inv x \<Longrightarrow> service_inv y"
proof (induction rule: service_step.induct)
  case (close s p s' q)
  then show ?case by (cases p) (auto simp: service_inv_def Service_QuitFunc_def split: if_splits)
qed (auto simp: service_inv_def accept_step_def conn_done_def split: if_splits nat.splits)

lemma Service_Close_waits:
  assumes "ListenTcp addr listen splt = Inr s0" and "service_step\<^sup>*\<^sup>* (s0, None) (s, p)"
  shows "sv_wg s = int (sv_running s) + (if sv_loop s = Accepting then 1 else 0) \<and>
    (p = Some (Inr ()) \<longrightarrow> sv_running s = 0 \<and> sv_loop s = LoopEnded \<and> sv_cancelled s \<and> sv_lclosed s \<and>
       (\<forall>res. accept_step res s = None))"
proof -
  have "service_inv (s0, None)"
    using assms(1) by (auto simp: service_inv_def ListenTcp_def NewService_def split: sum.splits)
  with assms(2) have "service_inv (s, p)"
    by (induction "(s, p)" arbitrary: s p rule: rtranclp_induct) (auto intro: service_inv_step)
  then show ?thesis
    by (cases "sv_loop s") (auto simp: service_inv_def accept_step_def split: if_splits)
qed

subsection \<open>Sends that count a reference\<close>

text \<open>\<open>TryWriteChanRef\<close> and \<open>WriteChanRef\<close>: the message is cloned, and the reference is put back where the
  send is refused. The heap of messages is that of \<open>msgPool\<close>; the connection is sent the data. A panic
  keeps the state, as the goroutine that sends recovers.\<close>

definition msg_bytes :: "MsgState \<Rightarrow> nat \<Rightarrow> byte list" where
  "msg_bytes ms a = take (nat (m_Size (msg_at ms a))) (m_Datas (msg_at ms a))"

definition put_refused :: "MsgState \<Rightarrow> nat \<Rightarrow> ('r, 'w) Conn \<Rightarrow> (MsgState \<times> ('r, 'w) Conn) \<times> bool go" where
  "put_refused ms a c = (case Msg_Put ms a of (ms', Inl p) \<Rightarrow> ((ms', c), Inl p) | (ms', Inr _) \<Rightarrow> ((ms', c), Inr False))"

definition ConnService_TryWriteChanRef ::
  "64 word \<Rightarrow> MsgState \<Rightarrow> nat \<Rightarrow> ('r, 'w) Conn \<Rightarrow> (MsgState \<times> ('r, 'w) Conn) \<times> bool go" where
  "ConnService_TryWriteChanRef sessionId ms a c =
     (case Msg_Clone ms a of
        (ms1, Inl p) \<Rightarrow> ((ms1, c), Inl p)
      | (ms1, Inr writeMsg) \<Rightarrow>
          (case ConnService_TryWriteChan sessionId (msg_bytes ms1 writeMsg) c of
             Inl p \<Rightarrow> ((ms1, c), Inl p)
           | Inr (True, c1) \<Rightarrow> ((ms1, c1), Inr True)
           | Inr (False, c1) \<Rightarrow> put_refused ms1 writeMsg c1))"

definition ConnService_WriteChanRef ::
  "bool \<Rightarrow> 64 word \<Rightarrow> MsgState \<Rightarrow> nat \<Rightarrow> ('r, 'w) Conn \<Rightarrow> ((MsgState \<times> ('r, 'w) Conn) \<times> bool go) option" where
  "ConnService_WriteChanRef late sessionId ms a c =
     (case Msg_Clone ms a of
        (ms1, Inl p) \<Rightarrow> Some ((ms1, c), Inl p)
      | (ms1, Inr writeMsg) \<Rightarrow>
          (case ConnService_WriteChan late sessionId (msg_bytes ms1 writeMsg) c of
             None \<Rightarrow> None
           | Some (Inl p) \<Rightarrow> Some ((ms1, c), Inl p)
           | Some (Inr (True, c1)) \<Rightarrow> Some ((ms1, c1), Inr True)
           | Some (Inr (False, c1)) \<Rightarrow> Some (put_refused ms1 writeMsg c1)))"

text \<open>A refused send leaves the references as they were; an accepted one holds one more.\<close>

lemma put_after_clone:
  assumes "a < length (mp_heap ms)" and "0 <s m_RefCount (msg_at ms a)" and "Msg_Clone ms a = (ms1, Inr b)"
  shows "b = a" and "put_refused ms1 b c = ((ms, c), Inr False)"
    and "ms1 = set_msg ms a ((msg_at ms a)\<lparr>m_RefCount := m_RefCount (msg_at ms a) + 1\<rparr>)"
proof -
  have pos: "\<not> m_RefCount (msg_at ms a) \<le>s 0" "m_RefCount (msg_at ms a) \<noteq> 0" "\<not> m_RefCount (msg_at ms a) <s 0"
    using assms(2) by (auto simp: word_sless_alt word_sle_eq)
  then show ba: "b = a" and ms1: "ms1 = set_msg ms a ((msg_at ms a)\<lparr>m_RefCount := m_RefCount (msg_at ms a) + 1\<rparr>)"
    using assms(3) by (auto simp: Msg_Clone_def Let_def split: if_splits)
  show "put_refused ms1 b c = ((ms, c), Inr False)"
    unfolding ba ms1 using pos assms(1)
    by (simp add: put_refused_def Msg_Put_def Let_def set_msg_def msg_at_def)
qed

lemma WriteChanRef_references:
  assumes "a < length (mp_heap ms)" and "0 <s m_RefCount (msg_at ms a)"
    and "ConnService_WriteChanRef late sessionId ms a c = Some ((ms', c'), Inr sent)"
  shows "if sent
    then ms' = set_msg ms a ((msg_at ms a)\<lparr>m_RefCount := m_RefCount (msg_at ms a) + 1\<rparr>) \<and>
      (\<exists>msg. cn_writeChan c' = cn_writeChan c @ [msg])
    else ms' = ms \<and> c' = c"
proof -
  obtain ms1 r where cl: "Msg_Clone ms a = (ms1, r)" by (metis surj_pair)
  obtain b where b: "r = Inr b" using assms(3) cl by (cases r) (auto simp: ConnService_WriteChanRef_def)
  note pc = put_after_clone[OF assms(1,2) cl[unfolded b]]
  obtain sent' c1 where w: "ConnService_WriteChan late sessionId (msg_bytes ms1 b) c = Some (Inr (sent', c1))"
    using assms(3) cl b by (auto simp: ConnService_WriteChanRef_def split: option.splits sum.splits)
  note c1 = WriteChan_ok[OF w]
  show ?thesis
  proof (cases sent')
    case True
    then have "ms' = ms1" "c' = c1" sent using assms(3) cl b w by (simp_all add: ConnService_WriteChanRef_def)
    then show ?thesis using pc(3) c1 True by auto
  next
    case False
    then have "put_refused ms1 b c1 = ((ms', c'), Inr sent)"
      using assms(3) cl b w by (simp add: ConnService_WriteChanRef_def)
    then show ?thesis using pc(2)[of c1] c1 False by auto
  qed
qed

end
