(* ===== verification/Ginx.thy ===== *)
theory Ginx
  imports Gox_Spawn
begin

section \<open>The JSON response of ginx\<close>

text \<open>
  \<open>HttpJsonResp\<close> of \<open>rivetxcore/ginx/server.go\<close>: it reads the body, runs the callback, and writes one
  JSON object, whatever the callback does. The values of the data are a type \<open>'d\<close> with a nil; what
  \<open>json.Marshal\<close> makes of the object, the time, and the reader of the body are parameters. The router and
  the listening server only call the library \<open>gin\<close>.
\<close>

text \<open>What the callback sets in the request.\<close>

record 'd HttpReqData =
  rq_IsDisableAccessLog :: bool
  rq_IsDisablePrintBody :: bool
  rq_Body :: "byte list"
  rq_Status :: int
  rq_Code :: int
  rq_DesMsg :: string
  rq_DataMsg :: "'d option"

definition new_req :: "'d HttpReqData" where
  "new_req = \<lparr>rq_IsDisableAccessLog = False, rq_IsDisablePrintBody = False, rq_Body = [], rq_Status = 0,
     rq_Code = 0, rq_DesMsg = [], rq_DataMsg = None\<rparr>"

record 'd HttpJsonOptions =
  op_MaxBodyBytes :: int
  op_FormatData :: "('d option \<Rightarrow> 'd option go) option"
  op_FormatLogBody :: "(byte list \<Rightarrow> byte list go) option"

definition no_options :: "'d HttpJsonOptions" where
  "no_options = \<lparr>op_MaxBodyBytes = 0, op_FormatData = None, op_FormatLogBody = None\<rparr>"

definition maxBodyBytes :: "'d HttpJsonOptions \<Rightarrow> int" where
  "maxBodyBytes option = (if 0 < op_MaxBodyBytes option then op_MaxBodyBytes option else 2 ^ 20)"

text \<open>The formatter of the log may panic; then a fixed text is logged.\<close>

definition ascii :: "string \<Rightarrow> byte list" where
  "ascii s = map (\<lambda>c. of_nat (of_char c)) s"

definition formatLogBody :: "byte list \<Rightarrow> (byte list \<Rightarrow> byte list go) option \<Rightarrow> byte list" where
  "formatLogBody body format =
     (case format of
        None \<Rightarrow> body
      | Some f \<Rightarrow> (case f body of Inl p \<Rightarrow> ascii ''[request log body formatter failed]'' | Inr xs \<Rightarrow> xs))"

text \<open>The body and the callback: a panic becomes an error with no value. \<open>readAll max\<close> is the body up to
  the limit, or the error of reading it. The callback gets the request and returns it as it left it.\<close>

type_synonym 'd callback = "'d HttpReqData \<Rightarrow> 'd HttpReqData \<times> ('d option \<times> go_error option) go"

definition http_call ::
  "bool \<Rightarrow> 'd HttpJsonOptions \<Rightarrow> (int \<Rightarrow> go_error + byte list) \<Rightarrow> go_error \<Rightarrow> 'd callback \<Rightarrow>
     'd HttpReqData \<times> 'd option \<times> go_error option" where
  "http_call isReadBody option readAll panicErr doFunc =
     (case (if isReadBody then map_sum id (\<lambda>body. new_req\<lparr>rq_Body := body\<rparr>) (readAll (maxBodyBytes option))
            else Inr new_req) of
        Inl e \<Rightarrow> (new_req, None, Some \<lparr>er_text = ''read req_body'' @ er_text e, er_ignore = er_ignore e\<rparr>)
      | Inr req \<Rightarrow>
          (case doFunc req of
             (req1, Inl p) \<Rightarrow> (req1, None, Some panicErr)
           | (req1, Inr (ret, err)) \<Rightarrow> (req1, ret, err)))"

text \<open>The object of the response.\<close>

record 'd HttpJson =
  js_success :: bool
  js_code :: int
  js_des_msg :: string
  js_data_msg :: "'d option"
  js_elapsed :: int
  js_sessionId :: "64 word"

text \<open>What is logged: the access log with the body it prints, as an error, at debug or at info level.\<close>

datatype access_log = LogError "byte list" | LogDebug "byte list" | LogInfo | LogNothing

text \<open>\<open>levelInfo\<close>: the level of the HTTP log is below \<open>INFO\<close>.\<close>

definition access_logged :: "bool \<Rightarrow> 'd HttpJsonOptions \<Rightarrow> 'd HttpReqData \<Rightarrow> int \<Rightarrow> access_log" where
  "access_logged belowInfo option req code =
     (let logBody = (if \<not> rq_IsDisablePrintBody req \<and> (code < 0 \<or> \<not> rq_IsDisableAccessLog req \<and> belowInfo)
                     then formatLogBody (rq_Body req) (op_FormatLogBody option) else [])
      in if code < 0 then LogError logBody
         else if \<not> rq_IsDisableAccessLog req then (if belowInfo then LogDebug logBody else LogInfo)
         else LogNothing)"

text \<open>\<open>stack\<close> asks for the text of the error with its stack, \<open>full\<close>.\<close>

definition http_data ::
  "(go_error \<Rightarrow> string) \<Rightarrow> bool \<Rightarrow> 'd HttpReqData \<Rightarrow> 'd option \<Rightarrow> go_error option \<Rightarrow> int \<Rightarrow> 64 word \<Rightarrow> 'd HttpJson" where
  "http_data full stack req value2 callErr elapsed sessionID =
     (let code = (if callErr \<noteq> None \<and> rq_Code req = 0 then -1 else rq_Code req);
          description = (if rq_DesMsg req = []
                         then (case callErr of None \<Rightarrow> [] | Some e \<Rightarrow> if stack then full e else er_text e)
                         else rq_DesMsg req)
      in \<lparr>js_success = (0 \<le> code), js_code = code, js_des_msg = description, js_data_msg = value2,
          js_elapsed = elapsed, js_sessionId = sessionID\<rparr>)"

text \<open>The function that formats the data, if there is one; its panic is not recovered.\<close>

definition format_data :: "'d HttpJsonOptions \<Rightarrow> 'd option \<Rightarrow> 'd option go" where
  "format_data option v = (case op_FormatData option of None \<Rightarrow> Inr v | Some f \<Rightarrow> f v)"

text \<open>Where the data cannot be marshalled, an object that says so is; its own marshalling is taken as it is,
  and is empty where it fails, too.\<close>

definition http_body ::
  "('d HttpJson \<Rightarrow> string + byte list) \<Rightarrow> 'd HttpJsonOptions \<Rightarrow> 'd HttpJson \<Rightarrow> byte list go" where
  "http_body marshal option x =
     (case marshal x of
        Inr bs \<Rightarrow> Inr bs
      | Inl e \<Rightarrow>
          (case (if op_FormatData option \<noteq> None then format_data option None else Inr None) of
             Inl p \<Rightarrow> Inl p
           | Inr emptyData \<Rightarrow>
               (case marshal (x\<lparr>js_success := False, js_code := -1, js_des_msg := ''json.Marshal err:'' @ e,
                                js_data_msg := emptyData\<rparr>) of
                  Inr bs \<Rightarrow> Inr bs
                | Inl e2 \<Rightarrow> Inr [])))"

text \<open>The status and the bytes that are written, and the access log; \<open>Inl\<close> is a panic that leaves the
  function.\<close>

definition HttpJsonResp ::
  "('d HttpJson \<Rightarrow> string + byte list) \<Rightarrow> (go_error \<Rightarrow> string) \<Rightarrow> bool \<Rightarrow> bool \<Rightarrow> (int \<Rightarrow> go_error + byte list) \<Rightarrow>
     go_error \<Rightarrow> int \<Rightarrow> 64 word \<Rightarrow> bool \<Rightarrow> 'd callback \<Rightarrow> 'd HttpJsonOptions list \<Rightarrow>
     (int \<times> byte list \<times> access_log) go" where
  "HttpJsonResp marshal full stack belowInfo readAll panicErr elapsed sessionID isReadBody doFunc options =
     (let option = (case options of [] \<Rightarrow> no_options | x # xs \<Rightarrow> x)
      in case http_call isReadBody option readAll panicErr doFunc of
           (req, ret, callErr) \<Rightarrow>
             (case format_data option (if rq_DataMsg req \<noteq> None then rq_DataMsg req else ret) of
                Inl p \<Rightarrow> Inl p
              | Inr value2 \<Rightarrow>
                  (let x = http_data full stack req value2 callErr elapsed sessionID
                   in case http_body marshal option x of
                        Inl p \<Rightarrow> Inl p
                      | Inr body \<Rightarrow>
                          Inr (if rq_Status req = 0 then 200 else rq_Status req, body,
                               access_logged belowInfo option req (js_code x)))))"

subsection \<open>What the client is told\<close>

lemma http_data_fields:
  "js_success (http_data full stack req v callErr elapsed sid) \<longleftrightarrow>
     0 \<le> rq_Code req \<and> (callErr \<noteq> None \<longrightarrow> rq_Code req \<noteq> 0)"
  "js_code (http_data full stack req v callErr elapsed sid) = (if callErr \<noteq> None \<and> rq_Code req = 0 then -1 else rq_Code req)"
  "js_data_msg (http_data full stack req v callErr elapsed sid) = v"
  by (auto simp: http_data_def Let_def)

lemma http_body_total:
  assumes "\<And>v. \<exists>d. format_data option v = Inr d"
  shows "\<exists>bs. http_body marshal option x = Inr bs \<and> (\<forall>bs'. marshal x = Inr bs' \<longrightarrow> bs = bs')"
  using assms[of None] by (auto simp: http_body_def split: sum.splits)

text \<open>What does not look at the formatter of the log.\<close>

lemma log_formatter_unused [simp]:
  "http_call rb (option\<lparr>op_FormatLogBody := f\<rparr>) = http_call rb option"
  "format_data (option\<lparr>op_FormatLogBody := f\<rparr>) = format_data option"
  "http_body marshal (option\<lparr>op_FormatLogBody := f\<rparr>) = http_body marshal option"
proof -
  show fd: "format_data (option\<lparr>op_FormatLogBody := f\<rparr>) = format_data option"
    by (simp add: format_data_def fun_eq_iff)
  show "http_body marshal (option\<lparr>op_FormatLogBody := f\<rparr>) = http_body marshal option"
  proof
    fix x
    show "http_body marshal (option\<lparr>op_FormatLogBody := f\<rparr>) x = http_body marshal option x"
      by (cases "marshal x") (simp_all add: http_body_def fd)
  qed
qed (simp add: http_call_def maxBodyBytes_def fun_eq_iff)

text \<open>C17: whatever the callback does, a panic included, the client gets one answer. It says success exactly
  where the code is not negative; an error for which the callback chose no code has code -1, and its
  value is replaced by the data the callback set; and a formatter of the log, even one that panics,
  changes neither the status nor the answer.\<close>

theorem HttpJsonResp_answers:
  assumes "\<And>v. \<exists>d. format_data option v = Inr d"
    and "http_call isReadBody option readAll panicErr doFunc = (req, ret, callErr)"
  shows "\<exists>x body log.
    HttpJsonResp marshal full stack li readAll panicErr el sid isReadBody doFunc [option] =
      Inr (if rq_Status req = 0 then 200 else rq_Status req, body, log) \<and>
    (js_success x \<longleftrightarrow> 0 \<le> js_code x) \<and>
    js_code x = (if callErr \<noteq> None \<and> rq_Code req = 0 then -1 else rq_Code req) \<and>
    format_data option (case rq_DataMsg req of None \<Rightarrow> ret | Some d \<Rightarrow> Some d) = Inr (js_data_msg x) \<and>
    (\<forall>bs. marshal x = Inr bs \<longrightarrow> body = bs) \<and>
    (\<forall>f. \<exists>log'. HttpJsonResp marshal full stack li readAll panicErr el sid isReadBody doFunc [option\<lparr>op_FormatLogBody := f\<rparr>] =
      Inr (if rq_Status req = 0 then 200 else rq_Status req, body, log'))"
proof -
  have dm: "(if rq_DataMsg req \<noteq> None then rq_DataMsg req else ret) = (case rq_DataMsg req of None \<Rightarrow> ret | Some d \<Rightarrow> Some d)"
    by (auto split: option.splits)
  obtain v where v: "format_data option (case rq_DataMsg req of None \<Rightarrow> ret | Some d \<Rightarrow> Some d) = Inr v"
    using assms(1) by blast
  define x where "x = http_data full stack req v callErr el sid"
  obtain body where b: "http_body marshal option x = Inr body" "\<And>bs'. marshal x = Inr bs' \<Longrightarrow> body = bs'"
    using http_body_total[OF assms(1)] by blast
  have run: "HttpJsonResp marshal full stack li readAll panicErr el sid isReadBody doFunc [option\<lparr>op_FormatLogBody := f\<rparr>] =
      Inr (if rq_Status req = 0 then 200 else rq_Status req, body, access_logged li (option\<lparr>op_FormatLogBody := f\<rparr>) req (js_code x))" for f
    using assms(2) v b(1) unfolding HttpJsonResp_def dm[symmetric] by (simp add: Let_def x_def)
  show ?thesis
    using run[of "op_FormatLogBody option"] run b(2) v
    by (intro exI[of _ x] exI[of _ body] exI[of _ "access_logged li option req (js_code x)"])
      (auto simp: x_def http_data_fields)
qed

text \<open>A callback that panics, with a formatter of the log that panics.\<close>

theorem HttpJsonResp_answers_witness:
  "\<exists>body log. HttpJsonResp (\<lambda>x. Inr (if js_success x then [1] else [0])) er_text False True (\<lambda>_. Inr [7]) \<lparr>er_text = ''panic'', er_ignore = False\<rparr>
      5 9 True (\<lambda>req. (req, Inl IndexRange)) [no_options\<lparr>op_FormatLogBody := Some (\<lambda>_. Inl IndexRange)\<rparr> :: nat HttpJsonOptions] =
      Inr (200, body, log) \<and> body = [0 :: byte]"
proof -
  let ?op = "no_options\<lparr>op_FormatLogBody := Some (\<lambda>_. Inl IndexRange)\<rparr> :: nat HttpJsonOptions"
  let ?e = "\<lparr>er_text = ''panic'', er_ignore = False\<rparr>"
  have f: "\<And>v. \<exists>d. format_data ?op v = Inr d" by (simp add: format_data_def no_options_def)
  have c: "http_call True ?op (\<lambda>_. Inr [7]) ?e (\<lambda>req. (req, Inl IndexRange)) = (new_req\<lparr>rq_Body := [7]\<rparr>, None, Some ?e)"
    by (simp add: http_call_def)
  from HttpJsonResp_answers[OF f c, of "\<lambda>x. Inr (if js_success x then [1] else [0])" er_text False True 5 9]
  show ?thesis by (auto simp: new_req_def)
qed

end
