(* ===== verification/Limitx.thy ===== *)
theory Limitx
  imports Prelude
begin

section \<open>Limits of the process\<close>

text \<open>
  \<open>SetUlimit\<close> of \<open>rivetxcore/limitx/limit_linux.go\<close>. The system is a state \<open>'s\<close> with two calls for each of
  the two resources, the number of files and the locked memory: \<open>get\<close> reads a limit or fails, \<open>put\<close> sets
  one or fails. Limits are unsigned 64-bit numbers.
\<close>

datatype resource = NoFile | MemLock

record Rlimit =
  rl_Cur :: "64 word"
  rl_Max :: "64 word"

record ConfigLimit =
  OpenFileLimitSoft :: "64 word"
  OpenFileLimitHard :: "64 word"
  MemlockRlimitCurr :: "64 word"
  MemlockRlimitMax :: "64 word"

datatype limit_err = GetFailed resource | SetFailed resource

type_synonym 's get_fun = "resource \<Rightarrow> 's \<Rightarrow> Rlimit option"
type_synonym 's put_fun = "resource \<Rightarrow> Rlimit \<Rightarrow> 's \<Rightarrow> 's option"

definition default_limit :: ConfigLimit where
  "default_limit = \<lparr>OpenFileLimitSoft = 512 * 1024, OpenFileLimitHard = 512 * 1024,
     MemlockRlimitCurr = 1 * 1024 * 1024 * 1024, MemlockRlimitMax = 2 * 1024 * 1024 * 1024\<rparr>"

text \<open>The limit that is asked for: never below the one that holds, and the soft not above the hard.\<close>

definition raised :: "64 word \<Rightarrow> 64 word \<Rightarrow> Rlimit \<Rightarrow> Rlimit" where
  "raised soft0 hard0 r =
     (let soft1 = (if soft0 < rl_Cur r then rl_Cur r else soft0);
          hard = (if hard0 < rl_Max r then rl_Max r else hard0);
          soft = (if hard < soft1 then hard else soft1)
      in \<lparr>rl_Cur = soft, rl_Max = hard\<rparr>)"

text \<open>Where the system refuses: the fall-back of each resource. For the memory it halves the limit it had
  asked for.\<close>

definition fallback :: "resource \<Rightarrow> Rlimit \<Rightarrow> Rlimit" where
  "fallback res r =
     (case res of
        NoFile \<Rightarrow> \<lparr>rl_Cur = 65535, rl_Max = 65535\<rparr>
      | MemLock \<Rightarrow> \<lparr>rl_Cur = rl_Cur r div 2, rl_Max = rl_Max r div 2\<rparr>)"

definition set_resource ::
  "'s get_fun \<Rightarrow> 's put_fun \<Rightarrow> resource \<Rightarrow> 64 word \<Rightarrow> 64 word \<Rightarrow> 's \<Rightarrow> limit_err option \<times> 's" where
  "set_resource get put res soft hard s =
     (if 0 < soft \<and> 0 < hard
      then (case get res s of
              None \<Rightarrow> (Some (GetFailed res), s)
            | Some r \<Rightarrow>
                if rl_Cur r < soft \<or> rl_Max r < hard
                then (case put res (raised soft hard r) s of
                        Some s' \<Rightarrow> (None, s')
                      | None \<Rightarrow>
                          (case put res (fallback res (raised soft hard r)) s of
                             Some s' \<Rightarrow> (None, s')
                           | None \<Rightarrow> (Some (SetFailed res), s)))
                else (None, s))
      else (None, s))"

definition SetUlimit :: "'s get_fun \<Rightarrow> 's put_fun \<Rightarrow> ConfigLimit option \<Rightarrow> 's \<Rightarrow> limit_err option \<times> 's" where
  "SetUlimit get put configLimit s =
     (let c = (case configLimit of None \<Rightarrow> default_limit | Some c \<Rightarrow> c)
      in case set_resource get put NoFile (OpenFileLimitSoft c) (OpenFileLimitHard c) s of
           (Some e, s1) \<Rightarrow> (Some e, s1)
         | (None, s1) \<Rightarrow> set_resource get put MemLock (MemlockRlimitCurr c) (MemlockRlimitMax c) s1)"

text \<open>A limit that is asked for is well formed and lowers nothing that was well formed.\<close>

lemma raised_ok:
  "rl_Cur (raised soft hard r) \<le> rl_Max (raised soft hard r)"
  "rl_Max r \<le> rl_Max (raised soft hard r)" "hard \<le> rl_Max (raised soft hard r)"
  "rl_Cur r \<le> rl_Max r \<Longrightarrow> rl_Cur r \<le> rl_Cur (raised soft hard r)"
  by (auto simp: raised_def Let_def not_less not_le intro: order.trans less_imp_le)

end
