(* ===== verification/Task_Group.thy ===== *)
theory Task_Group
  imports Prelude
begin

section \<open>syncx.TaskGroup\<close>

text \<open>
  \<open>rivetxcore/syncx/task_group.go\<close>: a counter of tasks and a context that is cancelled once. \<open>sync.Once\<close> is
  a flag with the state of running; a caller that finds it running waits.
\<close>

datatype once = OnceIdle | OnceRunning | OnceDone

record TaskGroup =
  tg_count :: int
  tg_cancelled :: bool
  tg_IsQuit :: bool
  tg_once :: once

definition NewTaskGroup :: TaskGroup where
  "NewTaskGroup = \<lparr>tg_count = 0, tg_cancelled = False, tg_IsQuit = False, tg_once = OnceIdle\<rparr>"

definition TaskGroup_Add :: "TaskGroup \<Rightarrow> int \<Rightarrow> TaskGroup go" where
  "TaskGroup_Add g delta =
     (if tg_count g + delta < 0 then Inl WaitGroupNegative else Inr (g\<lparr>tg_count := tg_count g + delta\<rparr>))"

definition TaskGroup_Done :: "TaskGroup \<Rightarrow> TaskGroup go" where
  "TaskGroup_Done g = TaskGroup_Add g (- 1)"

text \<open>\<open>Wait\<close> returns while the counter is zero; \<open>Subscribe\<close> is the channel that cancelling closes.\<close>

definition TaskGroup_Wait :: "TaskGroup \<Rightarrow> TaskGroup option" where
  "TaskGroup_Wait g = (if tg_count g = 0 then Some g else None)"

definition TaskGroup_Subscribe :: "TaskGroup \<Rightarrow> bool" where
  "TaskGroup_Subscribe g = tg_cancelled g"

datatype quit_pc = QuitEnter | QuitBody | QuitWait | QuitExit

fun TaskGroup_Quit :: "bool \<Rightarrow> TaskGroup \<Rightarrow> quit_pc \<Rightarrow> (TaskGroup \<times> quit_pc option) option" where
  "TaskGroup_Quit isWait g QuitEnter =
     (case tg_once g of
        OnceIdle \<Rightarrow> Some (g\<lparr>tg_once := OnceRunning\<rparr>, Some QuitBody)
      | OnceRunning \<Rightarrow> None
      | OnceDone \<Rightarrow> Some (g, None))"
| "TaskGroup_Quit isWait g QuitBody =
     (if tg_IsQuit g then Some (g, Some QuitExit)
      else Some (g\<lparr>tg_IsQuit := True, tg_cancelled := True\<rparr>, Some (if isWait then QuitWait else QuitExit)))"
| "TaskGroup_Quit isWait g QuitWait = map_option (\<lambda>g'. (g', Some QuitExit)) (TaskGroup_Wait g)"
| "TaskGroup_Quit isWait g QuitExit = Some (g\<lparr>tg_once := OnceDone\<rparr>, None)"

text \<open>The first call cancels, and waits if it was asked to; a call that comes later waits for no task: it
  returns at once even where it asks to wait and tasks still run.\<close>

fun quit_run :: "nat \<Rightarrow> bool \<Rightarrow> TaskGroup \<Rightarrow> quit_pc \<Rightarrow> (TaskGroup \<times> bool) option" where
  "quit_run 0 isWait g p = Some (g, False)"
| "quit_run (Suc n) isWait g p =
     (case TaskGroup_Quit isWait g p of
        None \<Rightarrow> Some (g, False)
      | Some (g', None) \<Rightarrow> Some (g', True)
      | Some (g', Some p') \<Rightarrow> quit_run n isWait g' p')"

lemma quit_first:
  assumes "tg_once g = OnceIdle" and "\<not> tg_IsQuit g"
  shows "\<exists>g'. quit_run 4 isWait g QuitEnter = Some (g', \<not> isWait \<or> tg_count g = 0) \<and> tg_cancelled g' \<and> tg_IsQuit g'"
  using assms by (auto simp: eval_nat_numeral TaskGroup_Wait_def)

lemma quit_again:
  assumes "tg_once g = OnceDone"
  shows "quit_run 4 isWait g QuitEnter = Some (g, True)"
  using assms by (simp add: eval_nat_numeral)

end
