(* ===== verification/Sql_Cache.thy ===== *)
theory Sql_Cache
  imports Sql_Select
begin

section \<open>The caches of the connection\<close>

text \<open>
  \<open>GetDbName\<close> and \<open>GetAutoIncrementColumns\<close> of \<open>rivetxsql/util.go\<close>: the name of the database of a
  connection, and the columns of a table that count up, asked for once. A connection is a number; \<open>nameq\<close>
  is the result of \<open>SELECT DATABASE()\<close>. The calls for one key exclude each other, so a call is one step.
\<close>

record SqlCache =
  dbNameCache :: "nat \<rightharpoonup> string"
  autoIncrementColumns :: "string \<rightharpoonup> string set option"

definition GetCurrentDBName :: "('db \<Rightarrow> nat \<Rightarrow> string option) \<Rightarrow> 'db \<Rightarrow> nat \<Rightarrow> unit + string" where
  "GetCurrentDBName nameq db conn = (case nameq db conn of None \<Rightarrow> Inl () | Some name \<Rightarrow> Inr name)"

definition GetDbName :: "('db \<Rightarrow> nat \<Rightarrow> string option) \<Rightarrow> 'db \<Rightarrow> nat \<Rightarrow> SqlCache \<Rightarrow> SqlCache \<times> (unit + string)" where
  "GetDbName nameq db conn cs =
     (case dbNameCache cs conn of
        Some val \<Rightarrow> (cs, Inr val)
      | None \<Rightarrow>
          (case GetCurrentDBName nameq db conn of
             Inl e \<Rightarrow> (cs, Inl ())
           | Inr dbName \<Rightarrow> (cs\<lparr>dbNameCache := (dbNameCache cs)(conn \<mapsto> dbName)\<rparr>, Inr dbName)))"

definition auto_key :: "string \<Rightarrow> string \<Rightarrow> string" where
  "auto_key dbName tableName = dbName @ ''_'' @ tableName"

definition auto_builder :: "(string \<Rightarrow> 'v) \<Rightarrow> string \<Rightarrow> string \<Rightarrow> 'v SelectBuilder" where
  "auto_builder strv dbName tableName =
     SelectBuilder_WhereEq
       (SelectBuilder_WhereEq
         (SelectBuilder_WhereEq (NewSelect ''information_schema.COLUMNS'') ''TABLE_SCHEMA'' (strv dbName))
         ''TABLE_NAME'' (strv tableName))
       ''EXTRA'' (strv ''auto_increment'')"

text \<open>The select runs through \<open>SelectBuilder_Exec\<close>; \<open>name_of\<close> is the name in a row. The reasons of errors
  are dropped.\<close>

definition GetAutoIncrementColumns ::
  "('db, 'v) query_fun \<Rightarrow> 'v rowtype \<Rightarrow> (string \<Rightarrow> 'v) \<Rightarrow> ('v list \<Rightarrow> string) \<Rightarrow> ('db \<Rightarrow> nat \<Rightarrow> string option) \<Rightarrow>
     nat \<Rightarrow> string \<Rightarrow> meta_cache \<Rightarrow> SqlCache \<Rightarrow> 'db \<Rightarrow>
     ('db \<times> meta_cache \<times> SqlCache \<times> (unit + string set)) go option" where
  "GetAutoIncrementColumns qry T strv name_of nameq conn tableName mc cs db =
     (case GetDbName nameq db conn cs of
        (cs1, Inl e) \<Rightarrow> Some (Inr (db, mc, cs1, Inl ()))
      | (cs1, Inr dbName) \<Rightarrow>
          (let key = auto_key dbName tableName;
               cs2 = (case autoIncrementColumns cs1 key of
                        None \<Rightarrow> cs1\<lparr>autoIncrementColumns := (autoIncrementColumns cs1)(key \<mapsto> None)\<rparr>
                      | Some v \<Rightarrow> cs1)
           in case the (autoIncrementColumns cs2 key) of
                Some m \<Rightarrow> Some (Inr (db, mc, cs2, Inr m))
              | None \<Rightarrow>
                  (case snd (SelectBuilder_Exec qry T (\<lambda>_. None) (auto_builder strv dbName tableName) mc db) of
                     None \<Rightarrow> None
                   | Some (Inl p) \<Rightarrow> Some (Inl p)
                   | Some (Inr (db1, mc1, Inl e)) \<Rightarrow> Some (Inr (db1, mc1, cs2, Inl ()))
                   | Some (Inr (db1, mc1, Inr datas)) \<Rightarrow>
                       (let m = set (map name_of datas)
                        in Some (Inr (db1, mc1,
                             cs2\<lparr>autoIncrementColumns := (autoIncrementColumns cs2)(key \<mapsto> Some m)\<rparr>, Inr m))))))"

subsection \<open>What is cached\<close>

text \<open>A result that was found is found again, and the database is not asked.\<close>

lemma GetDbName_cached:
  assumes "GetDbName nameq db conn cs = (cs', Inr name)"
  shows "dbNameCache cs' conn = Some name" and "autoIncrementColumns cs' = autoIncrementColumns cs"
  using assms by (auto simp: GetDbName_def split: option.splits sum.splits)

lemma GetAuto_hit:
  assumes "dbNameCache cs conn = Some name" and "autoIncrementColumns cs (auto_key name table) = Some (Some m)"
  shows "GetAutoIncrementColumns qry T strv name_of nameq conn table mc cs db = Some (Inr (db, mc, cs, Inr m))"
  using assms by (simp add: GetAutoIncrementColumns_def GetDbName_def Let_def)

lemma GetAuto_stores:
  assumes "GetAutoIncrementColumns qry T strv name_of nameq conn table mc cs db = Some (Inr (db1, mc1, cs1, Inr m))"
  shows "\<exists>name. dbNameCache cs1 conn = Some name \<and> autoIncrementColumns cs1 (auto_key name table) = Some (Some m)"
proof -
  obtain cs' r where g: "GetDbName nameq db conn cs = (cs', r)" by (metis surj_pair)
  obtain name where r: "r = Inr name"
    using assms g by (cases r) (auto simp: GetAutoIncrementColumns_def)
  note c = GetDbName_cached[OF g[unfolded r]]
  let ?key = "auto_key name table"
  define cs2 where "cs2 = (case autoIncrementColumns cs' ?key of
      None \<Rightarrow> cs'\<lparr>autoIncrementColumns := (autoIncrementColumns cs')(?key \<mapsto> None)\<rparr> | Some v \<Rightarrow> cs')"
  have c2: "dbNameCache cs2 conn = Some name" "autoIncrementColumns cs2 ?key \<noteq> None"
    using c by (auto simp: cs2_def split: option.splits)
  have run: "(case the (autoIncrementColumns cs2 ?key) of
      Some m \<Rightarrow> Some (Inr (db, mc, cs2, Inr m))
    | None \<Rightarrow>
        (case snd (SelectBuilder_Exec qry T (\<lambda>_. None) (auto_builder strv name table) mc db) of
           None \<Rightarrow> None
         | Some (Inl p) \<Rightarrow> Some (Inl p)
         | Some (Inr (db1, mc1, Inl e)) \<Rightarrow> Some (Inr (db1, mc1, cs2, Inl ()))
         | Some (Inr (db1, mc1, Inr datas)) \<Rightarrow>
             Some (Inr (db1, mc1, cs2\<lparr>autoIncrementColumns := (autoIncrementColumns cs2)(?key \<mapsto> Some (set (map name_of datas)))\<rparr>,
               Inr (set (map name_of datas)))))) = Some (Inr (db1, mc1, cs1, Inr m))"
    using assms unfolding GetAutoIncrementColumns_def g r Let_def prod.case sum.case cs2_def[symmetric] .
  show ?thesis
  proof (cases "the (autoIncrementColumns cs2 ?key)")
    case None
    then have "cs1 = cs2\<lparr>autoIncrementColumns := (autoIncrementColumns cs2)(?key \<mapsto> Some m)\<rparr>"
      using run by (auto split: option.splits sum.splits prod.splits)
    then show ?thesis using c2 by simp
  next
    case (Some x)
    then show ?thesis using run c2 by auto
  qed
qed

lemma GetAuto_again:
  assumes "GetAutoIncrementColumns qry T strv name_of nameq conn table mc cs db = Some (Inr (db1, mc1, cs1, Inr m))"
  shows "GetAutoIncrementColumns qry' T strv name_of nameq' conn table mc' cs1 db' = Some (Inr (db', mc', cs1, Inr m))"
proof -
  obtain name where "dbNameCache cs1 conn = Some name" "autoIncrementColumns cs1 (auto_key name table) = Some (Some m)"
    using GetAuto_stores[OF assms] by blast
  then show ?thesis by (rule GetAuto_hit)
qed

text \<open>The key joins the two names by a character both may hold: the columns of a table of one database are
  returned for another table of another one, and the database is never asked for those.\<close>

lemma GetAuto_collision:
  assumes "dbNameCache cs 1 = Some ''a''" and "dbNameCache cs 2 = Some ''a_b''"
    and "autoIncrementColumns cs (auto_key ''a'' ''b_c'') = Some (Some m)"
  shows "GetAutoIncrementColumns qry T strv name_of nameq 2 ''c'' mc cs db = Some (Inr (db, mc, cs, Inr m))"
  using GetAuto_hit[OF assms(2), of "''c''" m] assms(3) by (simp add: auto_key_def)

end
